(* ===== verification/Prelude.thy ===== *)
theory Prelude
  imports Main "HOL-Library.Word" "HOL-Library.AList" "HOL-Library.Char_ord"
    "HOL-Library.List_Lexorder" "HOL-Library.Product_Lexorder" "HOL-Library.Monad_Syntax"
begin

unbundle bit_operations_syntax

text \<open>
  What every component of the relay model shares: the machine types of the Rust
  code, byte strings and UTF-8 text, the standard library's integer parsing, the
  result type of fallible operations, and keyed tables (the rows of one SQL table as a
  list, addressed by a key function) with the lemmas the storage proofs rest on.
\<close>

section \<open>Machine types\<close>

text \<open>
  A Rust \<open>Vec<u8>\<close> or \<open>&[u8]\<close> is a list of 8-bit words. A Rust \<open>String\<close> is the
  list of its UTF-8 bytes, held as an Isabelle \<open>string\<close> (an Isabelle \<open>char\<close> is one
  byte), so that \<open>length\<close> is Rust's \<open>len()\<close>. An \<open>i64\<close> is an \<open>int\<close>; where an
  operation can leave the 64-bit range the wrap-around of a release build is written
  out with \<open>i64_wrap\<close>.
\<close>

type_synonym byte = "8 word"
type_synonym bytes = "byte list"
type_synonym str = string
type_synonym u16 = "16 word"
type_synonym u32 = "32 word"
type_synonym u64 = "64 word"

definition i64_min :: int where "i64_min = - (2 ^ 63)"
definition i64_max :: int where "i64_max = 2 ^ 63 - 1"

definition in_i64 :: "int \<Rightarrow> bool" where
  "in_i64 x \<longleftrightarrow> i64_min \<le> x \<and> x \<le> i64_max"

definition i64_wrap :: "int \<Rightarrow> int" where
  "i64_wrap x = (x + 2 ^ 63) mod 2 ^ 64 - 2 ^ 63"

definition i64_abs :: "int \<Rightarrow> int" where
  "i64_abs x = i64_wrap \<bar>x\<bar>"

definition as_bytes :: "str \<Rightarrow> bytes" where
  "as_bytes s = map of_char s"

text \<open>\<open>u8 as char\<close> for an ASCII byte.\<close>

definition byte_char :: "byte \<Rightarrow> char" where
  "byte_char b = char_of (unat b)"

definition be_bytes64 :: "int \<Rightarrow> bytes" where
  "be_bytes64 x = map (\<lambda>i. word_of_int (x div 2 ^ (8 * (7 - i)))) [0..<8]"

section \<open>Results\<close>

text \<open>Failures of the storage layer and of the file system; a Rust \<open>Err\<close> is \<open>Inl\<close>.\<close>

datatype fault = Constraint | Integer_overflow | Pool_exhausted | Io_error | Other_fault str

type_synonym 'a res = "fault + 'a"

section \<open>Integer parsing of the standard library\<close>

text \<open>
  \<open>str::parse\<close> for the signed and unsigned integer types: an optional sign (\<open>-\<close> only
  for signed types), at least one decimal digit, and the range of the type.
\<close>

definition is_digit :: "char \<Rightarrow> bool" where
  "is_digit c \<longleftrightarrow> CHR ''0'' \<le> c \<and> c \<le> CHR ''9''"

fun digits_val :: "nat \<Rightarrow> str \<Rightarrow> nat" where
  "digits_val acc [] = acc"
| "digits_val acc (c # cs) = digits_val (10 * acc + (of_char c - 48)) cs"

definition parse_digits :: "str \<Rightarrow> nat option" where
  "parse_digits s = (if s \<noteq> [] \<and> list_all is_digit s then Some (digits_val 0 s) else None)"

definition parse_int :: "bool \<Rightarrow> int \<Rightarrow> int \<Rightarrow> str \<Rightarrow> int option" where
  "parse_int sgnd lo hi s =
     (let v = (case s of
                 [] \<Rightarrow> None
               | c # cs \<Rightarrow>
                   (if c = CHR ''+'' then map_option int (parse_digits cs)
                    else if c = CHR ''-'' \<and> sgnd then map_option (\<lambda>n. - int n) (parse_digits cs)
                    else map_option int (parse_digits s)))
      in case v of None \<Rightarrow> None | Some x \<Rightarrow> (if lo \<le> x \<and> x \<le> hi then Some x else None))"

definition parse_i64 :: "str \<Rightarrow> int option" where
  "parse_i64 = parse_int True i64_min i64_max"

definition parse_u16 :: "str \<Rightarrow> u16 option" where
  "parse_u16 s = map_option word_of_int (parse_int False 0 65535 s)"

definition parse_u32 :: "str \<Rightarrow> u32 option" where
  "parse_u32 s = map_option word_of_int (parse_int False 0 4294967295 s)"

definition parse_bool :: "str \<Rightarrow> bool option" where
  "parse_bool s = (if s = ''true'' then Some True else if s = ''false'' then Some False else None)"

section \<open>Splitting text\<close>

text \<open>\<open>str::split\<close> at a character, and \<open>str::split_once\<close>.\<close>

fun split_at :: "char \<Rightarrow> str \<Rightarrow> str list" where
  "split_at sep [] = [[]]"
| "split_at sep (c # cs) =
     (if c = sep then [] # split_at sep cs
      else case split_at sep cs of [] \<Rightarrow> [[c]] | w # ws \<Rightarrow> (c # w) # ws)"

definition split_once :: "char \<Rightarrow> str \<Rightarrow> (str \<times> str) option" where
  "split_once sep s =
     (if sep \<in> set s then Some (takeWhile (\<lambda>c. c \<noteq> sep) s, tl (dropWhile (\<lambda>c. c \<noteq> sep) s)) else None)"

text \<open>
  \<open>str::trim\<close>: the characters of Unicode's \<open>White_Space\<close>, as their UTF-8 bytes, are removed
  at both ends.
\<close>

definition whitespace :: "str list" where
  "whitespace =
     [[CHR 0x09], [CHR 0x0A], [CHR 0x0B], [CHR 0x0C], [CHR 0x0D], [CHR 0x20],
      [CHR 0xC2, CHR 0x85], [CHR 0xC2, CHR 0xA0], [CHR 0xE1, CHR 0x9A, CHR 0x80],
      [CHR 0xE2, CHR 0x80, CHR 0x80], [CHR 0xE2, CHR 0x80, CHR 0x81],
      [CHR 0xE2, CHR 0x80, CHR 0x82], [CHR 0xE2, CHR 0x80, CHR 0x83],
      [CHR 0xE2, CHR 0x80, CHR 0x84], [CHR 0xE2, CHR 0x80, CHR 0x85],
      [CHR 0xE2, CHR 0x80, CHR 0x86], [CHR 0xE2, CHR 0x80, CHR 0x87],
      [CHR 0xE2, CHR 0x80, CHR 0x88], [CHR 0xE2, CHR 0x80, CHR 0x89],
      [CHR 0xE2, CHR 0x80, CHR 0x8A], [CHR 0xE2, CHR 0x80, CHR 0xA8],
      [CHR 0xE2, CHR 0x80, CHR 0xA9], [CHR 0xE2, CHR 0x80, CHR 0xAF],
      [CHR 0xE2, CHR 0x81, CHR 0x9F], [CHR 0xE3, CHR 0x80, CHR 0x80]]"

definition strip_one :: "str list \<Rightarrow> str \<Rightarrow> str option" where
  "strip_one ws s = map_option (\<lambda>w. drop (length w) s) (find (\<lambda>w. w \<noteq> [] \<and> take (length w) s = w) ws)"

lemma strip_one_shorter: "strip_one ws s = Some t \<Longrightarrow> length t < length s"
  by (auto simp: strip_one_def find_Some_iff) (metis diff_less length_greater_0_conv take_eq_Nil)

function trim_start :: "str list \<Rightarrow> str \<Rightarrow> str" where
  "trim_start ws s = (case strip_one ws s of None \<Rightarrow> s | Some t \<Rightarrow> trim_start ws t)"
  by pat_completeness auto

termination by (relation "measure (\<lambda>(_, s). length s)") (auto dest: strip_one_shorter)

declare trim_start.simps [simp del]

definition trim :: "str \<Rightarrow> str" where
  "trim s = rev (trim_start (map rev whitespace) (rev (trim_start whitespace s)))"

lemma split_at_word: "sep \<notin> set a \<Longrightarrow> split_at sep a = [a]"
  by (induction a) auto

lemma split_at_append: "sep \<notin> set a \<Longrightarrow> split_at sep (a @ sep # s) = a # split_at sep s"
  by (induction a) auto

section \<open>Keyed tables\<close>

text \<open>
  The rows of an SQL table in row-id order. A primary key is a function of the row;
  \<open>tbl_keys\<close> states that it is unique. \<open>INSERT\<close> fails on a duplicate key,
  \<open>INSERT OR IGNORE\<close> keeps the old row, \<open>ON CONFLICT DO UPDATE\<close> replaces it in
  place.
\<close>

definition tbl_find :: "('r \<Rightarrow> 'k) \<Rightarrow> 'k \<Rightarrow> 'r list \<Rightarrow> 'r option" where
  "tbl_find key k t = find (\<lambda>r. key r = k) t"

definition tbl_insert :: "('r \<Rightarrow> 'k) \<Rightarrow> 'r \<Rightarrow> 'r list \<Rightarrow> 'r list res" where
  "tbl_insert key r t = (if tbl_find key (key r) t = None then Inr (t @ [r]) else Inl Constraint)"

definition tbl_insert_ignore :: "('r \<Rightarrow> 'k) \<Rightarrow> 'r \<Rightarrow> 'r list \<Rightarrow> 'r list \<times> nat" where
  "tbl_insert_ignore key r t =
     (if tbl_find key (key r) t = None then (t @ [r], 1) else (t, 0))"

definition tbl_upsert :: "('r \<Rightarrow> 'k) \<Rightarrow> 'r \<Rightarrow> 'r list \<Rightarrow> 'r list" where
  "tbl_upsert key r t =
     (if tbl_find key (key r) t = None then t @ [r]
      else map (\<lambda>x. if key x = key r then r else x) t)"

definition tbl_delete :: "('r \<Rightarrow> 'k) \<Rightarrow> 'k \<Rightarrow> 'r list \<Rightarrow> 'r list \<times> nat" where
  "tbl_delete key k t =
     (filter (\<lambda>r. key r \<noteq> k) t, length (filter (\<lambda>r. key r = k) t))"

definition tbl_keys :: "('r \<Rightarrow> 'k) \<Rightarrow> 'r list \<Rightarrow> bool" where
  "tbl_keys key t \<longleftrightarrow> distinct (map key t)"

definition tbl_sum :: "('r \<Rightarrow> int) \<Rightarrow> 'r list \<Rightarrow> int" where
  "tbl_sum f t = sum_list (map f t)"

text \<open>\<open>COALESCE(SUM(column), 0)\<close>: SQLite reports an error when the sum leaves the range.\<close>

definition sql_sum :: "('r \<Rightarrow> int) \<Rightarrow> 'r list \<Rightarrow> int res" where
  "sql_sum f t = (if in_i64 (tbl_sum f t) then Inr (tbl_sum f t) else Inl Integer_overflow)"

text \<open>\<open>LIMIT n\<close>: a negative limit is no limit.\<close>

definition sql_limit :: "int \<Rightarrow> 'a list \<Rightarrow> 'a list" where
  "sql_limit n xs = (if n < 0 then xs else take (nat n) xs)"

section \<open>Lemmas\<close>

named_theorems tbl "facts about keyed tables"

lemma of_char_byte_eq_iff [simp]: "(of_char c :: byte) = of_char d \<longleftrightarrow> c = d"
proof
  assume h: "(of_char c :: byte) = of_char d"
  have e: "unat (of_char x :: byte) = of_char x" for x :: char
  proof -
    have "(of_char x :: byte) = word_of_nat (of_char x)" by (simp add: of_nat_of_char)
    moreover have "(of_char x :: nat) < 2 ^ LENGTH(8)"
      using nat_of_char_less_256 [of x] by simp
    ultimately show ?thesis by (simp add: unat_of_nat)
  qed
  from h have "(of_char c :: nat) = of_char d" by (metis e)
  then show "c = d" by simp
qed simp

lemma as_bytes_inj: "as_bytes s = as_bytes t \<longleftrightarrow> s = t"
  by (auto simp: as_bytes_def inj_map_eq_map inj_def)

lemma length_as_bytes [simp]: "length (as_bytes s) = length s"
  by (simp add: as_bytes_def)

lemma as_bytes_append: "as_bytes (s @ t) = as_bytes s @ as_bytes t"
  by (simp add: as_bytes_def)

lemma of_char_byte_char [simp]: "of_char (byte_char b) = b"
proof -
  have "unat b < 256" using unsigned_less [of b] by simp
  then have "of_char (byte_char b) = unat b" by (simp add: byte_char_def)
  then have "(of_nat (of_char (byte_char b)) :: byte) = of_nat (unat b)" by simp
  then show ?thesis by (simp only: of_nat_of_char) simp
qed

lemma byte_char_of_char [simp]: "byte_char (of_char c) = c"
  using of_char_byte_char [of "of_char c"] by (simp del: of_char_byte_char)

lemma i64_wrap_id: "in_i64 x \<Longrightarrow> i64_wrap x = x"
  by (auto simp: in_i64_def i64_wrap_def i64_min_def i64_max_def)

lemma i64_wrap_high:
  assumes "2 ^ 63 \<le> x" "x < 2 ^ 63 + 2 ^ 64"
  shows "i64_wrap x = x - 2 ^ 64"
proof -
  have "(x + 2 ^ 63) mod 2 ^ 64 = (x - 2 ^ 63 + 2 ^ 64) mod (2 ^ 64 :: int)" by (simp add: add.commute)
  also have "\<dots> = (x - 2 ^ 63) mod 2 ^ 64" by (rule mod_add_self2)
  also have "\<dots> = x - 2 ^ 63" using assms by (intro mod_pos_pos_trivial) auto
  finally show ?thesis by (simp add: i64_wrap_def)
qed

lemma i64_wrap_range: "in_i64 (i64_wrap x)"
  by (auto simp: in_i64_def i64_wrap_def i64_min_def i64_max_def)

lemma length_be_bytes64 [simp]: "length (be_bytes64 x) = 8"
  by (simp add: be_bytes64_def)

lemma tbl_find_None [tbl]: "tbl_find key k t = None \<longleftrightarrow> k \<notin> key ` set t"
  by (auto simp: tbl_find_def find_None_iff)

lemma tbl_find_Some [tbl]:
  "tbl_keys key t \<Longrightarrow> tbl_find key k t = Some r \<longleftrightarrow> r \<in> set t \<and> key r = k"
proof (induction t)
  case (Cons x t)
  then show ?case by (auto simp: tbl_find_def tbl_keys_def image_iff)
qed (simp add: tbl_find_def)

lemma tbl_find_SomeD: "tbl_find key k t = Some r \<Longrightarrow> r \<in> set t \<and> key r = k"
  by (induction t) (auto simp: tbl_find_def split: if_splits)

lemma tbl_find_append:
  "tbl_find key k (t @ u) = (case tbl_find key k t of None \<Rightarrow> tbl_find key k u | Some r \<Rightarrow> Some r)"
  by (induction t) (auto simp: tbl_find_def)

lemma tbl_keys_filter [tbl, intro]: "tbl_keys key t \<Longrightarrow> tbl_keys key (filter P t)"
  by (simp add: tbl_keys_def distinct_map_filter)

lemma tbl_keys_append_fresh [tbl]:
  "tbl_keys key t \<Longrightarrow> tbl_find key (key r) t = None \<Longrightarrow> tbl_keys key (t @ [r])"
  by (auto simp: tbl_keys_def tbl_find_None)

lemma tbl_keys_insert_ignore [tbl, intro]:
  "tbl_keys key t \<Longrightarrow> tbl_keys key (fst (tbl_insert_ignore key r t))"
  by (simp add: tbl_insert_ignore_def tbl_keys_append_fresh)

lemma map_key_upsert:
  "map key (map (\<lambda>x. if key x = key r then r else x) t) = map key t"
  by (induction t) auto

lemma tbl_keys_upsert [tbl, intro]: "tbl_keys key t \<Longrightarrow> tbl_keys key (tbl_upsert key r t)"
  unfolding tbl_upsert_def
  by (auto simp: tbl_keys_append_fresh) (simp add: tbl_keys_def map_key_upsert del: map_map)

lemma tbl_keys_delete [tbl, intro]: "tbl_keys key t \<Longrightarrow> tbl_keys key (fst (tbl_delete key k t))"
  by (auto simp: tbl_delete_def)

lemma tbl_find_upsert [tbl]:
  "tbl_find key k (tbl_upsert key r t) = (if k = key r then Some r else tbl_find key k t)"
proof (cases "tbl_find key (key r) t")
  case None
  then show ?thesis
    by (auto simp: tbl_upsert_def tbl_find_append split: option.splits) (auto simp: tbl_find_def)
next
  case (Some x)
  then have "tbl_upsert key r t = map (\<lambda>x. if key x = key r then r else x) t"
    by (simp add: tbl_upsert_def)
  moreover have "tbl_find key k (map (\<lambda>x. if key x = key r then r else x) t) =
      (if k = key r then (if key r \<in> key ` set t then Some r else None) else tbl_find key k t)"
    by (induction t) (auto simp: tbl_find_def)
  moreover have "key r \<in> key ` set t" using tbl_find_SomeD [OF Some] by (metis imageI)
  ultimately show ?thesis by simp
qed

lemma tbl_find_insert_ignore [tbl]:
  "tbl_find key k (fst (tbl_insert_ignore key r t)) =
     (case tbl_find key k t of Some x \<Rightarrow> Some x | None \<Rightarrow> if k = key r then Some r else None)"
  by (auto simp: tbl_insert_ignore_def tbl_find_append split: option.splits) (auto simp: tbl_find_def)

lemma tbl_find_delete [tbl]:
  "tbl_find key k (fst (tbl_delete key j t)) = (if k = j then None else tbl_find key k t)"
  by (induction t) (auto simp: tbl_delete_def tbl_find_def)

lemma tbl_find_filter [tbl]:
  "tbl_find key k (filter (\<lambda>r. Q (key r)) t) = (if Q k then tbl_find key k t else None)"
  by (induction t) (auto simp: tbl_find_def)

lemma sort_key_Nil_iff [simp]: "sort_key f xs = [] \<longleftrightarrow> xs = []"
  by (metis length_0_conv length_sort)

lemma length_filter_key:
  "tbl_keys key t \<Longrightarrow> length (filter (\<lambda>r. key r = k) t) = (if k \<in> key ` set t then 1 else 0)"
proof (induction t)
  case (Cons x t)
  then show ?case
    by (auto simp: tbl_keys_def filter_empty_conv)
qed simp

lemma tbl_sum_Nil [simp]: "tbl_sum f [] = 0"
  and tbl_sum_Cons [simp]: "tbl_sum f (r # t) = f r + tbl_sum f t"
  and tbl_sum_append [simp]: "tbl_sum f (t @ u) = tbl_sum f t + tbl_sum f u"
  by (simp_all add: tbl_sum_def)

lemma tbl_sum_nonneg: "(\<And>r. r \<in> set t \<Longrightarrow> 0 \<le> f r) \<Longrightarrow> 0 \<le> tbl_sum f t"
  by (induction t) force+

lemma tbl_sum_filter_le:
  "(\<And>r. r \<in> set t \<Longrightarrow> 0 \<le> f r) \<Longrightarrow> tbl_sum f (filter P t) \<le> tbl_sum f t"
  by (induction t) force+

lemma sum_update_found:
  assumes "distinct (map key t)" and "x \<in> set t" and "key x = key r"
  shows "tbl_sum f (map (\<lambda>y. if key y = key r then r else y) t) = tbl_sum f t - f x + f r"
  using assms
proof (induction t)
  case (Cons a t)
  show ?case
  proof (cases "a = x")
    case True
    with Cons.prems have "\<forall>y \<in> set t. key y \<noteq> key r" by (auto simp: image_iff)
    then have "map (\<lambda>y. if key y = key r then r else y) t = t" by (simp add: map_idI)
    with True Cons.prems show ?thesis by simp
  next
    case False
    with Cons.prems have "x \<in> set t" and "key a \<noteq> key r" by (auto simp: image_iff)
    with Cons show ?thesis by simp
  qed
qed simp

lemma tbl_sum_upsert:
  assumes "tbl_keys key t"
  shows "tbl_sum f (tbl_upsert key r t) =
    tbl_sum f t + f r - (case tbl_find key (key r) t of None \<Rightarrow> 0 | Some x \<Rightarrow> f x)"
proof (cases "tbl_find key (key r) t")
  case (Some x)
  with assms show ?thesis
    using tbl_find_SomeD [OF Some] sum_update_found [of key t x r f]
    by (simp add: tbl_upsert_def tbl_keys_def)
qed (simp add: tbl_upsert_def)

end
