(* ===== verification/Base32.thy ===== *)
theory Base32
  imports Prelude
begin

text \<open>
  Crockford base32 (\<open>starling-wire/src/base32.rs\<close>): the bit buffer of the encoder and the
  decoder is the code's 32-bit word, whose upper bits wrap away. The proofs read the live
  bits of a buffer as a list, most significant first, and show that both loops move that
  list without losing a bit.
\<close>

section \<open>Definitions\<close>

definition ALPHABET :: bytes where
  "ALPHABET = as_bytes ''0123456789abcdefghjkmnpqrstvwxyz''"

text \<open>The inner \<open>while bits >= 5\<close> loop of the encoder.\<close>

fun encode_drain :: "u32 \<Rightarrow> nat \<Rightarrow> str \<Rightarrow> nat \<times> str" where
  "encode_drain buffer bits out =
     (if 5 \<le> bits then
        encode_drain buffer (bits - 5)
          (out @ [byte_char (ALPHABET ! unat (drop_bit (bits - 5) buffer AND 0x1f))])
      else (bits, out))"

declare encode_drain.simps [simp del]

fun encode_loop :: "bytes \<Rightarrow> u32 \<Rightarrow> nat \<Rightarrow> str \<Rightarrow> u32 \<times> nat \<times> str" where
  "encode_loop [] buffer bits out = (buffer, bits, out)"
| "encode_loop (b # bs) buffer bits out =
     (let buffer' = push_bit 8 buffer OR ucast b;
          (bits', out') = encode_drain buffer' (bits + 8) out
      in encode_loop bs buffer' bits' out')"

definition crockford_base32_encode :: "bytes \<Rightarrow> str" where
  "crockford_base32_encode bs =
     (if bs = [] then []
      else let (buffer, bits, out) = encode_loop bs 0 0 []
           in if 0 < bits
              then out @ [byte_char (ALPHABET ! unat (push_bit (5 - bits) buffer AND 0x1f))]
              else out)"

fun position :: "('a \<Rightarrow> bool) \<Rightarrow> 'a list \<Rightarrow> nat option" where
  "position P [] = None"
| "position P (x # xs) = (if P x then Some 0 else map_option Suc (position P xs))"

definition char_value :: "byte \<Rightarrow> byte option" where
  "char_value code_unit =
     (let c = (if 0x41 \<le> code_unit \<and> code_unit \<le> 0x5a then code_unit + 0x20 else code_unit);
          c = (if c = 0x69 \<or> c = 0x6c then 0x31 else c);
          c = (if c = 0x6f then 0x30 else c)
      in if 0x30 \<le> c \<and> c \<le> 0x39 then Some (c - 0x30)
         else if 0x61 \<le> c \<and> c \<le> 0x7a
         then map_option word_of_nat (position (\<lambda>a. a = c) ALPHABET)
         else None)"

fun decode_loop :: "bytes \<Rightarrow> u32 \<Rightarrow> nat \<Rightarrow> bytes \<Rightarrow> bytes option" where
  "decode_loop [] buffer bits out = Some out"
| "decode_loop (c # cs) buffer bits out =
     (case char_value c of
        None \<Rightarrow> None
      | Some value \<Rightarrow>
          (let buffer' = push_bit 5 buffer OR ucast value;
               bits' = bits + 5
           in if 8 \<le> bits'
              then decode_loop cs buffer' (bits' - 8)
                     (out @ [ucast (drop_bit (bits' - 8) buffer' AND 0xff)])
              else decode_loop cs buffer' bits' out))"

definition crockford_base32_decode :: "str \<Rightarrow> bytes option" where
  "crockford_base32_decode encoded =
     (if encoded = [] then Some [] else decode_loop (as_bytes encoded) 0 0 [])"

section \<open>Bit lists\<close>

text \<open>The \<open>k\<close> low bits of a word, most significant first.\<close>

definition lowbits :: "nat \<Rightarrow> 'a::len word \<Rightarrow> bool list" where
  "lowbits k w = map (bit w) (rev [0..<k])"

definition bits_of :: "nat \<Rightarrow> 'a::len word list \<Rightarrow> bool list" where
  "bits_of k ws = concat (map (lowbits k) ws)"

lemma length_lowbits [simp]: "length (lowbits k w) = k"
  by (simp add: lowbits_def)

lemma lowbits_nth: "i < k \<Longrightarrow> lowbits k w ! i = bit w (k - 1 - i)"
  by (simp add: lowbits_def rev_nth)

lemma bits_of_simps [simp]:
  "bits_of k [] = []"
  "bits_of k (w # ws) = lowbits k w @ bits_of k ws"
  "bits_of k (us @ ws) = bits_of k us @ bits_of k ws"
  by (simp_all add: bits_of_def)

lemma length_bits_of [simp]: "length (bits_of k ws) = k * length ws"
  by (induction ws) auto

lemma lowbits_0 [simp]: "lowbits 0 w = []"
  by (simp add: lowbits_def)

lemma lowbits_shift_or:
  fixes w v :: "'a::len word"
  assumes "k + n \<le> LENGTH('a)" and "\<And>i. n \<le> i \<Longrightarrow> \<not> bit v i"
  shows "lowbits (k + n) (push_bit n w OR v) = lowbits k w @ lowbits n v"
proof (rule nth_equalityI)
  fix i assume "i < length (lowbits (k + n) (push_bit n w OR v))"
  then have i: "i < k + n" by simp
  show "lowbits (k + n) (push_bit n w OR v) ! i = (lowbits k w @ lowbits n v) ! i"
  proof (cases "i < k")
    case True
    then have "k + n - 1 - i - n = k - 1 - i" "n \<le> k + n - 1 - i" "k + n - 1 - i < LENGTH('a)"
      using assms(1) by auto
    with True assms show ?thesis
      by (simp add: nth_append lowbits_nth bit_simps)
  next
    case False
    with i have "k + n - 1 - i = n - 1 - (i - k)" "\<not> n \<le> k + n - 1 - i" by auto
    with False i show ?thesis
      by (simp add: nth_append lowbits_nth bit_simps)
  qed
qed simp

lemma lowbits_split: "lowbits (m + n) w = lowbits n (drop_bit m w) @ lowbits m w"
proof (rule nth_equalityI)
  fix i assume "i < length (lowbits (m + n) w)"
  then have i: "i < m + n" by simp
  show "lowbits (m + n) w ! i = (lowbits n (drop_bit m w) @ lowbits m w) ! i"
  proof (cases "i < n")
    case True
    then have "m + n - 1 - i = m + (n - 1 - i)" by auto
    with True show ?thesis by (simp add: nth_append lowbits_nth bit_simps)
  next
    case False
    with i have "m + n - 1 - i = m - 1 - (i - n)" by auto
    with False i show ?thesis by (simp add: nth_append lowbits_nth)
  qed
qed simp

lemma lowbits_cong: "(\<And>i. i < k \<Longrightarrow> bit v i = bit w i) \<Longrightarrow> lowbits k v = lowbits k w"
  by (simp add: lowbits_def)

lemma lowbits_and_mask: "lowbits k (w AND mask k) = lowbits k w"
  by (rule lowbits_cong) (auto simp: bit_simps dest: bit_imp_le_length)

lemma lowbits_and_1f: "lowbits 5 ((w::u32) AND 0x1f) = lowbits 5 w"
  using lowbits_and_mask [of 5 w] by (simp add: mask_numeral)

lemma lowbits_and_ff: "lowbits 8 ((w::u32) AND 0xff) = lowbits 8 w"
  using lowbits_and_mask [of 8 w] by (simp add: mask_numeral)

lemma lowbits_ucast_byte: "k \<le> 8 \<Longrightarrow> lowbits k (ucast (b::byte) :: u32) = lowbits k b"
  by (rule lowbits_cong) (simp add: bit_simps)

lemma lowbits_ucast_u32: "k \<le> 8 \<Longrightarrow> lowbits k (ucast (w::u32) :: byte) = lowbits k w"
  by (rule lowbits_cong) (simp add: bit_simps)

lemma lowbits_byte_inj: "lowbits 8 (v::byte) = lowbits 8 w \<Longrightarrow> v = w"
  by (rule bit_word_eqI) (auto simp: lowbits_def)

lemma bits_of_byte_inj: "bits_of 8 (us::bytes) = bits_of 8 ws \<Longrightarrow> length us = length ws \<Longrightarrow> us = ws"
proof (induction us arbitrary: ws)
  case (Cons u us)
  then obtain w ws' where "ws = w # ws'" by (cases ws) auto
  with Cons show ?case by (auto simp: append_eq_append_conv dest: lowbits_byte_inj)
qed simp


section \<open>The loops move the bits\<close>

text \<open>The character the encoder writes for a 5-bit value.\<close>

abbreviation sym :: "u32 \<Rightarrow> char" where
  "sym v \<equiv> byte_char (ALPHABET ! unat v)"

lemma and_1f_lt: "(w::u32) AND 0x1f < 32"
  using word_and_le1 [of w "0x1f"] by (simp add: word_le_nat_alt word_less_nat_alt)

lemma encode_drain_spec:
  "\<exists>vs bits'. encode_drain buffer bits out = (bits', out @ map sym vs) \<and> bits' < 5 \<and>
     bits_of 5 vs @ lowbits bits' buffer = lowbits bits buffer \<and> (\<forall>v \<in> set vs. v < 32)"
proof (induction bits arbitrary: out rule: less_induct)
  case (less bits)
  show ?case
  proof (cases "5 \<le> bits")
    case True
    let ?v = "drop_bit (bits - 5) buffer AND 0x1f"
    from less [of "bits - 5" "out @ [sym ?v]"] True obtain vs bits' where
      r: "encode_drain buffer (bits - 5) (out @ [sym ?v]) = (bits', (out @ [sym ?v]) @ map sym vs)"
         "bits' < 5" "bits_of 5 vs @ lowbits bits' buffer = lowbits (bits - 5) buffer"
         "\<forall>v \<in> set vs. v < 32"
      by auto
    have "lowbits bits buffer = lowbits 5 ?v @ lowbits (bits - 5) buffer"
      using lowbits_split [of "bits - 5" 5 buffer] True by (simp add: lowbits_and_1f)
    with r True show ?thesis
      by (intro exI [of _ "?v # vs"] exI [of _ bits'])
        (subst encode_drain.simps, simp add: and_1f_lt)
  next
    case False
    then show ?thesis
      by (intro exI [of _ "[]"] exI [of _ bits]) (subst encode_drain.simps, simp)
  qed
qed

lemma encode_loop_spec:
  "bits < 5 \<Longrightarrow>
   \<exists>vs buffer' bits'. encode_loop bs buffer bits out = (buffer', bits', out @ map sym vs) \<and>
     bits' < 5 \<and> bits_of 5 vs @ lowbits bits' buffer' = lowbits bits buffer @ bits_of 8 bs \<and>
     (\<forall>v \<in> set vs. v < 32)"
proof (induction bs arbitrary: buffer bits out)
  case Nil
  then show ?case by (intro exI [of _ "[]"]) auto
next
  case (Cons b bs)
  let ?buf = "push_bit 8 buffer OR ucast b :: u32"
  obtain vs1 bits1 where
    d: "encode_drain ?buf (bits + 8) out = (bits1, out @ map sym vs1)" "bits1 < 5"
       "bits_of 5 vs1 @ lowbits bits1 ?buf = lowbits (bits + 8) ?buf" "\<forall>v \<in> set vs1. v < 32"
    using encode_drain_spec [of ?buf "bits + 8" out] by blast
  obtain vs2 buffer' bits' where
    l: "encode_loop bs ?buf bits1 (out @ map sym vs1) =
          (buffer', bits', (out @ map sym vs1) @ map sym vs2)" "bits' < 5"
       "bits_of 5 vs2 @ lowbits bits' buffer' = lowbits bits1 ?buf @ bits_of 8 bs"
       "\<forall>v \<in> set vs2. v < 32"
    using Cons.IH [OF d(2)] by blast
  have "lowbits (bits + 8) ?buf = lowbits bits buffer @ lowbits 8 b"
    using Cons.prems
    by (subst lowbits_shift_or) (auto simp: lowbits_ucast_byte bit_simps dest: bit_imp_le_length)
  moreover have "bits_of 5 (vs1 @ vs2) @ lowbits bits' buffer' =
      bits_of 5 vs1 @ lowbits bits1 ?buf @ bits_of 8 bs"
    using l(3) by simp
  ultimately have "bits_of 5 (vs1 @ vs2) @ lowbits bits' buffer' =
      lowbits bits buffer @ bits_of 8 (b # bs)"
    using d(3) by (metis append.assoc bits_of_simps(2))
  with d l show ?case
    by (intro exI [of _ "vs1 @ vs2"] exI [of _ buffer'] exI [of _ bits']) auto
qed

lemma lowbits_pad:
  assumes "b \<le> 5"
  shows "lowbits 5 ((push_bit (5 - b) (w::u32)) AND 0x1f) = lowbits b w @ replicate (5 - b) False"
proof -
  have "lowbits (b + (5 - b)) (push_bit (5 - b) w OR 0) = lowbits b w @ lowbits (5 - b) (0::u32)"
    using assms by (intro lowbits_shift_or) auto
  moreover have "lowbits n (0::u32) = replicate n False" for n
    by (intro nth_equalityI) (simp_all add: lowbits_nth)
  ultimately show ?thesis using assms by (simp add: lowbits_and_1f)
qed

lemma encode_spec:
  "\<exists>vs p. crockford_base32_encode bs = map sym vs \<and> p < 5 \<and>
     bits_of 5 vs = bits_of 8 bs @ replicate p False \<and> (\<forall>v \<in> set vs. v < 32)"
proof (cases "bs = []")
  case True
  then show ?thesis by (intro exI [of _ "[]"] exI [of _ 0]) (simp add: crockford_base32_encode_def)
next
  case False
  obtain vs buffer bits where
    l: "encode_loop bs 0 0 [] = (buffer, bits, map sym vs)" "bits < 5"
       "bits_of 5 vs @ lowbits bits buffer = bits_of 8 bs" "\<forall>v \<in> set vs. v < 32"
    using encode_loop_spec [of 0 bs 0 "[]"] by auto
  show ?thesis
  proof (cases "bits = 0")
    case True
    with False l show ?thesis
      by (intro exI [of _ vs] exI [of _ 0]) (simp add: crockford_base32_encode_def)
  next
    case nz: False
    let ?v = "push_bit (5 - bits) buffer AND 0x1f"
    have "bits_of 5 (vs @ [?v]) = bits_of 8 bs @ replicate (5 - bits) False"
      using l(2,3) lowbits_pad [of bits buffer] by (simp add: append.assoc [symmetric])
    with False nz l show ?thesis
      by (intro exI [of _ "vs @ [?v]"] exI [of _ "5 - bits"])
        (simp add: crockford_base32_encode_def and_1f_lt)
  qed
qed

lemma position_Some_lt: "position P xs = Some i \<Longrightarrow> i < length xs"
  by (induction xs arbitrary: i) (auto split: if_splits)

lemma char_value_lt: "char_value c = Some v \<Longrightarrow> v < 32"
proof -
  assume h: "char_value c = Some v"
  have a: "length ALPHABET = 32" by (simp add: ALPHABET_def)
  have "word_of_nat i < (32 :: byte)" if "position P ALPHABET = Some i" for P i
    using position_Some_lt [OF that] a by (simp add: word_less_nat_alt unat_of_nat)
  moreover have "x - 0x30 < 32" if "(0x30::byte) \<le> x" "x \<le> 0x39" for x
    using that by unat_arith
  moreover have "\<not> ((0x41::byte) \<le> c \<and> c \<le> 0x5a \<and> c + 0x20 \<le> 0x39)"
    by (unat_arith; simp)
  ultimately show ?thesis
    using h by (auto simp: char_value_def Let_def split: if_splits)
qed

lemma decode_loop_spec:
  "list_all2 (\<lambda>c v. char_value c = Some v) cs vs \<Longrightarrow> bits < 8 \<Longrightarrow>
   \<exists>os rest. decode_loop cs buffer bits out = Some (out @ os) \<and> length rest < 8 \<and>
     bits_of 8 os @ rest = lowbits bits buffer @ bits_of 5 vs"
proof (induction cs arbitrary: vs buffer bits out)
  case Nil
  then show ?case by (intro exI [of _ "[]"] exI [of _ "lowbits bits buffer"]) simp
next
  case (Cons c cs)
  then obtain v vs' where vs: "vs = v # vs'" and cv: "char_value c = Some v"
    and rest: "list_all2 (\<lambda>c v. char_value c = Some v) cs vs'"
    by (auto simp: list_all2_Cons1)
  let ?buf = "push_bit 5 buffer OR ucast v :: u32"
  have "\<not> bit (ucast v :: u32) i" if "5 \<le> i" for i
  proof -
    have "unat v < 2 ^ 5" using char_value_lt [OF cv] by (simp add: word_less_nat_alt)
    then have "v = take_bit 5 v"
      by (intro word_unat_eq_iff [THEN iffD2]) (simp add: unsigned_take_bit_eq take_bit_nat_eq_self)
    then have "\<not> bit v i" using that by (metis bit_take_bit_iff not_less)
    then show ?thesis by (simp add: bit_simps)
  qed
  then have buf: "lowbits (bits + 5) ?buf = lowbits bits buffer @ lowbits 5 v"
    using Cons.prems(2) by (subst lowbits_shift_or) (auto simp: lowbits_ucast_byte)
  show ?case
  proof (cases "8 \<le> bits + 5")
    case True
    let ?o = "ucast (drop_bit (bits + 5 - 8) ?buf AND 0xff) :: byte"
    obtain os r where d: "decode_loop cs ?buf (bits + 5 - 8) (out @ [?o]) = Some ((out @ [?o]) @ os)"
      "length r < 8" "bits_of 8 os @ r = lowbits (bits + 5 - 8) ?buf @ bits_of 5 vs'"
      using Cons.IH [OF rest, of "bits + 5 - 8" ?buf "out @ [?o]"] Cons.prems(2) by force
    have "lowbits (bits + 5) ?buf = lowbits 8 ?o @ lowbits (bits + 5 - 8) ?buf"
      using lowbits_split [of "bits + 5 - 8" 8 ?buf] True
      by (simp add: lowbits_ucast_u32 lowbits_and_ff add.commute)
    then have "bits_of 8 (?o # os) @ r = lowbits bits buffer @ bits_of 5 vs"
      using d(3) buf vs by simp
    with d True cv show ?thesis
      by (intro exI [of _ "?o # os"] exI [of _ r]) (simp add: Let_def)
  next
    case False
    obtain os r where d: "decode_loop cs ?buf (bits + 5) out = Some (out @ os)"
      "length r < 8" "bits_of 8 os @ r = lowbits (bits + 5) ?buf @ bits_of 5 vs'"
      using Cons.IH [OF rest, of "bits + 5" ?buf out] False by force
    with False cv buf vs show ?thesis
      by (intro exI [of _ os] exI [of _ r]) (simp add: Let_def)
  qed
qed

lemma decode_spec:
  assumes "list_all2 (\<lambda>c v. char_value (of_char c) = Some v) s vs"
  shows "\<exists>os rest. crockford_base32_decode s = Some os \<and> length rest < 8 \<and>
           bits_of 8 os @ rest = bits_of 5 vs"
proof (cases "s = []")
  case True
  with assms show ?thesis by (simp add: crockford_base32_decode_def)
next
  case False
  have "list_all2 (\<lambda>c v. char_value c = Some v) (as_bytes s) vs"
    using assms by (simp add: as_bytes_def list_all2_map1)
  from decode_loop_spec [OF this, of 0 0 "[]"] False show ?thesis
    by (simp add: crockford_base32_decode_def)
qed


section \<open>Alphabet facts\<close>

lemma ALPHABET_bytes:
  "ALPHABET = [0x30,0x31,0x32,0x33,0x34,0x35,0x36,0x37,0x38,0x39,0x61,0x62,0x63,0x64,0x65,0x66,
     0x67,0x68,0x6a,0x6b,0x6d,0x6e,0x70,0x71,0x72,0x73,0x74,0x76,0x77,0x78,0x79,0x7a]"
  by (simp add: ALPHABET_def as_bytes_def)

lemma ALPHABET_values: "map char_value ALPHABET = map (\<lambda>n. Some (word_of_nat n)) [0..<32]"
proof -
  have "[0..<32] = 0 # 1 # [2..<32]" by (simp add: upt_conv_Cons numeral_2_eq_2)
  then show ?thesis
    by (subst ALPHABET_bytes, simp only: list.map, simp add: ALPHABET_bytes char_value_def)
qed

lemma sym_value:
  assumes "v < (32 :: u32)"
  shows "char_value (of_char (sym v)) = Some (ucast v)"
proof -
  have v: "unat v < 32" using assms by (simp add: word_less_nat_alt)
  have "char_value (ALPHABET ! unat v) = map char_value ALPHABET ! unat v"
    using v by (simp add: ALPHABET_bytes del: list.map)
  also have "\<dots> = Some (word_of_nat (unat v))" using v by (simp add: ALPHABET_values)
  also have "word_of_nat (unat v) = (ucast v :: byte)" by simp
  finally show ?thesis by simp
qed

text \<open>The bytes a decoder accepts: ASCII digits, and ASCII letters other than \<open>u\<close> and \<open>U\<close>.\<close>

definition legal_symbol :: "byte \<Rightarrow> bool" where
  "legal_symbol b \<longleftrightarrow>
     (0x30 \<le> b \<and> b \<le> 0x39) \<or> (0x61 \<le> b \<and> b \<le> 0x7a \<and> b \<noteq> 0x75) \<or>
     (0x41 \<le> b \<and> b \<le> 0x5a \<and> b \<noteq> 0x55)"

text \<open>What a reader may write for a canonical symbol: either case, and the look-alikes.\<close>

definition canonical_symbol :: "byte \<Rightarrow> byte" where
  "canonical_symbol b =
     (if b \<in> {0x69, 0x49, 0x6c, 0x4c} then 0x31
      else if b \<in> {0x6f, 0x4f} then 0x30
      else if 0x41 \<le> b \<and> b \<le> 0x5a then b + 0x20
      else b)"

lemma position_None: "position (\<lambda>a. a = c) xs = None \<longleftrightarrow> c \<notin> set xs"
  by (induction xs) auto

lemma byte_interval: "(w :: byte) \<in> word_of_nat ` {m..<n} \<longleftrightarrow> m \<le> unat w \<and> unat w < n"
  if "n \<le> 256"
proof
  assume "w \<in> word_of_nat ` {m..<n}"
  then obtain k where "w = word_of_nat k" "m \<le> k" "k < n" by auto
  with that show "m \<le> unat w \<and> unat w < n" by (simp add: unat_of_nat)
next
  assume "m \<le> unat w \<and> unat w < n"
  then show "w \<in> word_of_nat ` {m..<n}" by (intro image_eqI [of _ _ "unat w"]) simp_all
qed

lemma ALPHABET_nat: "ALPHABET = map word_of_nat ([48..<58] @ [97..<105] @ [106..<108] @ [109..<111] @
          [112..<117] @ [118..<123])"
    by (simp add: ALPHABET_bytes)

lemma in_ALPHABET:
  "w \<in> set ALPHABET \<longleftrightarrow>
     (0x30 \<le> w \<and> w \<le> 0x39) \<or> (0x61 \<le> w \<and> w \<le> 0x7a \<and> w \<notin> {0x69, 0x6c, 0x6f, 0x75})"
  unfolding ALPHABET_nat set_map set_append image_Un Un_iff set_upt
  by (subst byte_interval, simp)+ (auto simp: word_le_nat_alt word_unat_eq_iff)

lemma add_20_le: "(0x41::byte) \<le> b \<Longrightarrow> b \<le> 0x5a \<Longrightarrow> unat (b + 0x20) = unat b + 32"
  by (subst unat_add_lem [THEN iffD1]) (simp_all add: word_le_nat_alt)

text \<open>The symbol a byte is read as, before the alphabet is consulted.\<close>

lemma char_value_read:
  "char_value b = (if 0x30 \<le> canonical_symbol b \<and> canonical_symbol b \<le> 0x39
     then Some (canonical_symbol b - 0x30)
     else if 0x61 \<le> canonical_symbol b \<and> canonical_symbol b \<le> 0x7a
     then map_option word_of_nat (position (\<lambda>a. a = canonical_symbol b) ALPHABET) else None)"
proof -
  let ?c = "if 0x41 \<le> b \<and> b \<le> 0x5a then b + 0x20 else b"
  let ?d = "if ?c = 0x69 \<or> ?c = 0x6c then 0x31 else ?c"
  have "canonical_symbol b = (if ?d = 0x6f then 0x30 else ?d)"
    by (auto simp: canonical_symbol_def)
  then show ?thesis
    unfolding char_value_def Let_def by (simp only:)
qed

lemma canonical_idem: "canonical_symbol (canonical_symbol b) = canonical_symbol b"
proof (cases "0x41 \<le> b \<and> b \<le> 0x5a")
  case True
  with add_20_le [of b] have "\<not> b + 0x20 \<le> 0x5a" by (simp add: word_le_nat_alt)
  then show ?thesis by (simp add: canonical_symbol_def)
qed (auto simp: canonical_symbol_def)

lemma char_value_canonical: "char_value (canonical_symbol b) = char_value b"
  by (simp add: char_value_read canonical_idem)

lemma canonical_legal:
  "legal_symbol b \<longleftrightarrow> canonical_symbol b \<in> set ALPHABET"
proof (cases "0x41 \<le> b \<and> b \<le> 0x5a")
  case True
  then have u: "unat (b + 0x20) = unat b + 32" "65 \<le> unat b" "unat b \<le> 90"
    using add_20_le [of b] by (simp_all add: word_le_nat_alt)
  then have "legal_symbol b \<longleftrightarrow> b \<noteq> 0x55"
    using True by (auto simp: legal_symbol_def word_le_nat_alt)
  moreover have "b + 0x20 \<in> set ALPHABET \<longleftrightarrow> b \<notin> {0x49, 0x4c, 0x4f, 0x55}"
    using u by (simp add: in_ALPHABET word_le_nat_alt)
  moreover have "canonical_symbol b = (if b \<in> {0x49, 0x4c} then 0x31 else if b = 0x4f then 0x30 else b + 0x20)"
    using True u by (auto simp: canonical_symbol_def)
  moreover have "0x30 \<in> set ALPHABET" "0x31 \<in> set ALPHABET" by (simp_all add: ALPHABET_bytes)
  ultimately show ?thesis by auto
next
  case False
  have "canonical_symbol b = (if b \<in> {0x69, 0x6c} then 0x31 else if b = 0x6f then 0x30 else b)"
    using False by (auto simp: canonical_symbol_def)
  moreover have "0x30 \<in> set ALPHABET" "0x31 \<in> set ALPHABET" by (simp_all add: ALPHABET_bytes)
  moreover have "legal_symbol b \<longleftrightarrow> b \<in> set ALPHABET \<or> b \<in> {0x69, 0x6c, 0x6f}"
    using False by (auto simp: legal_symbol_def in_ALPHABET)
  ultimately show ?thesis by auto
qed

lemma char_value_legal: "char_value b \<noteq> None \<longleftrightarrow> legal_symbol b"
proof -
  have "w \<in> set ALPHABET \<Longrightarrow> (0x30 \<le> w \<and> w \<le> 0x39) \<or> (0x61 \<le> w \<and> w \<le> 0x7a)" for w
    by (auto simp: in_ALPHABET)
  moreover have "0x30 \<le> w \<and> w \<le> 0x39 \<Longrightarrow> w \<in> set ALPHABET" for w
    by (auto simp: in_ALPHABET)
  ultimately show ?thesis
    using position_None [of "canonical_symbol b" ALPHABET]
    unfolding canonical_legal char_value_read by (auto split: if_splits)
qed

lemma decode_loop_None:
  "decode_loop cs buffer bits out = None \<longleftrightarrow> (\<exists>c \<in> set cs. char_value c = None)"
  by (induction cs arbitrary: buffer bits out) (auto simp: Let_def split: option.splits)

lemma decode_loop_cong:
  "map char_value cs = map char_value ds \<Longrightarrow>
   decode_loop cs buffer bits out = decode_loop ds buffer bits out"
proof (induction cs arbitrary: ds buffer bits out)
  case (Cons c cs)
  then obtain d ds' where "ds = d # ds'" by (cases ds) auto
  with Cons show ?case by (auto simp: Let_def split: option.splits)
qed simp

section \<open>Properties\<close>

text \<open>
  C31: Decoding what was encoded gives the bytes back, for every byte string of every
  length: the 32-bit buffer of both loops never drops a live bit, and the padding bits of
  the last symbol are never mistaken for data.
\<close>
theorem base32_roundtrip: "crockford_base32_decode (crockford_base32_encode bs) = Some bs"
proof -
  obtain vs p where e: "crockford_base32_encode bs = map sym vs" "p < 5"
    "bits_of 5 vs = bits_of 8 bs @ replicate p False" "\<forall>v \<in> set vs. v < 32"
    using encode_spec by blast
  have "list_all2 (\<lambda>c v. char_value (of_char c) = Some v) (map sym vs) (map ucast vs)"
    using e(4) sym_value by (auto simp: list_all2_conv_all_nth)
  from decode_spec [OF this] obtain os rest where
    d: "crockford_base32_decode (map sym vs) = Some os" "length rest < 8"
       "bits_of 8 os @ rest = bits_of 5 (map ucast vs :: bytes)"
    by blast
  have "bits_of 5 (map ucast vs :: bytes) = bits_of 5 vs"
    by (induction vs) (simp_all add: lowbits_ucast_u32)
  with d(3) e(3) have eq: "bits_of 8 os @ rest = bits_of 8 bs @ replicate p False" by simp
  then have "8 * length os + length rest = 8 * length bs + p"
    by (metis length_append length_bits_of length_replicate)
  with d(2) e(2) have "length os = length bs" by linarith
  with eq have "os = bs" by (auto simp: append_eq_append_conv intro: bits_of_byte_inj)
  with d(1) e(1) show ?thesis by simp
qed

text \<open>
  An encoding has exactly \<open>(8 n + 4) div 5\<close> characters, every one of them a lower-case
  symbol of the alphabet; the 32-byte keys and pairing tokens become 52 characters.
\<close>
theorem base32_encode_shape:
  "length (crockford_base32_encode bs) = (8 * length bs + 4) div 5 \<and>
   set (crockford_base32_encode bs) \<subseteq> set ''0123456789abcdefghjkmnpqrstvwxyz''"
proof -
  obtain vs p where e: "crockford_base32_encode bs = map sym vs" "p < 5"
    "bits_of 5 vs = bits_of 8 bs @ replicate p False" "\<forall>v \<in> set vs. v < 32"
    using encode_spec by blast
  have "5 * length vs = 8 * length bs + p" using arg_cong [OF e(3), of length] by simp
  then have "length vs = (8 * length bs + 4) div 5" using e(2) by linarith
  moreover have "sym v \<in> set ''0123456789abcdefghjkmnpqrstvwxyz''" if "v \<in> set vs" for v
  proof -
    have "unat v < 32" using e(4) that by (simp add: word_less_nat_alt)
    moreover have "length ''0123456789abcdefghjkmnpqrstvwxyz'' = 32" by simp
    ultimately have "unat v < length ''0123456789abcdefghjkmnpqrstvwxyz''" by presburger
    then show ?thesis
      unfolding ALPHABET_def as_bytes_def by (subst nth_map) (simp_all only: byte_char_of_char nth_mem)
  qed
  ultimately show ?thesis using e(1) by auto
qed

text \<open>
  The decoder fails exactly on a character outside digits and letters, or the letter
  \<open>u\<close> in either case; and it reads upper case and the look-alikes i, l, o as the
  canonical symbols they stand for.
\<close>
theorem base32_decode_accepts:
  "(crockford_base32_decode s = None \<longleftrightarrow> \<not> list_all legal_symbol (as_bytes s)) \<and>
   crockford_base32_decode (map (byte_char \<circ> canonical_symbol \<circ> of_char) s) = crockford_base32_decode s"
proof
  show "crockford_base32_decode s = None \<longleftrightarrow> \<not> list_all legal_symbol (as_bytes s)"
  proof (cases "s = []")
    case False
    then have "crockford_base32_decode s = None \<longleftrightarrow> (\<exists>b \<in> set (as_bytes s). char_value b = None)"
      by (simp add: crockford_base32_decode_def decode_loop_None)
    also have "\<dots> \<longleftrightarrow> \<not> list_all legal_symbol (as_bytes s)"
      using char_value_legal unfolding list_all_iff by blast
    finally show ?thesis .
  qed (simp add: crockford_base32_decode_def as_bytes_def)
  have "map char_value (as_bytes (map (byte_char \<circ> canonical_symbol \<circ> of_char) s)) = map char_value (as_bytes s)"
    by (simp add: as_bytes_def char_value_canonical)
  from decode_loop_cong [OF this]
  show "crockford_base32_decode (map (byte_char \<circ> canonical_symbol \<circ> of_char) s) = crockford_base32_decode s"
    by (simp add: crockford_base32_decode_def)
qed

end
