(* ===== verification/Wire.thy ===== *)
theory Wire
  imports Base32
begin

text \<open>
  The wire crate (\<open>starling-wire/src\<close>): the CBOR shape of every request, receipt and
  signalling frame, and the digests and signature checks of Owner requests.

  What the crates below it compute is a parameter of the definitions, collected in the
  record \<open>ext\<close>: the BLAKE2b hash, Ed25519, the byte level of CBOR with the leaf decoders
  serde's visitors call, base64 and hex. What serde derives from the struct declarations
  (field names, renames, defaults, unknown fields skipped, duplicates and missing fields
  refused) is written out here.
\<close>

section \<open>CBOR values and external functions\<close>

datatype cbor =
    CInt int | CBytes bytes | CText str | CArray "cbor list" | CMap "(cbor \<times> cbor) list"
  | CBool bool | CNull | COther bytes

text \<open>
  The leaf decoders of one deserializer: a field name out of the names the struct knows
  (any other name comes back as itself, and is skipped), a text, a byte string, an
  integer of a given range, an array.
\<close>

record leaf =
  lf_key :: "str list \<Rightarrow> cbor \<Rightarrow> str option"
  lf_text :: "cbor \<Rightarrow> str option"
  lf_bytes :: "cbor \<Rightarrow> bytes option"
  lf_int :: "int \<Rightarrow> int \<Rightarrow> cbor \<Rightarrow> int option"
  lf_array :: "cbor \<Rightarrow> cbor list option"
  lf_map :: "cbor \<Rightarrow> (cbor \<times> cbor) list option"
  lf_null :: "cbor \<Rightarrow> bool"

record ext =
  x_blake2b :: "bytes \<Rightarrow> bytes"
  x_vk_from_bytes :: "bytes \<Rightarrow> bool"
  x_verify_strict :: "bytes \<Rightarrow> bytes \<Rightarrow> bytes \<Rightarrow> bool"
  x_into_writer :: "cbor \<Rightarrow> bytes"
  x_from_reader :: "bytes \<Rightarrow> cbor option"
  x_leaf :: leaf
  x_content :: leaf
  x_tag :: "str list \<Rightarrow> cbor \<Rightarrow> str option"
  x_hex_encode :: "bytes \<Rightarrow> str"
  x_hex_decode :: "str \<Rightarrow> bytes option"
  x_b64_decode :: "str \<Rightarrow> bytes option"

section \<open>What serde derives for a struct\<close>

text \<open>
  The known fields of a map, in order. Every key must decode; a known field that occurs
  twice is an error; unknown fields are dropped.
\<close>

definition de_fields :: "leaf \<Rightarrow> str list \<Rightarrow> cbor \<Rightarrow> (str \<times> cbor) list option" where
  "de_fields lf known v =
     (case lf_map lf v of
        None \<Rightarrow> None
      | Some kvs \<Rightarrow>
          (case those (map (\<lambda>(k, w). map_option (\<lambda>s. (s, w)) (lf_key lf known k)) kvs) of
             None \<Rightarrow> None
           | Some es \<Rightarrow>
               (let fs = filter (\<lambda>(s, _). s \<in> set known) es
                in if distinct (map fst fs) then Some fs else None)))"

definition req_field :: "(str \<times> cbor) list \<Rightarrow> str \<Rightarrow> (cbor \<Rightarrow> 'a option) \<Rightarrow> 'a option" where
  "req_field fs name de = Option.bind (map_of fs name) de"

definition default_field ::
  "(str \<times> cbor) list \<Rightarrow> str \<Rightarrow> (cbor \<Rightarrow> 'a option) \<Rightarrow> 'a \<Rightarrow> 'a option" where
  "default_field fs name de d = (case map_of fs name of None \<Rightarrow> Some d | Some v \<Rightarrow> de v)"

definition de_vec :: "leaf \<Rightarrow> (cbor \<Rightarrow> 'a option) \<Rightarrow> cbor \<Rightarrow> 'a list option" where
  "de_vec lf de v = Option.bind (lf_array lf v) (\<lambda>vs. those (map de vs))"

definition de_option :: "leaf \<Rightarrow> (cbor \<Rightarrow> 'a option) \<Rightarrow> cbor \<Rightarrow> 'a option option" where
  "de_option lf de v = (if lf_null lf v then Some None else map_option Some (de v))"

definition de_i64 :: "leaf \<Rightarrow> cbor \<Rightarrow> int option" where
  "de_i64 lf = lf_int lf i64_min i64_max"

definition de_u16 :: "leaf \<Rightarrow> cbor \<Rightarrow> u16 option" where
  "de_u16 lf v = map_option word_of_int (lf_int lf 0 65535 v)"

definition de_u32 :: "leaf \<Rightarrow> cbor \<Rightarrow> u32 option" where
  "de_u32 lf v = map_option word_of_int (lf_int lf 0 4294967295 v)"

section \<open>\<open>lib.rs\<close>\<close>

definition PROTOCOL_VERSION :: str where
  "PROTOCOL_VERSION = ''2026-04-28''"

text \<open>
  \<open>now_secs\<close> reads the clock: the result of \<open>duration_since(UNIX_EPOCH)\<close> is an argument,
  \<open>None\<close> when the clock is before 1970.
\<close>

definition now_secs :: "u64 option \<Rightarrow> int" where
  "now_secs since_epoch = (case since_epoch of Some d \<Rightarrow> sint d | None \<Rightarrow> 0)"

section \<open>\<open>sig.rs\<close>\<close>

definition blake2b256 :: "ext \<Rightarrow> bytes \<Rightarrow> bytes" where
  "blake2b256 x data = x_blake2b x data"

definition verify_ed25519 :: "ext \<Rightarrow> bytes \<Rightarrow> bytes \<Rightarrow> bytes \<Rightarrow> bool" where
  "verify_ed25519 x pubkey msg sig =
     (if length pubkey \<noteq> 32 then False
      else if \<not> x_vk_from_bytes x pubkey then False
      else if length sig \<noteq> 64 then False
      else x_verify_strict x pubkey msg sig)"

definition verify_owner_sig :: "ext \<Rightarrow> bytes \<Rightarrow> bytes \<Rightarrow> bytes \<Rightarrow> bool" where
  "verify_owner_sig x pubkey body sig =
     (let digest = blake2b256 x body in verify_ed25519 x pubkey digest sig)"

definition OWNER_REQ_DOMAIN :: bytes where
  "OWNER_REQ_DOMAIN = as_bytes ''starling-owner-req-v1''"

definition owner_request_buf :: "ext \<Rightarrow> str \<Rightarrow> str \<Rightarrow> int \<Rightarrow> bytes \<Rightarrow> bytes" where
  "owner_request_buf x method path unix_ts body =
     OWNER_REQ_DOMAIN @ as_bytes method @ as_bytes path @ be_bytes64 unix_ts @ blake2b256 x body"

definition owner_request_digest :: "ext \<Rightarrow> str \<Rightarrow> str \<Rightarrow> int \<Rightarrow> bytes \<Rightarrow> bytes" where
  "owner_request_digest x method path unix_ts body =
     blake2b256 x (owner_request_buf x method path unix_ts body)"

definition verify_owner_request_sig ::
  "ext \<Rightarrow> bytes \<Rightarrow> str \<Rightarrow> str \<Rightarrow> int \<Rightarrow> bytes \<Rightarrow> bytes \<Rightarrow> bool" where
  "verify_owner_request_sig x pubkey method path unix_ts body sig =
     (let digest = owner_request_digest x method path unix_ts body
      in verify_ed25519 x pubkey digest sig)"

section \<open>\<open>pairing.rs\<close>\<close>

definition PAIRING_CLAIM_TAG :: bytes where
  "PAIRING_CLAIM_TAG = as_bytes ''starling-relay-pair-v1''"

definition pair_claim_buf :: "bytes \<Rightarrow> str \<Rightarrow> bytes \<Rightarrow> bytes" where
  "pair_claim_buf owner_pubkey relay_onion token =
     PAIRING_CLAIM_TAG @ owner_pubkey @ as_bytes relay_onion @ token"

definition compute_pair_claim :: "ext \<Rightarrow> bytes \<Rightarrow> str \<Rightarrow> bytes \<Rightarrow> bytes" where
  "compute_pair_claim x owner_pubkey relay_onion token =
     blake2b256 x (pair_claim_buf owner_pubkey relay_onion token)"

definition relay_id :: "ext \<Rightarrow> bytes \<Rightarrow> str \<Rightarrow> str" where
  "relay_id x owner_pubkey relay_onion =
     x_hex_encode x (blake2b256 x (owner_pubkey @ as_bytes relay_onion))"

record pairing_claim_wire =
  pc_owner_pubkey :: str
  pc_pairing_token :: bytes
  pc_sig :: bytes

definition pairing_claim_from_cbor :: "leaf \<Rightarrow> cbor \<Rightarrow> pairing_claim_wire option" where
  "pairing_claim_from_cbor lf v =
     (case de_fields lf [''owner_pubkey'', ''pairing_token'', ''sig''] v of
        None \<Rightarrow> None
      | Some fs \<Rightarrow>
          do { ow \<leftarrow> req_field fs ''owner_pubkey'' (lf_text lf);
               t \<leftarrow> req_field fs ''pairing_token'' (lf_bytes lf);
               s \<leftarrow> req_field fs ''sig'' (lf_bytes lf);
               Some \<lparr>pc_owner_pubkey = ow, pc_pairing_token = t, pc_sig = s\<rparr> })"

definition pairing_claim_to_cbor :: "pairing_claim_wire \<Rightarrow> cbor" where
  "pairing_claim_to_cbor c =
     CMap [(CText ''owner_pubkey'', CText (pc_owner_pubkey c)),
           (CText ''pairing_token'', CBytes (pc_pairing_token c)),
           (CText ''sig'', CBytes (pc_sig c))]"

record pair_response =
  pr_relay_onion :: str
  pr_relay_id :: str

definition pair_response_to_cbor :: "pair_response \<Rightarrow> cbor" where
  "pair_response_to_cbor r =
     CMap [(CText ''relay_onion'', CText (pr_relay_onion r)), (CText ''relay_id'', CText (pr_relay_id r))]"

definition pair_response_from_cbor :: "leaf \<Rightarrow> cbor \<Rightarrow> pair_response option" where
  "pair_response_from_cbor lf v =
     (case de_fields lf [''relay_onion'', ''relay_id''] v of
        None \<Rightarrow> None
      | Some fs \<Rightarrow>
          do { ow \<leftarrow> req_field fs ''relay_onion'' (lf_text lf);
               i \<leftarrow> req_field fs ''relay_id'' (lf_text lf);
               Some \<lparr>pr_relay_onion = ow, pr_relay_id = i\<rparr> })"

record relay_qr_card =
  qr_relay_onion :: str
  qr_pairing_token :: bytes
  qr_relay_version :: str

definition relay_qr_card_to_cbor :: "relay_qr_card \<Rightarrow> cbor" where
  "relay_qr_card_to_cbor c =
     CMap [(CText ''relay_onion'', CText (qr_relay_onion c)),
           (CText ''pairing_token'', CBytes (qr_pairing_token c)),
           (CText ''relay_version'', CText (qr_relay_version c))]"

definition relay_qr_card_from_cbor :: "leaf \<Rightarrow> cbor \<Rightarrow> relay_qr_card option" where
  "relay_qr_card_from_cbor lf v =
     (case de_fields lf [''relay_onion'', ''pairing_token'', ''relay_version''] v of
        None \<Rightarrow> None
      | Some fs \<Rightarrow>
          do { ow \<leftarrow> req_field fs ''relay_onion'' (lf_text lf);
               t \<leftarrow> req_field fs ''pairing_token'' (lf_bytes lf);
               w \<leftarrow> req_field fs ''relay_version'' (lf_text lf);
               Some \<lparr>qr_relay_onion = ow, qr_pairing_token = t, qr_relay_version = w\<rparr> })"

section \<open>\<open>push.rs\<close>\<close>

definition default_item_type :: str where
  "default_item_type = ''event''"

record push_item =
  pi_id :: str
  pi_payload :: bytes
  pi_type :: str

record push_batch =
  pb_items :: "push_item list"

definition push_item_from_cbor :: "leaf \<Rightarrow> cbor \<Rightarrow> push_item option" where
  "push_item_from_cbor lf v =
     do { fs \<leftarrow> de_fields lf [''id'', ''payload'', ''type''] v;
          i \<leftarrow> req_field fs ''id'' (lf_text lf);
          p \<leftarrow> req_field fs ''payload'' (lf_bytes lf);
          t \<leftarrow> default_field fs ''type'' (lf_text lf) default_item_type;
          Some \<lparr>pi_id = i, pi_payload = p, pi_type = t\<rparr> }"

definition push_item_to_cbor :: "push_item \<Rightarrow> cbor" where
  "push_item_to_cbor it =
     CMap [(CText ''id'', CText (pi_id it)), (CText ''payload'', CBytes (pi_payload it)),
           (CText ''type'', CText (pi_type it))]"

definition push_batch_from_cbor :: "leaf \<Rightarrow> cbor \<Rightarrow> push_batch option" where
  "push_batch_from_cbor lf v =
     do { fs \<leftarrow> de_fields lf [''items''] v;
          is \<leftarrow> req_field fs ''items'' (de_vec lf (push_item_from_cbor lf));
          Some \<lparr>pb_items = is\<rparr> }"

definition push_batch_to_cbor :: "push_batch \<Rightarrow> cbor" where
  "push_batch_to_cbor b = CMap [(CText ''items'', CArray (map push_item_to_cbor (pb_items b)))]"

definition push_batch_parse :: "ext \<Rightarrow> bytes \<Rightarrow> push_batch option" where
  "push_batch_parse x body = Option.bind (x_from_reader x body) (push_batch_from_cbor (x_leaf x))"

record push_receipt =
  rc_accepted :: int
  rc_rejected :: int

definition push_receipt_to_cbor :: "push_receipt \<Rightarrow> cbor" where
  "push_receipt_to_cbor r =
     CMap [(CText ''accepted'', CInt (rc_accepted r)), (CText ''rejected'', CInt (rc_rejected r))]"

section \<open>\<open>delete.rs\<close>\<close>

text \<open>The two requests have one text list each, under \<open>ids\<close> and \<open>hashes\<close>.\<close>

definition delete_events_from_cbor :: "leaf \<Rightarrow> cbor \<Rightarrow> str list option" where
  "delete_events_from_cbor lf v =
     do { fs \<leftarrow> de_fields lf [''ids''] v; req_field fs ''ids'' (de_vec lf (lf_text lf)) }"

definition delete_events_to_cbor :: "str list \<Rightarrow> cbor" where
  "delete_events_to_cbor ids = CMap [(CText ''ids'', CArray (map CText ids))]"

definition delete_events_parse :: "ext \<Rightarrow> bytes \<Rightarrow> str list option" where
  "delete_events_parse x body =
     Option.bind (x_from_reader x body) (delete_events_from_cbor (x_leaf x))"

definition delete_media_from_cbor :: "leaf \<Rightarrow> cbor \<Rightarrow> str list option" where
  "delete_media_from_cbor lf v =
     do { fs \<leftarrow> de_fields lf [''hashes''] v; req_field fs ''hashes'' (de_vec lf (lf_text lf)) }"

definition delete_media_to_cbor :: "str list \<Rightarrow> cbor" where
  "delete_media_to_cbor hs = CMap [(CText ''hashes'', CArray (map CText hs))]"

definition delete_media_parse :: "ext \<Rightarrow> bytes \<Rightarrow> str list option" where
  "delete_media_parse x body =
     Option.bind (x_from_reader x body) (delete_media_from_cbor (x_leaf x))"

record delete_receipt =
  dr_deleted :: int
  dr_missing :: int

definition delete_receipt_to_cbor :: "delete_receipt \<Rightarrow> cbor" where
  "delete_receipt_to_cbor r =
     CMap [(CText ''deleted'', CInt (dr_deleted r)), (CText ''missing'', CInt (dr_missing r))]"

definition delete_receipt_from_cbor :: "leaf \<Rightarrow> cbor \<Rightarrow> delete_receipt option" where
  "delete_receipt_from_cbor lf v =
     do { fs \<leftarrow> de_fields lf [''deleted'', ''missing''] v;
          d \<leftarrow> req_field fs ''deleted'' (de_i64 lf);
          m \<leftarrow> req_field fs ''missing'' (de_i64 lf);
          Some \<lparr>dr_deleted = d, dr_missing = m\<rparr> }"

section \<open>\<open>event_header.rs\<close>\<close>

record encrypted_event_header =
  eh_pubkey :: str
  eh_created_at :: int
  eh_epoch :: int
  eh_msg_seq :: int
  eh_nonce :: bytes

definition event_header_from_cbor :: "leaf \<Rightarrow> cbor \<Rightarrow> encrypted_event_header option" where
  "event_header_from_cbor lf v =
     do { fs \<leftarrow> de_fields lf [''pubkey'', ''created_at'', ''epoch'', ''msg_seq'', ''nonce''] v;
          p \<leftarrow> req_field fs ''pubkey'' (lf_text lf);
          c \<leftarrow> req_field fs ''created_at'' (de_i64 lf);
          e \<leftarrow> req_field fs ''epoch'' (de_i64 lf);
          m \<leftarrow> req_field fs ''msg_seq'' (de_i64 lf);
          n \<leftarrow> req_field fs ''nonce'' (lf_bytes lf);
          Some \<lparr>eh_pubkey = p, eh_created_at = c, eh_epoch = e, eh_msg_seq = m, eh_nonce = n\<rparr> }"

definition event_header_parse :: "ext \<Rightarrow> bytes \<Rightarrow> encrypted_event_header option" where
  "event_header_parse x payload =
     Option.bind (x_from_reader x payload) (event_header_from_cbor (x_leaf x))"

section \<open>\<open>envelope.rs\<close>\<close>

type_synonym extensions = "(str \<times> bytes) list"

definition extensions_to_cbor :: "extensions \<Rightarrow> cbor" where
  "extensions_to_cbor es = CMap (map (\<lambda>(k, v). (CText k, CBytes v)) es)"

record envelope_item_wire =
  ei_typ :: str
  ei_payload :: bytes
  ei_extensions :: extensions

record envelope_wire =
  en_version :: str
  en_items :: "envelope_item_wire list"
  en_extensions :: extensions

definition envelope_item_to_cbor :: "envelope_item_wire \<Rightarrow> cbor" where
  "envelope_item_to_cbor i =
     CMap [(CText ''type'', CText (ei_typ i)), (CText ''payload'', CBytes (ei_payload i)),
           (CText ''extensions'', extensions_to_cbor (ei_extensions i))]"

definition envelope_to_cbor :: "envelope_wire \<Rightarrow> cbor" where
  "envelope_to_cbor e =
     CMap [(CText ''version'', CText (en_version e)),
           (CText ''items'', CArray (map envelope_item_to_cbor (en_items e))),
           (CText ''extensions'', extensions_to_cbor (en_extensions e))]"

definition next_cursor_to_cbor :: "int \<Rightarrow> str \<Rightarrow> cbor" where
  "next_cursor_to_cbor created_at i =
     CMap [(CText ''created_at'', CInt created_at), (CText ''id'', CText i)]"

definition typed_envelope ::
  "ext \<Rightarrow> str \<Rightarrow> (str \<times> bytes) list \<Rightarrow> (int \<times> str) option \<Rightarrow> envelope_wire" where
  "typed_envelope x version typed_items nxt =
     (let items = map (\<lambda>(t, p). \<lparr>ei_typ = t, ei_payload = p, ei_extensions = []\<rparr>) typed_items;
          exts = (case nxt of
                    None \<Rightarrow> []
                  | Some (created_at, i) \<Rightarrow>
                      [(''next'', x_into_writer x (next_cursor_to_cbor created_at i))])
      in \<lparr>en_version = version, en_items = items, en_extensions = exts\<rparr>)"

definition build_typed_envelope_page ::
  "ext \<Rightarrow> str \<Rightarrow> (str \<times> bytes) list \<Rightarrow> (int \<times> str) option \<Rightarrow> bytes" where
  "build_typed_envelope_page x version typed_items nxt =
     x_into_writer x (envelope_to_cbor (typed_envelope x version typed_items nxt))"

definition build_events_envelope_page ::
  "ext \<Rightarrow> str \<Rightarrow> bytes list \<Rightarrow> (int \<times> str) option \<Rightarrow> bytes" where
  "build_events_envelope_page x version payloads nxt =
     build_typed_envelope_page x version (map (\<lambda>p. (''event'', p)) payloads) nxt"

definition build_events_envelope :: "ext \<Rightarrow> str \<Rightarrow> bytes list \<Rightarrow> bytes" where
  "build_events_envelope x version payloads = build_events_envelope_page x version payloads None"

section \<open>\<open>manifest.rs\<close>\<close>

record manifest_entry =
  me_id :: str
  me_created_at :: int

record manifest_page_wire =
  mp_pubkey :: str
  mp_events :: "manifest_entry list"
  mp_has_older :: bool

definition manifest_page_to_cbor :: "manifest_page_wire \<Rightarrow> cbor" where
  "manifest_page_to_cbor m =
     CMap [(CText ''pubkey'', CText (mp_pubkey m)),
           (CText ''events'', CArray (map (\<lambda>e. CMap [(CText ''id'', CText (me_id e)),
              (CText ''created_at'', CInt (me_created_at e))]) (mp_events m))),
           (CText ''has_older'', CBool (mp_has_older m))]"

record media_manifest_page =
  mm_hashes :: "str list"
  mm_has_older :: bool

definition media_manifest_page_to_cbor :: "media_manifest_page \<Rightarrow> cbor" where
  "media_manifest_page_to_cbor m =
     CMap [(CText ''hashes'', CArray (map CText (mm_hashes m))),
           (CText ''has_older'', CBool (mm_has_older m))]"

record voice_status_json =
  vs_enabled :: bool
  vs_max_participants :: u16
  vs_slot_count :: int

definition voice_status_disabled :: voice_status_json where
  "voice_status_disabled = \<lparr>vs_enabled = False, vs_max_participants = 0, vs_slot_count = 0\<rparr>"

record status_json =
  st_pubkey :: str
  st_version :: str
  st_event_count :: int
  st_storage_used :: int
  st_storage_limit :: int
  st_media_storage_used :: int
  st_voice :: voice_status_json

section \<open>\<open>voice.rs\<close>\<close>

definition ERR_BAD_TOKEN :: str where "ERR_BAD_TOKEN = ''bad_token''"
definition ERR_BUSY :: str where "ERR_BUSY = ''busy''"
definition ERR_PROTOCOL :: str where "ERR_PROTOCOL = ''protocol''"
definition ERR_INTERNAL :: str where "ERR_INTERNAL = ''internal''"

datatype client_frame =
    CF_Join bytes | CF_Offer str | CF_Answer str | CF_Ice str | CF_Bye

datatype server_frame =
    SF_JoinAck str "str list" u32 "str list"
  | SF_Offer str | SF_Answer str | SF_Ice str
  | SF_PeerJoined str str | SF_PeerLeft str
  | SF_Full | SF_Bye | SF_Error str str

text \<open>
  An internally tagged enum: the entry \<open>t\<close> (exactly once) names the variant, every other
  entry is buffered and read as the variant's struct.
\<close>

definition de_tagged :: "ext \<Rightarrow> str list \<Rightarrow> cbor \<Rightarrow> (str \<times> cbor) option" where
  "de_tagged x variants v =
     do { kvs \<leftarrow> lf_map (x_leaf x) v;
          (let is_tag = (\<lambda>(k, _). lf_key (x_leaf x) [''t''] k = Some ''t'');
               rest = CMap (filter (\<lambda>kv. \<not> is_tag kv) kvs)
           in (case filter is_tag kvs of
                 [(_, t)] \<Rightarrow> map_option (\<lambda>n. (n, rest)) (x_tag x variants t)
               | _ \<Rightarrow> None)) }"

definition tagged :: "str \<Rightarrow> (cbor \<times> cbor) list \<Rightarrow> cbor" where
  "tagged name fs = CMap ((CText ''t'', CText name) # fs)"

definition de_one :: "leaf \<Rightarrow> str \<Rightarrow> (cbor \<Rightarrow> 'a option) \<Rightarrow> cbor \<Rightarrow> 'a option" where
  "de_one lf name de v = do { fs \<leftarrow> de_fields lf [name] v; req_field fs name de }"

definition client_variants :: "str list" where
  "client_variants = [''join'', ''offer'', ''answer'', ''ice'', ''bye'']"

definition client_frame_from_cbor :: "ext \<Rightarrow> cbor \<Rightarrow> client_frame option" where
  "client_frame_from_cbor x v =
     do { (n, r) \<leftarrow> de_tagged x client_variants v;
          (let lf = x_content x
           in if n = ''join'' then map_option CF_Join (de_one lf ''token'' (lf_bytes lf) r)
              else if n = ''offer'' then map_option CF_Offer (de_one lf ''sdp'' (lf_text lf) r)
              else if n = ''answer'' then map_option CF_Answer (de_one lf ''sdp'' (lf_text lf) r)
              else if n = ''ice'' then map_option CF_Ice (de_one lf ''candidate'' (lf_text lf) r)
              else if n = ''bye'' then map_option (\<lambda>_. CF_Bye) (de_fields lf [] r)
              else None) }"

fun client_frame_to_cbor :: "client_frame \<Rightarrow> cbor" where
  "client_frame_to_cbor (CF_Join t) = tagged ''join'' [(CText ''token'', CBytes t)]"
| "client_frame_to_cbor (CF_Offer d) = tagged ''offer'' [(CText ''sdp'', CText d)]"
| "client_frame_to_cbor (CF_Answer d) = tagged ''answer'' [(CText ''sdp'', CText d)]"
| "client_frame_to_cbor (CF_Ice c) = tagged ''ice'' [(CText ''candidate'', CText c)]"
| "client_frame_to_cbor CF_Bye = tagged ''bye'' []"

definition client_frame_parse :: "ext \<Rightarrow> bytes \<Rightarrow> client_frame option" where
  "client_frame_parse x body = Option.bind (x_from_reader x body) (client_frame_from_cbor x)"

definition server_variants :: "str list" where
  "server_variants = [''join_ack'', ''offer'', ''answer'', ''ice'', ''peer_joined'', ''peer_left'',
     ''full'', ''bye'', ''error'']"

fun server_frame_to_cbor :: "server_frame \<Rightarrow> cbor" where
  "server_frame_to_cbor (SF_JoinAck i cs cap ps) =
     tagged ''join_ack'' [(CText ''sfu_id'', CText i), (CText ''candidates'', CArray (map CText cs)),
       (CText ''cap'', CInt (uint cap)), (CText ''participants'', CArray (map CText ps))]"
| "server_frame_to_cbor (SF_Offer d) = tagged ''offer'' [(CText ''sdp'', CText d)]"
| "server_frame_to_cbor (SF_Answer d) = tagged ''answer'' [(CText ''sdp'', CText d)]"
| "server_frame_to_cbor (SF_Ice c) = tagged ''ice'' [(CText ''candidate'', CText c)]"
| "server_frame_to_cbor (SF_PeerJoined i m) =
     tagged ''peer_joined'' [(CText ''sfu_id'', CText i), (CText ''mid'', CText m)]"
| "server_frame_to_cbor (SF_PeerLeft i) = tagged ''peer_left'' [(CText ''sfu_id'', CText i)]"
| "server_frame_to_cbor SF_Full = tagged ''full'' []"
| "server_frame_to_cbor SF_Bye = tagged ''bye'' []"
| "server_frame_to_cbor (SF_Error c m) =
     tagged ''error'' [(CText ''code'', CText c), (CText ''message'', CText m)]"

definition join_ack_from_cbor :: "leaf \<Rightarrow> cbor \<Rightarrow> server_frame option" where
  "join_ack_from_cbor lf v =
     do { fs \<leftarrow> de_fields lf [''sfu_id'', ''candidates'', ''cap'', ''participants''] v;
          i \<leftarrow> req_field fs ''sfu_id'' (lf_text lf);
          cs \<leftarrow> req_field fs ''candidates'' (de_vec lf (lf_text lf));
          cap \<leftarrow> req_field fs ''cap'' (de_u32 lf);
          ps \<leftarrow> req_field fs ''participants'' (de_vec lf (lf_text lf));
          Some (SF_JoinAck i cs cap ps) }"

definition de_two :: "leaf \<Rightarrow> str \<Rightarrow> str \<Rightarrow> (str \<Rightarrow> str \<Rightarrow> 'a) \<Rightarrow> cbor \<Rightarrow> 'a option" where
  "de_two lf a b f v =
     do { fs \<leftarrow> de_fields lf [a, b] v;
          s \<leftarrow> req_field fs a (lf_text lf);
          t \<leftarrow> req_field fs b (lf_text lf);
          Some (f s t) }"

definition server_frame_from_cbor :: "ext \<Rightarrow> cbor \<Rightarrow> server_frame option" where
  "server_frame_from_cbor x v =
     do { (n, r) \<leftarrow> de_tagged x server_variants v;
          (let lf = x_content x
           in if n = ''join_ack'' then join_ack_from_cbor lf r
              else if n = ''offer'' then map_option SF_Offer (de_one lf ''sdp'' (lf_text lf) r)
              else if n = ''answer'' then map_option SF_Answer (de_one lf ''sdp'' (lf_text lf) r)
              else if n = ''ice'' then map_option SF_Ice (de_one lf ''candidate'' (lf_text lf) r)
              else if n = ''peer_joined'' then de_two lf ''sfu_id'' ''mid'' SF_PeerJoined r
              else if n = ''peer_left'' then map_option SF_PeerLeft (de_one lf ''sfu_id'' (lf_text lf) r)
              else if n = ''full'' then map_option (\<lambda>_. SF_Full) (de_fields lf [] r)
              else if n = ''bye'' then map_option (\<lambda>_. SF_Bye) (de_fields lf [] r)
              else if n = ''error'' then de_two lf ''code'' ''message'' SF_Error r
              else None) }"

record voice_slot_entry =
  ve_token_hash :: bytes
  ve_max_participants :: "u16 option"

definition voice_slot_entry_from_cbor :: "leaf \<Rightarrow> cbor \<Rightarrow> voice_slot_entry option" where
  "voice_slot_entry_from_cbor lf v =
     do { fs \<leftarrow> de_fields lf [''token_hash'', ''max_participants''] v;
          h \<leftarrow> req_field fs ''token_hash'' (lf_bytes lf);
          m \<leftarrow> default_field fs ''max_participants'' (de_option lf (de_u16 lf)) None;
          Some \<lparr>ve_token_hash = h, ve_max_participants = m\<rparr> }"

definition voice_slot_entry_to_cbor :: "voice_slot_entry \<Rightarrow> cbor" where
  "voice_slot_entry_to_cbor e =
     CMap ((CText ''token_hash'', CBytes (ve_token_hash e)) #
           (case ve_max_participants e of
              None \<Rightarrow> []
            | Some m \<Rightarrow> [(CText ''max_participants'', CInt (uint m))]))"

definition voice_slot_push_from_cbor :: "leaf \<Rightarrow> cbor \<Rightarrow> voice_slot_entry list option" where
  "voice_slot_push_from_cbor lf v =
     do { fs \<leftarrow> de_fields lf [''slots''] v;
          req_field fs ''slots'' (de_vec lf (voice_slot_entry_from_cbor lf)) }"

definition voice_slot_push_to_cbor :: "voice_slot_entry list \<Rightarrow> cbor" where
  "voice_slot_push_to_cbor es = CMap [(CText ''slots'', CArray (map voice_slot_entry_to_cbor es))]"

definition voice_slot_push_parse :: "ext \<Rightarrow> bytes \<Rightarrow> voice_slot_entry list option" where
  "voice_slot_push_parse x body =
     Option.bind (x_from_reader x body) (voice_slot_push_from_cbor (x_leaf x))"

definition voice_slot_receipt_to_cbor :: "int \<Rightarrow> cbor" where
  "voice_slot_receipt_to_cbor slots = CMap [(CText ''slots'', CInt slots)]"

section \<open>Documented behaviour of the decoders\<close>

text \<open>
  A deserializer reads back the plain values a serializer writes: texts, byte strings,
  integers in range, arrays and maps, and it tells \<open>null\<close> from an integer.
\<close>

definition leaf_ok :: "leaf \<Rightarrow> bool" where
  "leaf_ok lf \<longleftrightarrow>
     (\<forall>known s. lf_key lf known (CText s) = Some s) \<and>
     (\<forall>s. lf_text lf (CText s) = Some s) \<and>
     (\<forall>b. lf_bytes lf (CBytes b) = Some b) \<and>
     (\<forall>lo hi i. lo \<le> i \<longrightarrow> i \<le> hi \<longrightarrow> lf_int lf lo hi (CInt i) = Some i) \<and>
     (\<forall>vs. lf_array lf (CArray vs) = Some vs) \<and>
     (\<forall>kvs. lf_map lf (CMap kvs) = Some kvs) \<and>
     (\<forall>i. \<not> lf_null lf (CInt i))"

definition wire_ok :: "ext \<Rightarrow> bool" where
  "wire_ok x \<longleftrightarrow> leaf_ok (x_leaf x) \<and> leaf_ok (x_content x) \<and>
     (\<forall>vs s. s \<in> set vs \<longrightarrow> x_tag x vs (CText s) = Some s)"

text \<open>The plainest decoders with that behaviour, for closed examples.\<close>

definition plain_leaf :: leaf where
  "plain_leaf = \<lparr>
     lf_key = (\<lambda>_ v. case v of CText s \<Rightarrow> Some s | _ \<Rightarrow> None),
     lf_text = (\<lambda>v. case v of CText s \<Rightarrow> Some s | _ \<Rightarrow> None),
     lf_bytes = (\<lambda>v. case v of CBytes b \<Rightarrow> Some b | _ \<Rightarrow> None),
     lf_int = (\<lambda>lo hi v. case v of CInt i \<Rightarrow> (if lo \<le> i \<and> i \<le> hi then Some i else None) | _ \<Rightarrow> None),
     lf_array = (\<lambda>v. case v of CArray vs \<Rightarrow> Some vs | _ \<Rightarrow> None),
     lf_map = (\<lambda>v. case v of CMap kvs \<Rightarrow> Some kvs | _ \<Rightarrow> None),
     lf_null = (\<lambda>v. v = CNull)\<rparr>"

definition plain_ext :: ext where
  "plain_ext = \<lparr>
     x_blake2b = (\<lambda>bs. take 32 (bs @ replicate 32 0)),
     x_vk_from_bytes = (\<lambda>_. True),
     x_verify_strict = (\<lambda>pk msg sig. sig = msg @ pk),
     x_into_writer = (\<lambda>_. []),
     x_from_reader = (\<lambda>_. None),
     x_leaf = plain_leaf, x_content = plain_leaf,
     x_tag = (\<lambda>vs v. case v of CText s \<Rightarrow> (if s \<in> set vs then Some s else None) | _ \<Rightarrow> None),
     x_hex_encode = (\<lambda>bs. map byte_char bs), x_hex_decode = (\<lambda>s. Some (as_bytes s)),
     x_b64_decode = (\<lambda>s. Some (as_bytes s))\<rparr>"

section \<open>Lemmas\<close>

named_theorems wire "decoding of what was encoded"

lemma leaf_okD [wire]:
  assumes "leaf_ok lf"
  shows "lf_key lf known (CText s) = Some s" "lf_text lf (CText s) = Some s"
    "lf_bytes lf (CBytes b) = Some b" "lf_array lf (CArray vs) = Some vs"
    "lf_map lf (CMap kvs) = Some kvs" "\<not> lf_null lf (CInt i)"
    "lo \<le> i \<Longrightarrow> i \<le> hi \<Longrightarrow> lf_int lf lo hi (CInt i) = Some i"
  using assms by (simp_all add: leaf_ok_def)

lemma de_u16_uint [wire]: "leaf_ok lf \<Longrightarrow> de_u16 lf (CInt (uint m)) = Some m"
  using uint_lt2p [of m] by (simp add: de_u16_def leaf_okD)

lemma de_u32_uint [wire]: "leaf_ok lf \<Longrightarrow> de_u32 lf (CInt (uint m)) = Some m"
  using uint_lt2p [of m] by (simp add: de_u32_def leaf_okD)

lemma de_i64_range [wire]: "leaf_ok lf \<Longrightarrow> in_i64 i \<Longrightarrow> de_i64 lf (CInt i) = Some i"
  by (simp add: de_i64_def in_i64_def leaf_okD)

lemma those_map_inverse: "(\<And>x. x \<in> set xs \<Longrightarrow> f (g x) = Some x) \<Longrightarrow> those (map f (map g xs)) = Some xs"
  by (induction xs) auto

lemma de_vec_map [wire]:
  assumes "leaf_ok lf" and "\<And>x. x \<in> set xs \<Longrightarrow> de (g x) = Some x"
  shows "de_vec lf de (CArray (map g xs)) = Some xs"
  using assms(1) those_map_inverse [of xs de g, OF assms(2)] by (simp add: de_vec_def leaf_okD del: map_map)

lemma de_fields_Nil [wire]: "leaf_ok lf \<Longrightarrow> de_fields lf known (CMap []) = Some []"
  by (simp add: de_fields_def leaf_okD)

lemma those_text_keys:
  "leaf_ok lf \<Longrightarrow>
   those (map (\<lambda>(k, w). map_option (\<lambda>s. (s, w)) (lf_key lf known k)) (map (\<lambda>(k, w). (CText k, w)) es)) = Some es"
  by (induction es) (auto simp: leaf_okD)

lemma de_fields_text:
  assumes "leaf_ok lf"
  shows "de_fields lf known (CMap (map (\<lambda>(k, w). (CText k, w)) es)) =
     (let fs = filter (\<lambda>(s, _). s \<in> set known) es in if distinct (map fst fs) then Some fs else None)"
  using those_text_keys [OF assms, of known es] by (simp add: de_fields_def leaf_okD assms del: map_map)

lemma de_fields_text1 [wire]:
  assumes "leaf_ok lf" shows "de_fields lf known (CMap [(CText a, u)]) =
     Some (if a \<in> set known then [(a, u)] else [])"
  using de_fields_text [OF assms, of known "[(a, u)]"] by simp

lemma de_fields_text2 [wire]:
  assumes "leaf_ok lf" "{a, b} \<subseteq> set known" "a \<noteq> b"
  shows "de_fields lf known (CMap [(CText a, u), (CText b, v)]) = Some [(a, u), (b, v)]"
  using de_fields_text [OF assms(1), of known "[(a, u), (b, v)]"] assms by simp

lemma de_fields_text3 [wire]:
  assumes "leaf_ok lf" "{a, b, c} \<subseteq> set known" "distinct [a, b, c]"
  shows "de_fields lf known (CMap [(CText a, u), (CText b, v), (CText c, w)]) =
    Some [(a, u), (b, v), (c, w)]"
  using de_fields_text [OF assms(1), of known "[(a, u), (b, v), (c, w)]"] assms by simp

lemma de_fields_text4 [wire]:
  assumes "leaf_ok lf" "{a, b, c, d} \<subseteq> set known" "distinct [a, b, c, d]"
  shows "de_fields lf known (CMap [(CText a, u), (CText b, v), (CText c, w), (CText d, z)]) =
    Some [(a, u), (b, v), (c, w), (d, z)]"
  using de_fields_text [OF assms(1), of known "[(a, u), (b, v), (c, w), (d, z)]"] assms by simp

lemmas wire_defs = req_field_def default_field_def de_option_def

lemma push_item_roundtrip [wire]:
  "leaf_ok lf \<Longrightarrow> push_item_from_cbor lf (push_item_to_cbor it) = Some it"
  by (simp add: push_item_from_cbor_def push_item_to_cbor_def wire wire_defs)

lemma push_item_without_type:
  "leaf_ok lf \<Longrightarrow>
   push_item_from_cbor lf (CMap [(CText ''id'', CText i), (CText ''payload'', CBytes p)]) =
     Some \<lparr>pi_id = i, pi_payload = p, pi_type = ''event''\<rparr>"
  by (simp add: push_item_from_cbor_def wire wire_defs default_item_type_def)

lemma voice_slot_entry_roundtrip [wire]:
  "leaf_ok lf \<Longrightarrow> voice_slot_entry_from_cbor lf (voice_slot_entry_to_cbor e) = Some e"
  by (cases "ve_max_participants e")
    (simp_all add: voice_slot_entry_from_cbor_def voice_slot_entry_to_cbor_def wire wire_defs)

lemma de_tagged_tagged [wire]:
  assumes "wire_ok x" "n \<in> set variants" "list_all (\<lambda>kv. case fst kv of CText k \<Rightarrow> k \<noteq> ''t'' | _ \<Rightarrow> False) kvs"
  shows "de_tagged x variants (tagged n kvs) = Some (n, CMap kvs)"
proof -
  have ok: "leaf_ok (x_leaf x)" using assms(1) by (simp add: wire_ok_def)
  have key: "lf_key (x_leaf x) [''t''] k \<noteq> Some ''t''" if "(k, v) \<in> set kvs" for k v
  proof -
    from assms(3) that have "case k of CText k \<Rightarrow> k \<noteq> ''t'' | _ \<Rightarrow> False"
      unfolding list_all_iff by fastforce
    then show ?thesis by (simp add: leaf_okD [OF ok] split: cbor.splits)
  qed
  have "filter (\<lambda>kv. \<not> (case kv of (k, _) \<Rightarrow> lf_key (x_leaf x) [''t''] k = Some ''t'')) kvs = kvs"
    using key by (intro filter_True) auto
  moreover have "filter (\<lambda>(k, _). lf_key (x_leaf x) [''t''] k = Some ''t'') kvs = []"
    using key by (intro filter_False) auto
  ultimately show ?thesis
    using assms(1,2) by (simp add: de_tagged_def tagged_def leaf_okD [OF ok] wire_ok_def)
qed

lemma de_one_text [wire]:
  "leaf_ok lf \<Longrightarrow> de_one lf a de (CMap [(CText a, u)]) = de u"
  by (simp add: de_one_def wire wire_defs)

lemma de_two_text [wire]:
  "leaf_ok lf \<Longrightarrow> a \<noteq> b \<Longrightarrow> de_two lf a b f (CMap [(CText a, CText s), (CText b, CText t)]) = Some (f s t)"
  by (simp add: de_two_def wire wire_defs)

lemma join_ack_roundtrip [wire]:
  "leaf_ok lf \<Longrightarrow> join_ack_from_cbor lf (CMap [(CText ''sfu_id'', CText i),
      (CText ''candidates'', CArray (map CText cs)), (CText ''cap'', CInt (uint cap)),
      (CText ''participants'', CArray (map CText ps))]) = Some (SF_JoinAck i cs cap ps)"
  by (simp add: join_ack_from_cbor_def wire wire_defs)

lemma wire_okD: "wire_ok x \<Longrightarrow> leaf_ok (x_leaf x)" "wire_ok x \<Longrightarrow> leaf_ok (x_content x)"
  by (simp_all add: wire_ok_def)

lemma client_frame_roundtrip_value:
  "wire_ok x \<Longrightarrow> client_frame_from_cbor x (client_frame_to_cbor f) = Some f"
  by (cases f)
    (simp_all add: client_frame_from_cbor_def client_variants_def de_tagged_tagged de_one_text
      de_fields_Nil leaf_okD wire_okD)

lemma server_frame_roundtrip_value:
  "wire_ok x \<Longrightarrow> server_frame_from_cbor x (server_frame_to_cbor f) = Some f"
  by (cases f)
    (simp_all add: server_frame_from_cbor_def server_variants_def de_tagged_tagged de_one_text
      de_two_text join_ack_roundtrip de_fields_Nil leaf_okD wire_okD)

lemma plain_leaf_ok: "leaf_ok plain_leaf"
  by (simp add: leaf_ok_def plain_leaf_def)

lemma plain_ext_ok: "wire_ok plain_ext"
  by (simp add: wire_ok_def plain_ext_def plain_leaf_ok)

lemma split_at_first:
  "a \<notin> set xs \<Longrightarrow> a \<notin> set ys \<Longrightarrow> xs @ a # us = ys @ a # vs \<Longrightarrow> xs = ys \<and> us = vs"
proof (induction xs arbitrary: ys)
  case Nil
  then show ?case by (cases ys) auto
next
  case (Cons x xs)
  then show ?case by (cases ys) auto
qed

lemma be_bytes64_bit:
  assumes "i < 64"
  shows "bit (be_bytes64 x ! (7 - i div 8)) (i mod 8) = bit x i"
proof -
  have "7 - i div 8 < 8" "7 - (7 - i div 8) = i div 8" "8 * (i div 8) + i mod 8 = i"
    using assms by (auto simp: less_mult_imp_div_less)
  then show ?thesis
    using assms
    by (simp add: be_bytes64_def bit_simps drop_bit_eq_div [symmetric] less_mult_imp_div_less)
qed

lemma be_bytes64_inj:
  assumes "in_i64 x" "in_i64 y" "be_bytes64 x = be_bytes64 y"
  shows "x = y"
proof -
  have "bit x i = bit y i" if "i < 64" for i
    using be_bytes64_bit [OF that, of x] be_bytes64_bit [OF that, of y] assms(3) by simp
  then have "take_bit 64 x = take_bit 64 y"
    by (intro bit_eqI) (auto simp: bit_take_bit_iff)
  then have "x mod 2 ^ 64 = y mod 2 ^ 64" by (simp add: take_bit_eq_mod)
  then have "i64_wrap x = i64_wrap y"
    unfolding i64_wrap_def by (metis mod_add_cong)
  with assms(1,2) show ?thesis by (simp add: i64_wrap_id)
qed

lemma map_of_char_inj: "map (of_char :: char \<Rightarrow> byte) s = map of_char t \<longleftrightarrow> s = t"
  using as_bytes_inj [of s t] by (simp add: as_bytes_def)

section \<open>Properties\<close>

text \<open>
  A pushed batch is read back as it was written, every item with its own type; an
  item written without a type, as older phones do, is read as an \<open>event\<close>.
\<close>
theorem push_batch_roundtrip:
  assumes "leaf_ok lf"
  shows "push_batch_from_cbor lf (push_batch_to_cbor b) = Some b \<and>
    push_batch_from_cbor lf (CMap [(CText ''items'', CArray [CMap [(CText ''id'', CText i),
      (CText ''payload'', CBytes p)]])]) =
      Some \<lparr>pb_items = [\<lparr>pi_id = i, pi_payload = p, pi_type = ''event''\<rparr>]\<rparr>"
proof
  show "push_batch_from_cbor lf (push_batch_to_cbor b) = Some b"
    using assms by (simp add: push_batch_from_cbor_def push_batch_to_cbor_def wire wire_defs)
  show "push_batch_from_cbor lf (CMap [(CText ''items'', CArray [CMap [(CText ''id'', CText i),
      (CText ''payload'', CBytes p)]])]) =
      Some \<lparr>pb_items = [\<lparr>pi_id = i, pi_payload = p, pi_type = ''event''\<rparr>]\<rparr>"
    using assms push_item_without_type [OF assms, of i p]
    by (simp add: push_batch_from_cbor_def de_vec_def wire wire_defs)
qed

lemma push_batch_roundtrip_witness:
  "push_batch_from_cbor plain_leaf (push_batch_to_cbor
     \<lparr>pb_items = [\<lparr>pi_id = ''a'', pi_payload = [1], pi_type = ''poll''\<rparr>]\<rparr>) =
     Some \<lparr>pb_items = [\<lparr>pi_id = ''a'', pi_payload = [1], pi_type = ''poll''\<rparr>]\<rparr>"
  using push_batch_roundtrip [OF plain_leaf_ok] by blast

text \<open>
  Every signalling frame of a voice call, in either direction, is read back as it was
  written: the tag selects the variant and no field is lost or confused with another.
\<close>
theorem voice_frames_roundtrip:
  assumes "wire_ok x"
  shows "client_frame_from_cbor x (client_frame_to_cbor c) = Some c \<and>
         server_frame_from_cbor x (server_frame_to_cbor s) = Some s"
  using client_frame_roundtrip_value [OF assms] server_frame_roundtrip_value [OF assms] by simp

lemma voice_frames_roundtrip_witness:
  "client_frame_from_cbor plain_ext (client_frame_to_cbor (CF_Join [7])) = Some (CF_Join [7]) \<and>
   server_frame_from_cbor plain_ext (server_frame_to_cbor (SF_JoinAck ''p'' [''c''] 8 [])) =
     Some (SF_JoinAck ''p'' [''c''] 8 [])"
  by (rule voice_frames_roundtrip [OF plain_ext_ok])

text \<open>
  C32: The bytes an Owner signs for a request determine the request: the concatenation has no
  length prefixes, but with a method free of \<open>/\<close>, a path that starts with \<open>/\<close>, a 64-bit
  timestamp and a 32-byte body hash, two equal signed messages have the same method, path,
  timestamp and body hash; and no signed request is a signed pairing claim.
\<close>
theorem owner_request_unambiguous:
  assumes "CHR ''/'' \<notin> set m1" "CHR ''/'' \<notin> set m2"
    and "in_i64 t1" "in_i64 t2"
    and "length (x_blake2b x b1) = 32" "length (x_blake2b x b2) = 32"
  shows "(owner_request_buf x m1 (CHR ''/'' # p1) t1 b1 = owner_request_buf x m2 (CHR ''/'' # p2) t2 b2 \<longrightarrow>
      m1 = m2 \<and> p1 = p2 \<and> t1 = t2 \<and> x_blake2b x b1 = x_blake2b x b2) \<and>
    owner_request_buf x m1 (CHR ''/'' # p1) t1 b1 \<noteq> pair_claim_buf pk onion token"
proof (intro conjI impI)
  let ?d = "OWNER_REQ_DOMAIN"
  assume e: "owner_request_buf x m1 (CHR ''/'' # p1) t1 b1 = owner_request_buf x m2 (CHR ''/'' # p2) t2 b2"
  let ?s = "of_char (CHR ''/'') :: byte"
  have ns: "?s \<notin> set (as_bytes m)" if "CHR ''/'' \<notin> set m" for m
    using that unfolding as_bytes_def set_map by (metis image_iff of_char_byte_eq_iff)
  from e have "as_bytes m1 @ ?s # (as_bytes p1 @ be_bytes64 t1 @ x_blake2b x b1) =
      as_bytes m2 @ ?s # (as_bytes p2 @ be_bytes64 t2 @ x_blake2b x b2)"
    by (simp add: owner_request_buf_def blake2b256_def as_bytes_def)
  from split_at_first [OF ns [OF assms(1)] ns [OF assms(2)] this]
  have m: "m1 = m2" and r: "(as_bytes p1 @ be_bytes64 t1) @ x_blake2b x b1 = (as_bytes p2 @ be_bytes64 t2) @ x_blake2b x b2"
    by (simp_all add: as_bytes_inj)
  from r assms(5,6) have b: "x_blake2b x b1 = x_blake2b x b2" and q: "as_bytes p1 @ be_bytes64 t1 = as_bytes p2 @ be_bytes64 t2"
    by (simp_all add: append_eq_append_conv)
  from q have "be_bytes64 t1 = be_bytes64 t2" "p1 = p2" by (simp_all add: append_eq_append_conv as_bytes_inj)
  with m b assms(3,4) show "m1 = m2" "p1 = p2" "t1 = t2" "x_blake2b x b1 = x_blake2b x b2"
    by (auto intro: be_bytes64_inj)
next
  have "take 12 (owner_request_buf x m1 (CHR ''/'' # p1) t1 b1) = as_bytes ''starling-own''"
    by (simp add: owner_request_buf_def OWNER_REQ_DOMAIN_def as_bytes_def)
  moreover have "take 12 (pair_claim_buf pk onion token) = as_bytes ''starling-rel''"
    by (simp add: pair_claim_buf_def PAIRING_CLAIM_TAG_def as_bytes_def)
  ultimately show "owner_request_buf x m1 (CHR ''/'' # p1) t1 b1 \<noteq> pair_claim_buf pk onion token"
    using as_bytes_inj [of "''starling-own''" "''starling-rel''"] by auto
qed

lemma owner_request_unambiguous_witness:
  "owner_request_buf plain_ext ''GET'' ''/status'' 5 [] \<noteq> owner_request_buf plain_ext ''GET'' ''/status'' 6 [] \<and>
   owner_request_buf plain_ext ''GET'' ''/status'' 5 [] \<noteq> pair_claim_buf [] ''o'' []"
  using owner_request_unambiguous [of "''GET''" "''GET''" 5 6 plain_ext "[]" "[]" "''status''" "''status''" "[]" "''o''" "[]"]
  by (simp add: plain_ext_def in_i64_def i64_min_def i64_max_def)

text \<open>
  A pairing claim binds the Owner's key, the relay's onion name and the token: among
  onion names of one length (they all have the same) equal claims have equal parts.
\<close>
theorem pair_claim_binding:
  assumes "length pk1 = 32" "length pk2 = 32" "length o1 = length o2"
  shows "pair_claim_buf pk1 o1 t1 = pair_claim_buf pk2 o2 t2 \<longleftrightarrow> pk1 = pk2 \<and> o1 = o2 \<and> t1 = t2"
  using assms by (auto simp: pair_claim_buf_def append_eq_append_conv as_bytes_inj)

lemma pair_claim_binding_witness:
  "pair_claim_buf (replicate 32 1) ''a.onion'' [1] \<noteq> pair_claim_buf (replicate 32 1) ''b.onion'' [1]"
  using pair_claim_binding [of "replicate 32 1" "replicate 32 1" "''a.onion''" "''b.onion''" "[1]" "[1]"] by simp

end
