(* ===== verification/Storage.thy ===== *)
theory Storage
  imports Wire
begin

text \<open>
  The SQLite storage of the relay (\<open>starling-relay-storage/src\<close>). The database is a record
  of tables, each the list of its rows in row-id order; every data access function is a
  function on that record. A statement that fails leaves the database as it was, and so
  does a transaction that returns an error: \<open>Inl\<close> carries no database. \<open>TEXT\<close> and \<open>BLOB\<close>
  columns compare bytewise, which is the lexicographic order on lists. The casts of
  \<open>u16\<close> columns to \<open>i64\<close> and back are the identity and are left out.
\<close>

section \<open>Rows and tables\<close>

record paired_owner =
  po_pubkey :: bytes
  po_label :: "str option"
  po_paired_at :: int
  po_relay_onion_address :: str
  po_local_port :: u16
  po_storage_cap_bytes :: "int option"

record pending_pairing =
  pp_token :: bytes
  pp_created_at :: int
  pp_expires_at :: int
  pp_consumed_at :: "int option"
  pp_created_by :: str
  pp_label :: "str option"

record served_event =
  ev_pubkey :: bytes
  ev_id :: str
  ev_created_at :: int
  ev_msg_seq :: int
  ev_nonce :: bytes
  ev_payload :: bytes
  ev_item_type :: str

text \<open>A row of \<open>served_events\<close> has the column \<open>size\<close> besides the struct's fields.\<close>

record event_row =
  er_event :: served_event
  er_size :: int

record served_media =
  sm_pubkey :: bytes
  sm_hash :: str
  sm_size :: int
  sm_created_at :: int
  sm_path :: str

record admin_creds =
  ac_password_hash :: str
  ac_updated_at :: int

record voice_slot =
  sl_pubkey :: bytes
  sl_token_hash :: bytes
  sl_max_participants :: "u16 option"
  sl_updated_at :: int

record db =
  d_owners :: "paired_owner list"
  d_pairings :: "pending_pairing list"
  d_events :: "event_row list"
  d_media :: "served_media list"
  d_creds :: "admin_creds option"
  d_slots :: "voice_slot list"

definition empty_db :: db where
  "empty_db = \<lparr>d_owners = [], d_pairings = [], d_events = [], d_media = [], d_creds = None, d_slots = []\<rparr>"

abbreviation er_key :: "event_row \<Rightarrow> bytes \<times> str" where
  "er_key r \<equiv> (ev_pubkey (er_event r), ev_id (er_event r))"

abbreviation sm_key :: "served_media \<Rightarrow> bytes \<times> str" where
  "sm_key r \<equiv> (sm_pubkey r, sm_hash r)"

abbreviation sl_key :: "voice_slot \<Rightarrow> bytes \<times> bytes" where
  "sl_key r \<equiv> (sl_pubkey r, sl_token_hash r)"

text \<open>The foreign key \<open>REFERENCES paired_owners(pubkey)\<close>, enforced on every connection.\<close>

definition fk_ok :: "db \<Rightarrow> bytes \<Rightarrow> bool" where
  "fk_ok db pubkey \<longleftrightarrow> tbl_find po_pubkey pubkey (d_owners db) \<noteq> None"

section \<open>\<open>lib.rs\<close>\<close>

text \<open>
  \<open>Db::run\<close>: a connection is checked out of the pool (which may fail) and the closure runs
  on it; every closure that writes is one statement or one transaction, so an error rolls
  everything back.
\<close>

definition db_run :: "bool \<Rightarrow> (db \<Rightarrow> ('a \<times> db) res) \<Rightarrow> db \<Rightarrow> 'a res \<times> db" where
  "db_run pool_ok f db =
     (if \<not> pool_ok then (Inl Pool_exhausted, db)
      else (case f db of Inl e \<Rightarrow> (Inl e, db) | Inr (a, db') \<Rightarrow> (Inr a, db')))"

text \<open>
  The schema as the migrations see it: \<open>ALTER TABLE ... ADD COLUMN\<close> fails when the column
  is there already (or the table is not), \<open>CREATE TABLE IF NOT EXISTS\<close> never fails.
  \<open>sc_sizes\<close> is the \<open>size\<close> column of the event rows, next to the payloads.
\<close>

record schema =
  sc_version :: int
  sc_base :: bool
  sc_size_col :: bool
  sc_type_col :: bool
  sc_slots :: bool
  sc_payloads :: "bytes list"
  sc_sizes :: "int list"

definition migration_0001 :: "schema \<Rightarrow> schema res" where
  "migration_0001 s = Inr (s\<lparr>sc_base := True\<rparr>)"

definition migration_0002 :: "schema \<Rightarrow> schema res" where
  "migration_0002 s =
     (if sc_size_col s \<or> \<not> sc_base s then Inl (Other_fault ''duplicate column name: size'')
      else Inr (s\<lparr>sc_size_col := True, sc_sizes := map (\<lambda>p. int (length p)) (sc_payloads s)\<rparr>))"

definition migration_0003 :: "schema \<Rightarrow> schema res" where
  "migration_0003 s =
     (if sc_type_col s \<or> \<not> sc_base s then Inl (Other_fault ''duplicate column name: item_type'')
      else Inr (s\<lparr>sc_type_col := True\<rparr>))"

definition migration_0004 :: "schema \<Rightarrow> schema res" where
  "migration_0004 s = Inr (s\<lparr>sc_slots := True\<rparr>)"

definition res_bind :: "'a res \<Rightarrow> ('a \<Rightarrow> 'b res) \<Rightarrow> 'b res" where
  "res_bind r f = (case r of Inl e \<Rightarrow> Inl e | Inr a \<Rightarrow> f a)"

definition migrate :: "schema \<Rightarrow> schema res" where
  "migrate s =
     (let v = sc_version s
      in res_bind (if v < 1 then migration_0001 s else Inr s) (\<lambda>s.
         res_bind (if v < 2 then migration_0002 s else Inr s) (\<lambda>s.
         res_bind (if v < 3 then migration_0003 s else Inr s) (\<lambda>s.
         res_bind (if v < 4 then migration_0004 s else Inr s) (\<lambda>s.
           Inr (s\<lparr>sc_version := 4\<rparr>))))))"

section \<open>\<open>creds.rs\<close>\<close>

definition creds_get :: "db \<Rightarrow> admin_creds option" where
  "creds_get db = d_creds db"

definition creds_set :: "str \<Rightarrow> int \<Rightarrow> db \<Rightarrow> db" where
  "creds_set password_hash updated_at db =
     db\<lparr>d_creds := Some \<lparr>ac_password_hash = password_hash, ac_updated_at = updated_at\<rparr>\<rparr>"

section \<open>\<open>events.rs\<close>\<close>

definition mk_event :: "bytes \<Rightarrow> str \<Rightarrow> int \<Rightarrow> int \<Rightarrow> bytes \<Rightarrow> bytes \<Rightarrow> served_event" where
  "mk_event pubkey i created_at msg_seq nonce payload =
     \<lparr>ev_pubkey = pubkey, ev_id = i, ev_created_at = created_at, ev_msg_seq = msg_seq,
      ev_nonce = nonce, ev_payload = payload, ev_item_type = ''event''\<rparr>"

definition event_to_row :: "served_event \<Rightarrow> event_row" where
  "event_to_row e = \<lparr>er_event = e, er_size = int (length (ev_payload e))\<rparr>"

text \<open>\<open>INSERT OR IGNORE\<close> ignores a duplicate key, not a violated foreign key.\<close>

definition events_insert :: "served_event \<Rightarrow> db \<Rightarrow> (bool \<times> db) res" where
  "events_insert e db =
     (let (rows, n) = tbl_insert_ignore er_key (event_to_row e) (d_events db)
      in if n = 0 then Inr (False, db)
         else if \<not> fk_ok db (ev_pubkey e) then Inl Constraint
         else Inr (True, db\<lparr>d_events := rows\<rparr>))"

fun events_delete_loop :: "bytes \<Rightarrow> str list \<Rightarrow> int \<Rightarrow> db \<Rightarrow> int \<times> db" where
  "events_delete_loop pubkey [] deleted db = (deleted, db)"
| "events_delete_loop pubkey (i # ids) deleted db =
     (let (rows, n) = tbl_delete er_key (pubkey, i) (d_events db)
      in events_delete_loop pubkey ids (deleted + int n) (db\<lparr>d_events := rows\<rparr>))"

definition events_delete_batch :: "bytes \<Rightarrow> str list \<Rightarrow> db \<Rightarrow> int \<times> db" where
  "events_delete_batch pubkey ids db = events_delete_loop pubkey ids 0 db"

definition events_of :: "bytes \<Rightarrow> db \<Rightarrow> event_row list" where
  "events_of pubkey db = filter (\<lambda>r. ev_pubkey (er_event r) = pubkey) (d_events db)"

definition events_total_bytes :: "bytes \<Rightarrow> db \<Rightarrow> int res" where
  "events_total_bytes pubkey db = sql_sum er_size (events_of pubkey db)"

definition events_count :: "bytes \<Rightarrow> db \<Rightarrow> int" where
  "events_count pubkey db = int (length (events_of pubkey db))"

abbreviation er_pos :: "event_row \<Rightarrow> int \<times> str" where
  "er_pos r \<equiv> (ev_created_at (er_event r), ev_id (er_event r))"

definition manifest_where :: "int option \<Rightarrow> int option \<Rightarrow> str option \<Rightarrow> event_row \<Rightarrow> bool" where
  "manifest_where since until until_id r =
     (let c = ev_created_at (er_event r); i = ev_id (er_event r)
      in (case since of None \<Rightarrow> True | Some s \<Rightarrow> s \<le> c) \<and>
         (case until of
            None \<Rightarrow> True
          | Some u \<Rightarrow>
              (case until_id of
                 None \<Rightarrow> c \<le> u \<or> c < u
               | Some ui \<Rightarrow> c < u \<or> c = u \<and> i < ui)))"

definition manifest_page ::
  "bytes \<Rightarrow> int option \<Rightarrow> int option \<Rightarrow> str option \<Rightarrow> int \<Rightarrow> db \<Rightarrow> manifest_entry list" where
  "manifest_page pubkey since until until_id limit db =
     map (\<lambda>r. \<lparr>me_id = ev_id (er_event r), me_created_at = ev_created_at (er_event r)\<rparr>)
       (sql_limit limit
         (rev (sort_key er_pos (filter (manifest_where since until until_id) (events_of pubkey db)))))"

record served_payload =
  sp_item_type :: str
  sp_payload :: bytes

record events_page =
  ep_items :: "served_payload list"
  ep_next :: "(int \<times> str) option"

definition payloads_where :: "int option \<Rightarrow> str option \<Rightarrow> event_row \<Rightarrow> bool" where
  "payloads_where since since_id r =
     (let c = ev_created_at (er_event r); i = ev_id (er_event r)
      in (case since of
            None \<Rightarrow> True
          | Some s \<Rightarrow>
              (case since_id of
                 None \<Rightarrow> s \<le> c \<or> s < c
               | Some si \<Rightarrow> s < c \<or> c = s \<and> si < i)))"

definition row_payload :: "event_row \<Rightarrow> served_payload" where
  "row_payload r = \<lparr>sp_item_type = ev_item_type (er_event r), sp_payload = ev_payload (er_event r)\<rparr>"

fun payloads_loop ::
  "int \<Rightarrow> int \<Rightarrow> event_row list \<Rightarrow> served_payload list \<Rightarrow> int \<Rightarrow> (int \<times> str) option \<Rightarrow> events_page" where
  "payloads_loop max_rows byte_budget [] items bytes lst = \<lparr>ep_items = items, ep_next = None\<rparr>"
| "payloads_loop max_rows byte_budget (r # rows) items bytes lst =
     (if items \<noteq> [] \<and> (max_rows \<le> int (length items) \<or> byte_budget < i64_wrap (bytes + er_size r))
      then \<lparr>ep_items = items, ep_next = lst\<rparr>
      else payloads_loop max_rows byte_budget rows (items @ [row_payload r])
             (i64_wrap (bytes + er_size r)) (Some (er_pos r)))"

definition payloads_page ::
  "bytes \<Rightarrow> int option \<Rightarrow> str option \<Rightarrow> int \<Rightarrow> int \<Rightarrow> db \<Rightarrow> events_page" where
  "payloads_page pubkey since since_id max_rows byte_budget db =
     payloads_loop max_rows byte_budget
       (sort_key er_pos (filter (payloads_where since since_id) (events_of pubkey db))) [] 0 None"

section \<open>\<open>media.rs\<close>\<close>

definition media_insert :: "served_media \<Rightarrow> db \<Rightarrow> (bool \<times> db) res" where
  "media_insert m db =
     (let (rows, n) = tbl_insert_ignore sm_key m (d_media db)
      in if n = 0 then Inr (False, db)
         else if \<not> fk_ok db (sm_pubkey m) then Inl Constraint
         else Inr (True, db\<lparr>d_media := rows\<rparr>))"

definition media_upsert :: "served_media \<Rightarrow> db \<Rightarrow> db res" where
  "media_upsert m db =
     (if \<not> fk_ok db (sm_pubkey m) then Inl Constraint
      else Inr (db\<lparr>d_media := tbl_upsert sm_key m (d_media db)\<rparr>))"

definition media_get :: "bytes \<Rightarrow> str \<Rightarrow> db \<Rightarrow> served_media option" where
  "media_get pubkey hash db = tbl_find sm_key (pubkey, hash) (d_media db)"

definition media_delete :: "bytes \<Rightarrow> str \<Rightarrow> db \<Rightarrow> served_media option \<times> db" where
  "media_delete pubkey hash db =
     (let row = media_get pubkey hash db
      in if row \<noteq> None
         then (row, db\<lparr>d_media := fst (tbl_delete sm_key (pubkey, hash) (d_media db))\<rparr>)
         else (row, db))"

definition media_rows_for_owner :: "bytes \<Rightarrow> db \<Rightarrow> served_media list" where
  "media_rows_for_owner pubkey db = filter (\<lambda>r. sm_pubkey r = pubkey) (d_media db)"

definition media_hashes_page :: "bytes \<Rightarrow> str option \<Rightarrow> int \<Rightarrow> db \<Rightarrow> str list" where
  "media_hashes_page pubkey after limit db =
     sql_limit limit (sort (map sm_hash
       (filter (\<lambda>r. case after of None \<Rightarrow> True | Some a \<Rightarrow> a < sm_hash r)
         (media_rows_for_owner pubkey db))))"

definition media_total_bytes :: "bytes \<Rightarrow> db \<Rightarrow> int res" where
  "media_total_bytes pubkey db = sql_sum sm_size (media_rows_for_owner pubkey db)"

section \<open>\<open>owners.rs\<close>\<close>

text \<open>The primary key \<open>pubkey\<close> and the \<open>UNIQUE\<close> column \<open>local_port\<close>.\<close>

definition owners_insert :: "paired_owner \<Rightarrow> db \<Rightarrow> db res" where
  "owners_insert ow db =
     (if tbl_find po_local_port (po_local_port ow) (d_owners db) \<noteq> None then Inl Constraint
      else case tbl_insert po_pubkey ow (d_owners db) of
             Inl e \<Rightarrow> Inl e
           | Inr rows \<Rightarrow> Inr (db\<lparr>d_owners := rows\<rparr>))"

definition owners_get :: "bytes \<Rightarrow> db \<Rightarrow> paired_owner option" where
  "owners_get pubkey db = tbl_find po_pubkey pubkey (d_owners db)"

definition owners_list :: "db \<Rightarrow> paired_owner list" where
  "owners_list db = sort_key po_paired_at (d_owners db)"

text \<open>\<open>ON DELETE CASCADE\<close> removes the Owner's events, media rows and voice slots.\<close>

definition owners_delete :: "bytes \<Rightarrow> db \<Rightarrow> nat \<times> db" where
  "owners_delete pubkey db =
     (let (rows, n) = tbl_delete po_pubkey pubkey (d_owners db)
      in (n, if n = 0 then db
             else db\<lparr>d_owners := rows,
                     d_events := filter (\<lambda>r. ev_pubkey (er_event r) \<noteq> pubkey) (d_events db),
                     d_media := filter (\<lambda>r. sm_pubkey r \<noteq> pubkey) (d_media db),
                     d_slots := filter (\<lambda>r. sl_pubkey r \<noteq> pubkey) (d_slots db)\<rparr>))"

definition used_ports :: "db \<Rightarrow> u16 list" where
  "used_ports db = map po_local_port (d_owners db)"

definition port_range :: "u16 \<Rightarrow> u16 \<Rightarrow> u16 list" where
  "port_range lo hi = map word_of_nat [unat lo..<Suc (unat hi)]"

definition lowest_free_port :: "u16 \<Rightarrow> u16 \<Rightarrow> u16 list \<Rightarrow> u16 option" where
  "lowest_free_port lo hi used = find (\<lambda>p. p \<notin> set used) (port_range lo hi)"

section \<open>\<open>pairings.rs\<close>\<close>

definition pairings_insert :: "pending_pairing \<Rightarrow> db \<Rightarrow> db res" where
  "pairings_insert p db =
     (case tbl_insert pp_token p (d_pairings db) of
        Inl e \<Rightarrow> Inl e
      | Inr rows \<Rightarrow> Inr (db\<lparr>d_pairings := rows\<rparr>))"

definition pairings_get :: "bytes \<Rightarrow> db \<Rightarrow> pending_pairing option" where
  "pairings_get token db = tbl_find pp_token token (d_pairings db)"

definition pairings_update :: "(pending_pairing \<Rightarrow> bool) \<Rightarrow> int \<Rightarrow> db \<Rightarrow> nat \<times> db" where
  "pairings_update P at db =
     (length (filter P (d_pairings db)),
      db\<lparr>d_pairings := map (\<lambda>p. if P p then p\<lparr>pp_consumed_at := Some at\<rparr> else p) (d_pairings db)\<rparr>)"

definition mark_consumed :: "bytes \<Rightarrow> int \<Rightarrow> db \<Rightarrow> nat \<times> db" where
  "mark_consumed token at db =
     pairings_update (\<lambda>p. pp_token p = token \<and> pp_consumed_at p = None) at db"

definition consume_all_unconsumed :: "int \<Rightarrow> db \<Rightarrow> nat \<times> db" where
  "consume_all_unconsumed at db = pairings_update (\<lambda>p. pp_consumed_at p = None) at db"

definition prune_expired :: "int \<Rightarrow> db \<Rightarrow> nat \<times> db" where
  "prune_expired now db =
     (length (filter (\<lambda>p. pp_expires_at p < now) (d_pairings db)),
      db\<lparr>d_pairings := filter (\<lambda>p. \<not> pp_expires_at p < now) (d_pairings db)\<rparr>)"

section \<open>\<open>voice_slots.rs\<close>\<close>

fun slots_insert_loop :: "bytes \<Rightarrow> int \<Rightarrow> (bytes \<times> u16 option) list \<Rightarrow> db \<Rightarrow> db res" where
  "slots_insert_loop pubkey now [] db = Inr db"
| "slots_insert_loop pubkey now ((token_hash, max_participants) # slots) db =
     (let row = \<lparr>sl_pubkey = pubkey, sl_token_hash = token_hash,
                 sl_max_participants = max_participants, sl_updated_at = now\<rparr>
      in if \<not> fk_ok db pubkey then Inl Constraint
         else case tbl_insert sl_key row (d_slots db) of
                Inl e \<Rightarrow> Inl e
              | Inr rows \<Rightarrow> slots_insert_loop pubkey now slots (db\<lparr>d_slots := rows\<rparr>))"

definition replace_set :: "bytes \<Rightarrow> (bytes \<times> u16 option) list \<Rightarrow> int \<Rightarrow> db \<Rightarrow> db res" where
  "replace_set pubkey slots now db =
     slots_insert_loop pubkey now slots
       (db\<lparr>d_slots := filter (\<lambda>r. sl_pubkey r \<noteq> pubkey) (d_slots db)\<rparr>)"

definition slots_for_owner :: "bytes \<Rightarrow> db \<Rightarrow> voice_slot list" where
  "slots_for_owner pubkey db =
     sort_key sl_token_hash (filter (\<lambda>r. sl_pubkey r = pubkey) (d_slots db))"

definition slots_count_for_owner :: "bytes \<Rightarrow> db \<Rightarrow> int" where
  "slots_count_for_owner pubkey db = int (length (filter (\<lambda>r. sl_pubkey r = pubkey) (d_slots db)))"

definition slots_list_all :: "db \<Rightarrow> voice_slot list" where
  "slots_list_all db = sort_key sl_key (d_slots db)"

section \<open>\<open>accounting.rs\<close>\<close>

datatype cap_check = Cap_Ok | OwnerExceeded | HostExceeded

definition owner_usage :: "bytes \<Rightarrow> db \<Rightarrow> int res" where
  "owner_usage pubkey db =
     res_bind (events_total_bytes pubkey db) (\<lambda>e.
     res_bind (media_total_bytes pubkey db) (\<lambda>m. Inr (i64_wrap (e + m))))"

definition host_usage :: "db \<Rightarrow> int res" where
  "host_usage db =
     res_bind (sql_sum er_size (d_events db)) (\<lambda>e.
     res_bind (sql_sum sm_size (d_media db)) (\<lambda>m. Inr (i64_wrap (e + m))))"

definition check_capacity :: "bytes \<Rightarrow> int \<Rightarrow> int \<Rightarrow> int \<Rightarrow> db \<Rightarrow> cap_check res" where
  "check_capacity pubkey incoming owner_cap disk_cap db =
     res_bind
       (if 0 < owner_cap
        then res_bind (owner_usage pubkey db) (\<lambda>u. Inr (owner_cap < i64_wrap (u + incoming)))
        else Inr False) (\<lambda>over_owner.
      if over_owner then Inr OwnerExceeded
      else res_bind
        (if 0 < disk_cap
         then res_bind (host_usage db) (\<lambda>u. Inr (disk_cap < i64_wrap (u + incoming)))
         else Inr False) (\<lambda>over_host.
       Inr (if over_host then HostExceeded else Cap_Ok)))"

section \<open>The schema's invariant\<close>

text \<open>
  Primary keys and the unique port hold, every event, media row and slot has its Owner,
  and the \<open>size\<close> column is the length of the payload.
\<close>

definition db_inv :: "db \<Rightarrow> bool" where
  "db_inv db \<longleftrightarrow>
     tbl_keys po_pubkey (d_owners db) \<and> tbl_keys po_local_port (d_owners db) \<and>
     tbl_keys pp_token (d_pairings db) \<and> tbl_keys er_key (d_events db) \<and>
     tbl_keys sm_key (d_media db) \<and> tbl_keys sl_key (d_slots db) \<and>
     (\<forall>r \<in> set (d_events db). fk_ok db (ev_pubkey (er_event r)) \<and> er_size r = int (length (ev_payload (er_event r)))) \<and>
     (\<forall>r \<in> set (d_media db). fk_ok db (sm_pubkey r)) \<and>
     (\<forall>r \<in> set (d_slots db). fk_ok db (sl_pubkey r))"

text \<open>One data access call that changes the database.\<close>

inductive dao_step :: "db \<Rightarrow> db \<Rightarrow> bool" where
  dao_creds: "dao_step db (creds_set h t db)"
| dao_event: "events_insert e db = Inr (b, db') \<Longrightarrow> dao_step db db'"
| dao_event_delete: "dao_step db (snd (events_delete_batch pk ids db))"
| dao_media: "media_insert m db = Inr (b, db') \<Longrightarrow> dao_step db db'"
| dao_media_up: "media_upsert m db = Inr db' \<Longrightarrow> dao_step db db'"
| dao_media_delete: "dao_step db (snd (media_delete pk hash db))"
| dao_owner: "owners_insert ow db = Inr db' \<Longrightarrow> dao_step db db'"
| dao_owner_delete: "dao_step db (snd (owners_delete pk db))"
| dao_pairing: "pairings_insert p db = Inr db' \<Longrightarrow> dao_step db db'"
| dao_consume: "dao_step db (snd (mark_consumed tok at db))"
| dao_consume_all: "dao_step db (snd (consume_all_unconsumed at db))"
| dao_prune: "dao_step db (snd (prune_expired now db))"
| dao_slots: "replace_set pk slots now db = Inr db' \<Longrightarrow> dao_step db db'"

inductive dao_reachable :: "db \<Rightarrow> bool" where
  dao_start: "dao_reachable empty_db"
| dao_next: "dao_reachable db \<Longrightarrow> dao_step db db' \<Longrightarrow> dao_reachable db'"

section \<open>Every operation keeps the invariant\<close>

named_theorems db_keep "operations that keep the schema's invariant"

lemma fk_ok_iff: "fk_ok db pk \<longleftrightarrow> pk \<in> po_pubkey ` set (d_owners db)"
  by (simp add: fk_ok_def tbl_find_None)

lemma fk_ok_simps [simp]:
  "fk_ok (db\<lparr>d_events := es\<rparr>) = fk_ok db" "fk_ok (db\<lparr>d_media := ms\<rparr>) = fk_ok db"
  "fk_ok (db\<lparr>d_slots := ss\<rparr>) = fk_ok db" "fk_ok (db\<lparr>d_pairings := ps\<rparr>) = fk_ok db"
  "fk_ok (db\<lparr>d_creds := c\<rparr>) = fk_ok db"
  by (simp_all add: fk_ok_def fun_eq_iff)

lemma db_inv_empty: "db_inv empty_db"
  by (simp add: db_inv_def empty_db_def tbl_keys_def)

lemma db_inv_creds [db_keep]: "db_inv db \<Longrightarrow> db_inv (creds_set h t db)"
  by (simp add: db_inv_def creds_set_def)

lemma db_inv_events:
  "db_inv db \<Longrightarrow> tbl_keys er_key es \<Longrightarrow>
   (\<And>r. r \<in> set es \<Longrightarrow> fk_ok db (ev_pubkey (er_event r)) \<and> er_size r = int (length (ev_payload (er_event r)))) \<Longrightarrow>
   db_inv (db\<lparr>d_events := es\<rparr>)"
  by (simp add: db_inv_def)

lemma db_inv_media:
  "db_inv db \<Longrightarrow> tbl_keys sm_key ms \<Longrightarrow> (\<And>r. r \<in> set ms \<Longrightarrow> fk_ok db (sm_pubkey r)) \<Longrightarrow>
   db_inv (db\<lparr>d_media := ms\<rparr>)"
  by (simp add: db_inv_def)

lemma db_inv_slots:
  "db_inv db \<Longrightarrow> tbl_keys sl_key ss \<Longrightarrow> (\<And>r. r \<in> set ss \<Longrightarrow> fk_ok db (sl_pubkey r)) \<Longrightarrow>
   db_inv (db\<lparr>d_slots := ss\<rparr>)"
  by (simp add: db_inv_def)

lemma db_inv_pairings:
  "db_inv db \<Longrightarrow> tbl_keys pp_token ps \<Longrightarrow> db_inv (db\<lparr>d_pairings := ps\<rparr>)"
  by (simp add: db_inv_def)

lemma events_insert_cases:
  assumes "events_insert e db = Inr (b, db')"
  obtains (old) "b = False" "db' = db" "tbl_find er_key (ev_pubkey e, ev_id e) (d_events db) \<noteq> None"
  | (new) "b = True" "db' = db\<lparr>d_events := d_events db @ [event_to_row e]\<rparr>" "fk_ok db (ev_pubkey e)"
      "tbl_find er_key (ev_pubkey e, ev_id e) (d_events db) = None"
  using assms
  by (auto simp: events_insert_def tbl_insert_ignore_def event_to_row_def split: if_splits)

lemma db_inv_events_insert [db_keep]:
  assumes "db_inv db" "events_insert e db = Inr (b, db')" shows "db_inv db'"
  using assms(2)
proof (cases rule: events_insert_cases)
  case new
  then show ?thesis
    using assms(1)
    by (auto simp: event_to_row_def db_inv_def intro!: tbl_keys_append_fresh)
qed (use assms in simp)

lemma events_delete_loop_eq:
  "events_delete_loop pk ids n db =
     (n + int (length (filter (\<lambda>r. ev_pubkey (er_event r) = pk \<and> ev_id (er_event r) \<in> set ids) (d_events db))),
      db\<lparr>d_events := filter (\<lambda>r. \<not> (ev_pubkey (er_event r) = pk \<and> ev_id (er_event r) \<in> set ids)) (d_events db)\<rparr>)"
proof (induction ids arbitrary: n db)
  case (Cons i ids)
  have "length (filter (\<lambda>r. ev_pubkey (er_event r) = pk \<and> (ev_id (er_event r) = i \<or> ev_id (er_event r) \<in> set ids)) rs) =
      length (filter (\<lambda>r. er_key r = (pk, i)) rs) +
      length (filter (\<lambda>r. ev_pubkey (er_event r) = pk \<and> ev_id (er_event r) \<in> set ids) (filter (\<lambda>r. er_key r \<noteq> (pk, i)) rs))"
    for rs by (induction rs) auto
  moreover have "filter (\<lambda>r. \<not> (ev_pubkey (er_event r) = pk \<and> ev_id (er_event r) \<in> set ids)) (filter (\<lambda>r. er_key r \<noteq> (pk, i)) rs) =
      filter (\<lambda>r. \<not> (ev_pubkey (er_event r) = pk \<and> (ev_id (er_event r) = i \<or> ev_id (er_event r) \<in> set ids))) rs"
    for rs by (induction rs) auto
  ultimately show ?case
    by (simp add: Cons.IH tbl_delete_def)
qed simp

lemma events_delete_batch_eq:
  "events_delete_batch pk ids db =
     (int (length (filter (\<lambda>r. ev_pubkey (er_event r) = pk \<and> ev_id (er_event r) \<in> set ids) (d_events db))),
      db\<lparr>d_events := filter (\<lambda>r. \<not> (ev_pubkey (er_event r) = pk \<and> ev_id (er_event r) \<in> set ids)) (d_events db)\<rparr>)"
  by (simp add: events_delete_batch_def events_delete_loop_eq)

lemma db_inv_events_delete [db_keep]:
  "db_inv db \<Longrightarrow> db_inv (snd (events_delete_batch pk ids db))"
  unfolding events_delete_batch_eq snd_conv
  by (rule db_inv_events) (auto simp: db_inv_def)

lemma db_inv_media_insert [db_keep]:
  "db_inv db \<Longrightarrow> media_insert m db = Inr (b, db') \<Longrightarrow> db_inv db'"
  by (auto simp: media_insert_def tbl_insert_ignore_def db_inv_def tbl_keys_append_fresh split: if_splits)

lemma set_tbl_upsert: "r \<in> set (tbl_upsert key m t) \<Longrightarrow> r = m \<or> r \<in> set t"
  by (auto simp: tbl_upsert_def split: if_splits)

lemma db_inv_media_upsert [db_keep]:
  assumes "db_inv db" "media_upsert m db = Inr db'" shows "db_inv db'"
proof -
  have e: "db' = db\<lparr>d_media := tbl_upsert sm_key m (d_media db)\<rparr>" "fk_ok db (sm_pubkey m)"
    using assms(2) by (auto simp: media_upsert_def split: if_splits)
  show ?thesis unfolding e(1)
    by (rule db_inv_media) (use assms(1) e(2) in \<open>auto simp: db_inv_def dest: set_tbl_upsert\<close>)
qed

lemma db_inv_media_delete [db_keep]: "db_inv db \<Longrightarrow> db_inv (snd (media_delete pk hash db))"
  by (auto simp: media_delete_def Let_def tbl_delete_def db_inv_def)

lemma db_inv_owners_insert [db_keep]:
  assumes "db_inv db" "owners_insert ow db = Inr db'" shows "db_inv db'"
proof -
  have e: "db' = db\<lparr>d_owners := d_owners db @ [ow]\<rparr>" "tbl_find po_pubkey (po_pubkey ow) (d_owners db) = None"
    "tbl_find po_local_port (po_local_port ow) (d_owners db) = None"
    using assms(2) by (auto simp: owners_insert_def tbl_insert_def split: if_splits)
  show ?thesis
    using assms(1) e(2,3) unfolding e(1)
    by (auto simp: db_inv_def fk_ok_iff intro!: tbl_keys_append_fresh)
qed

lemma owners_delete_eq:
  assumes "tbl_keys po_pubkey (d_owners db)"
  shows "owners_delete pk db =
    (if fk_ok db pk then 1 else 0,
     if fk_ok db pk then db\<lparr>d_owners := filter (\<lambda>w. po_pubkey w \<noteq> pk) (d_owners db),
       d_events := filter (\<lambda>r. ev_pubkey (er_event r) \<noteq> pk) (d_events db),
       d_media := filter (\<lambda>r. sm_pubkey r \<noteq> pk) (d_media db),
       d_slots := filter (\<lambda>r. sl_pubkey r \<noteq> pk) (d_slots db)\<rparr> else db)"
  using length_filter_key [OF assms, of pk]
  by (auto simp: owners_delete_def tbl_delete_def fk_ok_iff)

lemma db_inv_owners_delete [db_keep]: "db_inv db \<Longrightarrow> db_inv (snd (owners_delete pk db))"
  by (auto simp: owners_delete_eq db_inv_def fk_ok_iff)

lemma db_inv_pairings_insert [db_keep]:
  "db_inv db \<Longrightarrow> pairings_insert p db = Inr db' \<Longrightarrow> db_inv db'"
  by (auto simp: pairings_insert_def tbl_insert_def db_inv_def tbl_keys_append_fresh split: if_splits)

lemma db_inv_pairings_update: "db_inv db \<Longrightarrow> db_inv (snd (pairings_update P at db))"
proof -
  assume h: "db_inv db"
  have "map pp_token (map (\<lambda>p. if P p then p\<lparr>pp_consumed_at := Some at\<rparr> else p) ps) = map pp_token ps" for ps
    by (induction ps) auto
  with h show ?thesis
    unfolding pairings_update_def snd_conv
    by (intro db_inv_pairings) (simp_all add: tbl_keys_def db_inv_def del: map_map)
qed

lemma db_inv_consume [db_keep]:
  "db_inv db \<Longrightarrow> db_inv (snd (mark_consumed tok at db))"
  "db_inv db \<Longrightarrow> db_inv (snd (consume_all_unconsumed at db))"
  by (simp_all add: mark_consumed_def consume_all_unconsumed_def db_inv_pairings_update)

lemma db_inv_prune [db_keep]: "db_inv db \<Longrightarrow> db_inv (snd (prune_expired now db))"
  by (auto simp: prune_expired_def db_inv_def)

lemma db_inv_slots_loop:
  "db_inv db \<Longrightarrow> slots_insert_loop pk now slots db = Inr db' \<Longrightarrow> db_inv db'"
proof (induction pk now slots db rule: slots_insert_loop.induct)
  case (2 pk now h m slots db)
  let ?row = "\<lparr>sl_pubkey = pk, sl_token_hash = h, sl_max_participants = m, sl_updated_at = now\<rparr>"
  from 2(3) have f: "fk_ok db pk" "tbl_find sl_key (sl_key ?row) (d_slots db) = None"
    "slots_insert_loop pk now slots (db\<lparr>d_slots := d_slots db @ [?row]\<rparr>) = Inr db'"
    by (auto simp: tbl_insert_def split: if_splits)
  have "db_inv (db\<lparr>d_slots := d_slots db @ [?row]\<rparr>)"
    using 2(2) f(1,2) by (auto simp: db_inv_def intro!: tbl_keys_append_fresh)
  with 2(1) f show ?case by (auto simp: tbl_insert_def)
qed simp

lemma db_inv_replace_set [db_keep]:
  assumes "db_inv db" "replace_set pk slots now db = Inr db'" shows "db_inv db'"
proof -
  have "db_inv (db\<lparr>d_slots := filter (\<lambda>r. sl_pubkey r \<noteq> pk) (d_slots db)\<rparr>)"
    by (rule db_inv_slots) (use assms(1) in \<open>auto simp: db_inv_def\<close>)
  with assms(2) show ?thesis unfolding replace_set_def by (metis db_inv_slots_loop)
qed

lemma dao_step_inv: "dao_step db db' \<Longrightarrow> db_inv db \<Longrightarrow> db_inv db'"
  by (induction rule: dao_step.induct) (auto intro: db_keep)

section \<open>Closed example database\<close>

definition ex_owner :: "byte \<Rightarrow> u16 \<Rightarrow> paired_owner" where
  "ex_owner k port = \<lparr>po_pubkey = [k], po_label = None, po_paired_at = 0,
     po_relay_onion_address = ''o.onion'', po_local_port = port, po_storage_cap_bytes = None\<rparr>"

definition ex_event :: "byte \<Rightarrow> str \<Rightarrow> int \<Rightarrow> served_event" where
  "ex_event k i t = mk_event [k] i t 0 [] [1, 2, 3]"

definition ex_db :: db where
  "ex_db = \<lparr>d_owners = [ex_owner 1 9000, ex_owner 2 9001], d_pairings = [],
     d_events = [event_to_row (ex_event 1 ''b'' 5), event_to_row (ex_event 1 ''a'' 5),
                 event_to_row (ex_event 2 ''a'' 4)],
     d_media = [\<lparr>sm_pubkey = [1], sm_hash = ''h'', sm_size = 4, sm_created_at = 0, sm_path = ''p''\<rparr>],
     d_creds = None,
     d_slots = [\<lparr>sl_pubkey = [2], sl_token_hash = [9], sl_max_participants = None, sl_updated_at = 0\<rparr>]\<rparr>"

lemmas ex_defs = ex_db_def ex_owner_def ex_event_def mk_event_def event_to_row_def

lemma ex_db_inv: "db_inv ex_db"
  by (simp add: db_inv_def ex_defs tbl_keys_def fk_ok_def tbl_find_def)

section \<open>Behaviour of the operations\<close>

lemma events_insert_find:
  assumes "events_insert e db = Inr (b, db')"
  shows "tbl_find er_key k (d_events db') =
    (case tbl_find er_key k (d_events db) of
       Some r \<Rightarrow> Some r
     | None \<Rightarrow> if k = (ev_pubkey e, ev_id e) then Some (event_to_row e) else None)"
  using assms
proof (cases rule: events_insert_cases)
  case new
  then show ?thesis
    by (simp add: tbl_find_append event_to_row_def split: option.splits) (simp add: tbl_find_def)
qed (auto split: option.splits)

lemma events_insert_known:
  "tbl_find er_key (ev_pubkey e, ev_id e) (d_events db) \<noteq> None \<Longrightarrow> events_insert e db = Inr (False, db)"
  by (simp add: events_insert_def tbl_insert_ignore_def event_to_row_def)

lemma find_first:
  "find P xs = Some x \<longleftrightarrow> (\<exists>us vs. xs = us @ x # vs \<and> P x \<and> (\<forall>u \<in> set us. \<not> P u))"
proof (induction xs)
  case (Cons a xs)
  show ?case
  proof (cases "P a")
    case True
    then show ?thesis by (auto simp: Cons_eq_append_conv)
  next
    case False
    then show ?thesis using Cons by (auto simp: Cons_eq_append_conv) (metis append_Cons set_ConsD)
  qed
qed simp

lemma set_port_range: "p \<in> set (port_range lo hi) \<longleftrightarrow> lo \<le> p \<and> p \<le> hi"
proof
  assume "p \<in> set (port_range lo hi)"
  then obtain n where n: "p = word_of_nat n" "unat lo \<le> n" "n \<le> unat hi"
    by (auto simp: port_range_def)
  moreover have "n < 2 ^ 16" using n(3) unsigned_less [where 'a = nat, of hi] by simp
  ultimately show "lo \<le> p \<and> p \<le> hi" by (simp add: word_le_nat_alt unat_of_nat)
next
  assume "lo \<le> p \<and> p \<le> hi"
  then show "p \<in> set (port_range lo hi)"
    unfolding port_range_def set_map
    by (intro image_eqI [of _ _ "unat p"]) (simp_all add: word_le_nat_alt less_Suc_eq_le del: upt_Suc)
qed

lemma port_range_before:
  assumes "port_range lo hi = us @ p # vs" shows "q \<in> set us \<longleftrightarrow> lo \<le> q \<and> q < p"
proof -
  let ?ns = "[unat lo..<Suc (unat hi)]"
  have u: "unat (word_of_nat n :: u16) = n" if "n \<in> set ?ns" for n
    using that unsigned_less [where 'a = nat, of hi] by (auto simp: unat_of_nat simp del: upt_Suc)
  have "map unat (port_range lo hi) = ?ns"
    unfolding port_range_def map_map by (rule map_idI) (simp add: u)
  with assms have s: "sorted_wrt (<) (map unat us @ unat p # map unat vs)"
    by (metis list.simps(9) map_append sorted_wrt_upt)
  have in_r: "q \<in> set us \<or> q = p \<or> q \<in> set vs \<longleftrightarrow> lo \<le> q \<and> q \<le> hi"
    using set_port_range [of q lo hi] assms by auto
  have "p \<le> hi" using set_port_range [of p lo hi] assms by simp
  with s in_r show ?thesis
    by (auto simp: sorted_wrt_append word_less_nat_alt word_le_nat_alt)
qed

lemma slots_loop_ok:
  "slots_insert_loop pk now slots db =
     (if slots = [] \<or> (fk_ok db pk \<and> distinct (map fst slots) \<and>
          (\<forall>h \<in> fst ` set slots. tbl_find sl_key (pk, h) (d_slots db) = None))
      then Inr (db\<lparr>d_slots := d_slots db @ map (\<lambda>(h, m). \<lparr>sl_pubkey = pk, sl_token_hash = h,
             sl_max_participants = m, sl_updated_at = now\<rparr>) slots\<rparr>)
      else Inl Constraint)"
proof (induction slots arbitrary: db)
  case (Cons hm slots)
  obtain h m where hm: "hm = (h, m)" by (cases hm)
  have f: "tbl_find sl_key (pk, h') (ss @ [\<lparr>sl_pubkey = pk, sl_token_hash = h, sl_max_participants = m, sl_updated_at = now\<rparr>]) = None
      \<longleftrightarrow> tbl_find sl_key (pk, h') ss = None \<and> h' \<noteq> h" for h' ss
    by (auto simp: tbl_find_None)
  show ?case
    by (auto simp: hm Cons.IH tbl_insert_def f split: if_splits)
qed simp

lemma replace_set_eq:
  "replace_set pk slots now db =
     (if slots = [] \<or> (fk_ok db pk \<and> distinct (map fst slots))
      then Inr (db\<lparr>d_slots := filter (\<lambda>r. sl_pubkey r \<noteq> pk) (d_slots db) @
             map (\<lambda>(h, m). \<lparr>sl_pubkey = pk, sl_token_hash = h,
                sl_max_participants = m, sl_updated_at = now\<rparr>) slots\<rparr>)
      else Inl Constraint)"
proof -
  have "tbl_find sl_key (pk, h) (filter (\<lambda>r. sl_pubkey r \<noteq> pk) ss) = None" for h ss
    by (auto simp: tbl_find_None)
  then show ?thesis by (simp add: replace_set_def slots_loop_ok)
qed

lemma delete_count:
  assumes "tbl_keys er_key es"
  shows "length (filter (\<lambda>r. ev_pubkey (er_event r) = pk \<and> ev_id (er_event r) \<in> set ids) es) =
    card {i \<in> set ids. tbl_find er_key (pk, i) es \<noteq> None}"
  using assms
proof (induction es)
  case (Cons r es)
  let ?S = "\<lambda>es. {i \<in> set ids. tbl_find er_key (pk, i) es \<noteq> None}"
  have new: "ev_id (er_event r) \<notin> ?S es" if "ev_pubkey (er_event r) = pk"
    using that Cons.prems by (auto simp: tbl_keys_def tbl_find_None)
  have "?S (r # es) = (if ev_pubkey (er_event r) = pk \<and> ev_id (er_event r) \<in> set ids
      then insert (ev_id (er_event r)) (?S es) else ?S es)"
    by (auto simp: tbl_find_def)
  moreover have "finite (?S es)" by simp
  ultimately show ?case using Cons new by (simp add: tbl_keys_def)
qed (simp add: tbl_find_def)

section \<open>Properties\<close>



text \<open>
  Storing an event is idempotent and the first push wins: a new key is stored, a known
  key leaves the database as it is, and storing the same event again stores nothing.
\<close>
theorem events_insert_idempotent:
  assumes "events_insert e db = Inr (b, db')"
  shows "(b \<longleftrightarrow> tbl_find er_key (ev_pubkey e, ev_id e) (d_events db) = None) \<and>
    (\<forall>k. tbl_find er_key k (d_events db') =
       (case tbl_find er_key k (d_events db) of
          Some r \<Rightarrow> Some r
        | None \<Rightarrow> if k = (ev_pubkey e, ev_id e) then Some (event_to_row e) else None)) \<and>
    events_insert e db' = Inr (False, db')"
proof (intro conjI allI)
  show "b \<longleftrightarrow> tbl_find er_key (ev_pubkey e, ev_id e) (d_events db) = None"
    using assms by (cases rule: events_insert_cases) auto
  show "events_insert e db' = Inr (False, db')"
    by (rule events_insert_known) (auto simp: events_insert_find [OF assms] split: option.splits)
qed (rule events_insert_find [OF assms])

lemma events_insert_idempotent_witness:
  "events_insert (ex_event 1 ''c'' 9) (ex_db\<lparr>d_events := d_events ex_db @ [event_to_row (ex_event 1 ''c'' 9)]\<rparr>) =
     Inr (False, ex_db\<lparr>d_events := d_events ex_db @ [event_to_row (ex_event 1 ''c'' 9)]\<rparr>)"
proof -
  have "events_insert (ex_event 1 ''c'' 9) ex_db =
      Inr (True, ex_db\<lparr>d_events := d_events ex_db @ [event_to_row (ex_event 1 ''c'' 9)]\<rparr>)"
    by (simp add: events_insert_def tbl_insert_ignore_def tbl_find_def fk_ok_def ex_defs)
  from events_insert_idempotent [OF this] show ?thesis by simp
qed

text \<open>
  Deleting a batch of ids removes exactly this Owner's events with those ids: the count
  is the number of distinct listed ids that were stored, every other row stays, and a
  second pass deletes nothing.
\<close>
theorem events_delete_batch_exact:
  assumes "db_inv db" and "events_delete_batch pk ids db = (n, db')"
  shows "n = int (card {i \<in> set ids. tbl_find er_key (pk, i) (d_events db) \<noteq> None}) \<and>
    (\<forall>q i. tbl_find er_key (q, i) (d_events db') =
       (if q = pk \<and> i \<in> set ids then None else tbl_find er_key (q, i) (d_events db))) \<and>
    fst (events_delete_batch pk ids db') = 0"
proof (intro conjI allI)
  let ?P = "\<lambda>r. ev_pubkey (er_event r) = pk \<and> ev_id (er_event r) \<in> set ids"
  have n: "n = int (length (filter ?P (d_events db)))" and d: "d_events db' = filter (\<lambda>r. \<not> ?P r) (d_events db)"
    using assms(2) by (auto simp: events_delete_batch_eq)
  show "n = int (card {i \<in> set ids. tbl_find er_key (pk, i) (d_events db) \<noteq> None})"
    using n delete_count assms(1) by (simp add: db_inv_def)
  show "tbl_find er_key (q, i) (d_events db') =
      (if q = pk \<and> i \<in> set ids then None else tbl_find er_key (q, i) (d_events db))" for q i
    using tbl_find_filter [of er_key "(q, i)" "\<lambda>(q, i). \<not> (q = pk \<and> i \<in> set ids)" "d_events db"]
    by (simp add: d)
  show "fst (events_delete_batch pk ids db') = 0"
    by (simp add: events_delete_batch_eq d filter_empty_conv)
qed

lemma events_delete_batch_exact_witness:
  "fst (events_delete_batch [1] [''a'', ''zz'', ''a''] (snd (events_delete_batch [1] [''a'', ''zz'', ''a''] ex_db))) = 0"
  by (rule events_delete_batch_exact [OF ex_db_inv prod.collapse [symmetric], THEN conjunct2, THEN conjunct2])

text \<open>
  Removing an Owner removes everything stored for them and nothing else: no event, media
  row or voice slot of the Owner remains, and every other Owner's rows are untouched.
\<close>
theorem owners_delete_cascade:
  assumes "db_inv db" and "owners_delete pk db = (n, db')"
  shows "(n = 1 \<longleftrightarrow> owners_get pk db \<noteq> None) \<and> owners_get pk db' = None \<and>
    events_of pk db' = [] \<and> media_rows_for_owner pk db' = [] \<and> slots_for_owner pk db' = [] \<and>
    (\<forall>q. q \<noteq> pk \<longrightarrow> owners_get q db' = owners_get q db \<and> events_of q db' = events_of q db \<and>
       media_rows_for_owner q db' = media_rows_for_owner q db \<and>
       slots_for_owner q db' = slots_for_owner q db) \<and>
    d_pairings db' = d_pairings db \<and> d_creds db' = d_creds db"
proof -
  have k: "tbl_keys po_pubkey (d_owners db)" using assms(1) by (simp add: db_inv_def)
  have ff: "filter (\<lambda>x. f x \<noteq> pk \<and> f x = q) xs = filter (\<lambda>x. f x = q) xs" if "q \<noteq> pk"
    for f :: "'a \<Rightarrow> bytes" and q xs
    using that by (intro filter_cong) auto
  show ?thesis
  proof (cases "fk_ok db pk")
    case True
    then have db': "db' = db\<lparr>d_owners := filter (\<lambda>w. po_pubkey w \<noteq> pk) (d_owners db),
       d_events := filter (\<lambda>r. ev_pubkey (er_event r) \<noteq> pk) (d_events db),
       d_media := filter (\<lambda>r. sm_pubkey r \<noteq> pk) (d_media db),
       d_slots := filter (\<lambda>r. sl_pubkey r \<noteq> pk) (d_slots db)\<rparr>" and n: "n = 1"
      using assms(2) by (simp_all add: owners_delete_eq [OF k])
    have "owners_get q db' = (if q = pk then None else owners_get q db)" for q
      using tbl_find_delete [of po_pubkey q pk "d_owners db"]
      by (simp add: db' owners_get_def tbl_delete_def)
    then show ?thesis
      using True n
      by (auto simp: db' fk_ok_def owners_get_def events_of_def media_rows_for_owner_def
          slots_for_owner_def filter_empty_conv ff)
  next
    case False
    then have db': "db' = db" and n: "n = 0" using assms(2) by (simp_all add: owners_delete_eq [OF k])
    have "events_of pk db = []" "media_rows_for_owner pk db = []" "slots_for_owner pk db = []"
      using False assms(1)
      by (auto simp: db_inv_def events_of_def media_rows_for_owner_def slots_for_owner_def filter_empty_conv)
    then show ?thesis using False by (simp add: db' n fk_ok_def owners_get_def)
  qed
qed

lemma owners_delete_cascade_witness:
  "events_of [1] (snd (owners_delete [1] ex_db)) = [] \<and>
   events_of [2] (snd (owners_delete [1] ex_db)) = [event_to_row (ex_event 2 ''a'' 4)]"
proof -
  have "events_of [2] ex_db = [event_to_row (ex_event 2 ''a'' 4)]"
    by (simp add: events_of_def ex_defs)
  then show ?thesis
    using owners_delete_cascade [OF ex_db_inv prod.collapse [symmetric], of "[1]"] by simp
qed

text \<open>
  Port allocation picks the lowest port of the configured range that no Owner uses, and
  fails exactly when every port of the range is taken.
\<close>
theorem lowest_free_port_correct:
  "case lowest_free_port lo hi used of
     Some p \<Rightarrow> lo \<le> p \<and> p \<le> hi \<and> p \<notin> set used \<and> {q. lo \<le> q \<and> q < p} \<subseteq> set used
   | None \<Rightarrow> {q. lo \<le> q \<and> q \<le> hi} \<subseteq> set used"
proof (cases "lowest_free_port lo hi used")
  case None
  then have "{q. lo \<le> q \<and> q \<le> hi} \<subseteq> set used"
    by (auto simp: lowest_free_port_def find_None_iff set_port_range)
  with None show ?thesis by simp
next
  case (Some p)
  then obtain us vs where r: "port_range lo hi = us @ p # vs" and p: "p \<notin> set used" "\<forall>u \<in> set us. u \<in> set used"
    by (auto simp: lowest_free_port_def find_first)
  have "lo \<le> p \<and> p \<le> hi" using set_port_range [of p lo hi] r by simp
  with Some p port_range_before [OF r] show ?thesis by auto
qed

text \<open>
  Pushing a slot set replaces this Owner's set and no one else's. It succeeds exactly
  when the token hashes are distinct and the Owner is paired (an empty set always does);
  otherwise the transaction fails and nothing changes.
\<close>
theorem replace_set_exact:
  "(case replace_set pk slots now db of
      Inl e \<Rightarrow> e = Constraint \<and> slots \<noteq> [] \<and> \<not> (fk_ok db pk \<and> distinct (map fst slots))
    | Inr db' \<Rightarrow>
        (slots = [] \<or> fk_ok db pk \<and> distinct (map fst slots)) \<and>
        map (\<lambda>r. (sl_token_hash r, sl_max_participants r)) (filter (\<lambda>r. sl_pubkey r = pk) (d_slots db')) = slots \<and>
        filter (\<lambda>r. sl_pubkey r \<noteq> pk) (d_slots db') = filter (\<lambda>r. sl_pubkey r \<noteq> pk) (d_slots db) \<and>
        slots_count_for_owner pk db' = int (length slots))"
proof -
  let ?mk = "\<lambda>(h, m). \<lparr>sl_pubkey = pk, sl_token_hash = h, sl_max_participants = m, sl_updated_at = now\<rparr>"
  have a: "filter (\<lambda>r. sl_pubkey r = pk) (map ?mk slots) = map ?mk slots"
    "filter (\<lambda>r. sl_pubkey r \<noteq> pk) (map ?mk slots) = []"
    by (induction slots) auto
  have b: "map (\<lambda>r. (sl_token_hash r, sl_max_participants r)) (map ?mk slots) = slots"
    by (induction slots) auto
  show ?thesis
    using a b by (simp add: replace_set_eq slots_count_for_owner_def del: map_map)
qed

section \<open>Accounting and migration\<close>

text \<open>The bytes stored for an Owner and for the whole host, as unbounded integers.\<close>

definition stored_owner :: "bytes \<Rightarrow> db \<Rightarrow> int" where
  "stored_owner pk db = tbl_sum er_size (events_of pk db) + tbl_sum sm_size (media_rows_for_owner pk db)"

definition stored_host :: "db \<Rightarrow> int" where
  "stored_host db = tbl_sum er_size (d_events db) + tbl_sum sm_size (d_media db)"

text \<open>No row has a negative size.\<close>

definition sizes_ok :: "db \<Rightarrow> bool" where
  "sizes_ok db \<longleftrightarrow> (\<forall>r \<in> set (d_events db). 0 \<le> er_size r) \<and> (\<forall>r \<in> set (d_media db). 0 \<le> sm_size r)"

lemma sizes_okI: "db_inv db \<Longrightarrow> (\<And>r. r \<in> set (d_media db) \<Longrightarrow> 0 \<le> sm_size r) \<Longrightarrow> sizes_ok db"
  by (auto simp: sizes_ok_def db_inv_def)

lemma stored_bounds:
  assumes "sizes_ok db"
  shows "0 \<le> tbl_sum er_size (events_of pk db)" "0 \<le> tbl_sum sm_size (media_rows_for_owner pk db)"
    "0 \<le> tbl_sum er_size (d_events db)" "0 \<le> tbl_sum sm_size (d_media db)"
    "tbl_sum er_size (events_of pk db) \<le> tbl_sum er_size (d_events db)"
    "tbl_sum sm_size (media_rows_for_owner pk db) \<le> tbl_sum sm_size (d_media db)"
  using assms
  by (auto simp: sizes_ok_def events_of_def media_rows_for_owner_def intro!: tbl_sum_nonneg tbl_sum_filter_le)

lemma stored_owner_le_host: "sizes_ok db \<Longrightarrow> 0 \<le> stored_owner pk db \<and> stored_owner pk db \<le> stored_host db"
  using stored_bounds(1,2,5,6) [of db pk] by (simp add: stored_owner_def stored_host_def)

lemma usage_exact:
  assumes "sizes_ok db" "stored_host db \<le> i64_max"
  shows "owner_usage pk db = Inr (stored_owner pk db)" "host_usage db = Inr (stored_host db)"
proof -
  note b = stored_bounds(1,2,5,6) [OF assms(1), of pk] stored_bounds(3,4) [OF assms(1)]
  have i: "in_i64 x" if "0 \<le> x" "x \<le> i64_max" for x
    using that by (simp add: in_i64_def i64_min_def)
  have "in_i64 (tbl_sum er_size (events_of pk db))" "in_i64 (tbl_sum sm_size (media_rows_for_owner pk db))"
    "in_i64 (tbl_sum er_size (d_events db))" "in_i64 (tbl_sum sm_size (d_media db))"
    "in_i64 (stored_owner pk db)" "in_i64 (stored_host db)"
    using b assms(2) by (auto intro!: i simp: stored_owner_def stored_host_def)
  then show "owner_usage pk db = Inr (stored_owner pk db)" "host_usage db = Inr (stored_host db)"
    by (simp_all add: owner_usage_def host_usage_def events_total_bytes_def media_total_bytes_def
        sql_sum_def res_bind_def stored_owner_def stored_host_def i64_wrap_id)
qed

lemma check_capacity_exact:
  assumes "sizes_ok db" "0 \<le> incoming" "stored_host db + incoming \<le> i64_max"
  shows "check_capacity pk incoming owner_cap disk_cap db =
    Inr (if 0 < owner_cap \<and> owner_cap < stored_owner pk db + incoming then OwnerExceeded
         else if 0 < disk_cap \<and> disk_cap < stored_host db + incoming then HostExceeded
         else Cap_Ok)"
proof -
  have o: "0 \<le> stored_owner pk db" "stored_owner pk db \<le> stored_host db"
    using stored_owner_le_host [OF assms(1)] by auto
  then have "in_i64 (stored_owner pk db + incoming)" "in_i64 (stored_host db + incoming)"
    using assms(2,3) by (simp_all add: in_i64_def i64_min_def)
  then show ?thesis
    using usage_exact(1) [of db pk] usage_exact(2) [of db] assms by (simp add: check_capacity_def res_bind_def i64_wrap_id)
qed

text \<open>A schema whose recorded version tells which columns and tables it has.\<close>

definition schema_consistent :: "schema \<Rightarrow> bool" where
  "schema_consistent s \<longleftrightarrow>
     0 \<le> sc_version s \<and> sc_version s \<le> 4 \<and>
     (1 \<le> sc_version s \<longrightarrow> sc_base s) \<and> (sc_size_col s \<longleftrightarrow> 2 \<le> sc_version s) \<and>
     (sc_type_col s \<longleftrightarrow> 3 \<le> sc_version s) \<and> (sc_slots s \<longleftrightarrow> 4 \<le> sc_version s) \<and>
     (sc_size_col s \<longrightarrow> sc_sizes s = map (\<lambda>p. int (length p)) (sc_payloads s))"

lemmas migration_defs = migrate_def migration_0001_def migration_0002_def migration_0003_def
  migration_0004_def res_bind_def Let_def

text \<open>
  C34: The capacity check compares exact sums: with room below the 64-bit range, it reports
  the Owner's cap first, the host's cap second, and accepts exactly when the stored bytes
  plus the incoming ones stay within both (a cap of zero or less is no cap).
\<close>
theorem check_capacity_correct:
  assumes "db_inv db" "\<forall>r \<in> set (d_media db). 0 \<le> sm_size r"
    and "0 \<le> incoming" "stored_host db + incoming \<le> i64_max"
  shows "check_capacity pk incoming owner_cap disk_cap db =
    Inr (if 0 < owner_cap \<and> owner_cap < stored_owner pk db + incoming then OwnerExceeded
         else if 0 < disk_cap \<and> disk_cap < stored_host db + incoming then HostExceeded
         else Cap_Ok)"
  using assms by (intro check_capacity_exact sizes_okI) auto

lemma check_capacity_correct_witness:
  "check_capacity [1] 5 15 0 ex_db = Inr Cap_Ok \<and> check_capacity [1] 6 15 0 ex_db = Inr OwnerExceeded \<and>
   check_capacity [1] 6 0 18 ex_db = Inr HostExceeded"
proof -
  have s: "stored_owner [1] ex_db = 10" "stored_host ex_db = 13"
    by (simp_all add: stored_owner_def stored_host_def events_of_def media_rows_for_owner_def ex_defs)
  have m: "\<forall>r \<in> set (d_media ex_db). 0 \<le> sm_size r" by (simp add: ex_defs)
  have "(5::int) \<ge> 0" "(6::int) \<ge> 0" "stored_host ex_db + 5 \<le> i64_max" "stored_host ex_db + 6 \<le> i64_max"
    by (simp_all add: s i64_max_def)
  then show ?thesis
    using check_capacity_correct [OF ex_db_inv m] by (simp add: s)
qed

text \<open>
  Migration brings a database of any released version to version 4 with every column and
  table, keeps every stored payload, and fills the size column with the payload lengths.
\<close>
theorem migrate_upgrades:
  assumes "schema_consistent s"
  shows "\<exists>s'. migrate s = Inr s' \<and> schema_consistent s' \<and> sc_version s' = 4 \<and>
    sc_payloads s' = sc_payloads s"
  using assms by (auto simp: schema_consistent_def migration_defs)

lemma migrate_upgrades_witness:
  "\<exists>s'. migrate \<lparr>sc_version = 1, sc_base = True, sc_size_col = False, sc_type_col = False,
      sc_slots = False, sc_payloads = [[1, 2]], sc_sizes = []\<rparr> = Inr s' \<and> schema_consistent s' \<and>
     sc_version s' = 4 \<and> sc_payloads s' = [[1, 2]]"
  using migrate_upgrades [of "\<lparr>sc_version = 1, sc_base = True, sc_size_col = False,
    sc_type_col = False, sc_slots = False, sc_payloads = [[1, 2]], sc_sizes = []\<rparr>"]
  by (simp add: schema_consistent_def)

text \<open>
  The version is recorded only after the last step, outside any transaction: a process
  that stops after the second migration and before that leaves a database on which every
  later migration fails.
\<close>
theorem migrate_interrupted:
  assumes "sc_version s < 2" "migration_0002 s = Inr s'"
  shows "sc_version s' = sc_version s \<and>
    migrate s' = Inl (Other_fault ''duplicate column name: size'')"
  using assms by (auto simp: migration_defs split: if_splits)

lemma migrate_interrupted_witness:
  "migrate \<lparr>sc_version = 1, sc_base = True, sc_size_col = True, sc_type_col = False,
      sc_slots = False, sc_payloads = [[1, 2]], sc_sizes = [2]\<rparr> =
     Inl (Other_fault ''duplicate column name: size'')"
  using migrate_interrupted [of "\<lparr>sc_version = 1, sc_base = True, sc_size_col = False,
    sc_type_col = False, sc_slots = False, sc_payloads = [[1, 2]], sc_sizes = []\<rparr>"]
  by (simp add: migration_0002_def)

end
