(* ===== verification/Paging.thy ===== *)
theory Paging
  imports Storage
begin

text \<open>
  Keyset pagination, the contract behind \<open>GET /events\<close>, \<open>GET /manifest\<close> and
  \<open>GET /media-manifest\<close>: a page is a prefix of the rows after the cursor, it says whether
  rows remain, and it is never empty while they do. The locale \<open>keyset_paging\<close> proves once
  what a client that follows the cursor obtains, also while rows come and go between two
  pages; each of the three queries interprets it.
\<close>

section \<open>Definitions\<close>

definition rows_after :: "('c \<Rightarrow> 'c \<Rightarrow> bool) \<Rightarrow> ('a \<Rightarrow> 'c) \<Rightarrow> 'c option \<Rightarrow> 'a list \<Rightarrow> 'a list" where
  "rows_after before pos c rs =
     (case c of None \<Rightarrow> rs | Some p \<Rightarrow> filter (\<lambda>x. before p (pos x)) rs)"

text \<open>
  A client: it asks for the page after its cursor and, while the page says that rows
  remain, again after the last row it got. The \<open>k\<close>-th request may meet another database;
  the fuel counts requests.
\<close>

fun fetch_seq ::
  "nat \<Rightarrow> (nat \<Rightarrow> 'c option \<Rightarrow> 'a list \<times> bool) \<Rightarrow> ('a \<Rightarrow> 'c) \<Rightarrow> nat \<Rightarrow> 'c option \<Rightarrow> 'a list option" where
  "fetch_seq 0 pg pos k c = None"
| "fetch_seq (Suc n) pg pos k c =
     (let (xs, older) = pg k c
      in if older then map_option ((@) xs) (fetch_seq n pg pos (Suc k) (Some (pos (last xs))))
         else Some xs)"

text \<open>The rows \<open>payloads_loop\<close> puts on a page.\<close>

fun budget_take :: "int \<Rightarrow> int \<Rightarrow> event_row list \<Rightarrow> nat \<Rightarrow> int \<Rightarrow> event_row list" where
  "budget_take max_rows byte_budget [] k bytes = []"
| "budget_take max_rows byte_budget (r # rows) k bytes =
     (if k \<noteq> 0 \<and> (max_rows \<le> int k \<or> byte_budget < i64_wrap (bytes + er_size r)) then []
      else r # budget_take max_rows byte_budget rows (Suc k) (i64_wrap (bytes + er_size r)))"

definition event_rows :: "bytes \<Rightarrow> db \<Rightarrow> event_row list" where
  "event_rows pk db = sort_key er_pos (events_of pk db)"

definition event_page :: "bytes \<Rightarrow> int \<Rightarrow> int \<Rightarrow> db \<Rightarrow> (int \<times> str) option \<Rightarrow> event_row list \<times> bool" where
  "event_page pk max_rows byte_budget db c =
     (let rs = rows_after (<) er_pos c (event_rows pk db);
          ys = budget_take max_rows byte_budget rs 0 0
      in (ys, length ys < length rs))"

text \<open>
  The manifest and media queries fetch one row more than a page holds, to learn whether
  rows remain.
\<close>

definition limit_page :: "nat \<Rightarrow> 'a list \<Rightarrow> 'a list \<times> bool" where
  "limit_page n rs = (take n rs, n < length (take (Suc n) rs))"

definition row_entry :: "event_row \<Rightarrow> manifest_entry" where
  "row_entry r = \<lparr>me_id = ev_id (er_event r), me_created_at = ev_created_at (er_event r)\<rparr>"

definition manifest_rows :: "bytes \<Rightarrow> int option \<Rightarrow> db \<Rightarrow> manifest_entry list" where
  "manifest_rows pk since db =
     map row_entry (rev (sort_key er_pos (filter
       (\<lambda>r. case since of None \<Rightarrow> True | Some s \<Rightarrow> s \<le> ev_created_at (er_event r)) (events_of pk db))))"

abbreviation me_pos :: "manifest_entry \<Rightarrow> int \<times> str" where
  "me_pos e \<equiv> (me_created_at e, me_id e)"

definition manifest_limit_page ::
  "bytes \<Rightarrow> int option \<Rightarrow> nat \<Rightarrow> db \<Rightarrow> (int \<times> str) option \<Rightarrow> manifest_entry list \<times> bool" where
  "manifest_limit_page pk since n db c =
     limit_page (Suc n) (rows_after (\<lambda>p q. q < p) me_pos c (manifest_rows pk since db))"

definition hash_rows :: "bytes \<Rightarrow> db \<Rightarrow> str list" where
  "hash_rows pk db = sort (map sm_hash (media_rows_for_owner pk db))"

definition hash_limit_page :: "bytes \<Rightarrow> nat \<Rightarrow> db \<Rightarrow> str option \<Rightarrow> str list \<times> bool" where
  "hash_limit_page pk n db c = limit_page (Suc n) (rows_after (<) (\<lambda>h. h) c (hash_rows pk db))"

text \<open>The client of \<open>GET /events\<close>, on the query itself.\<close>

fun events_fetch ::
  "nat \<Rightarrow> bytes \<Rightarrow> int \<Rightarrow> int \<Rightarrow> (nat \<Rightarrow> db) \<Rightarrow> nat \<Rightarrow> (int \<times> str) option \<Rightarrow> served_payload list option" where
  "events_fetch 0 pk max_rows byte_budget s k c = None"
| "events_fetch (Suc n) pk max_rows byte_budget s k c =
     (let p = payloads_page pk (map_option fst c) (map_option snd c) max_rows byte_budget (s k)
      in case ep_next p of
           None \<Rightarrow> Some (ep_items p)
         | Some c' \<Rightarrow> map_option ((@) (ep_items p)) (events_fetch n pk max_rows byte_budget s (Suc k) (Some c')))"

section \<open>What a client obtains\<close>

locale keyset_paging =
  fixes inv :: "'s \<Rightarrow> bool"
    and rows :: "'s \<Rightarrow> 'a list"
    and pos :: "'a \<Rightarrow> 'c"
    and before :: "'c \<Rightarrow> 'c \<Rightarrow> bool"
    and page :: "'s \<Rightarrow> 'c option \<Rightarrow> 'a list \<times> bool"
  assumes before_irrefl: "\<not> before p p"
    and before_trans: "before p q \<Longrightarrow> before q r \<Longrightarrow> before p r"
    and rows_ordered: "inv s \<Longrightarrow> sorted_wrt (\<lambda>x y. before (pos x) (pos y)) (rows s)"
    and page_prefix: "inv s \<Longrightarrow> \<exists>zs. rows_after before pos c (rows s) = fst (page s c) @ zs \<and>
                        (snd (page s c) \<longleftrightarrow> zs \<noteq> [])"
    and page_progress: "inv s \<Longrightarrow> rows_after before pos c (rows s) \<noteq> [] \<Longrightarrow> fst (page s c) \<noteq> []"
begin

lemma after_ordered:
  "inv s \<Longrightarrow> sorted_wrt (\<lambda>x y. before (pos x) (pos y)) (rows_after before pos c (rows s))"
  using rows_ordered [of s] by (auto simp: rows_after_def sorted_wrt_filter split: option.splits)

lemma in_after:
  "x \<in> set (rows_after before pos c (rows s)) \<longleftrightarrow>
     x \<in> set (rows s) \<and> (case c of None \<Rightarrow> True | Some p \<Rightarrow> before p (pos x))"
  by (auto simp: rows_after_def split: option.splits)

lemma before_asym: "before p q \<Longrightarrow> \<not> before q p"
  using before_irrefl before_trans by blast

lemma after_last:
  assumes "inv s" "rows_after before pos c (rows s) = xs @ zs" "xs \<noteq> []"
  shows "rows_after before pos (Some (pos (last xs))) (rows s) = zs"
proof -
  let ?l = "pos (last xs)"
  have srt: "sorted_wrt (\<lambda>x y. before (pos x) (pos y)) (xs @ zs)"
    using after_ordered [OF assms(1), of c] assms(2) by simp
  have l: "last xs \<in> set (rows_after before pos c (rows s))" using assms(2,3) by simp
  have "filter (\<lambda>x. before ?l (pos x)) (rows s) =
      filter (\<lambda>x. before ?l (pos x)) (rows_after before pos c (rows s))"
  proof (cases c)
    case (Some p)
    then have "before p ?l" using l by (simp add: in_after)
    then have "before ?l (pos x) \<Longrightarrow> before p (pos x)" for x using before_trans by blast
    then show ?thesis by (auto simp: Some rows_after_def intro: filter_cong)
  qed (simp add: rows_after_def)
  also have "\<dots> = filter (\<lambda>x. before ?l (pos x)) xs @ filter (\<lambda>x. before ?l (pos x)) zs"
    by (simp add: assms(2))
  also have "filter (\<lambda>x. before ?l (pos x)) zs = zs"
    using srt assms(3) by (auto simp: sorted_wrt_append intro: filter_True)
  also have "filter (\<lambda>x. before ?l (pos x)) xs = []"
  proof -
    have "xs = butlast xs @ [last xs]" using assms(3) by simp
    then have "\<forall>x \<in> set (butlast xs). before (pos x) ?l"
      using srt by (metis sorted_wrt_append list.set_intros(1))
    then have "\<forall>x \<in> set xs. \<not> before ?l (pos x)"
      using before_irrefl before_asym \<open>xs = butlast xs @ [last xs]\<close>
      by (metis Un_iff empty_iff empty_set set_ConsD set_append)
    then show ?thesis by (simp add: filter_empty_conv)
  qed
  finally show ?thesis by (simp add: rows_after_def)
qed

text \<open>With a database that does not change, the client ends with exactly the rows.\<close>

lemma fetch_complete_after:
  assumes "inv s" "length (rows_after before pos c (rows s)) < n"
  shows "fetch_seq n (\<lambda>_. page s) pos k c = Some (rows_after before pos c (rows s))"
  using assms(2)
proof (induction n arbitrary: c k)
  case (Suc n)
  obtain zs where z: "rows_after before pos c (rows s) = fst (page s c) @ zs" "snd (page s c) \<longleftrightarrow> zs \<noteq> []"
    using page_prefix [OF assms(1)] by blast
  show ?case
  proof (cases "zs = []")
    case True
    then show ?thesis using z by (simp add: case_prod_beta)
  next
    case False
    then have ne: "fst (page s c) \<noteq> []" using page_progress [OF assms(1)] z(1) by simp
    note a = after_last [OF assms(1) z(1) ne]
    have "length zs < n" using Suc.prems z(1) ne by (cases "fst (page s c)") auto
    then have "fetch_seq n (\<lambda>_. page s) pos (Suc k) (Some (pos (last (fst (page s c))))) = Some zs"
      using Suc.IH [of "Some (pos (last (fst (page s c))))" "Suc k"] a by simp
    then show ?thesis using z False by (simp add: case_prod_beta)
  qed
qed simp

lemma fetch_complete:
  "inv s \<Longrightarrow> length (rows s) < n \<Longrightarrow> fetch_seq n (\<lambda>_. page s) pos k None = Some (rows s)"
  using fetch_complete_after [of s None n k] by (simp add: rows_after_def)

text \<open>
  While rows come and go, a client that ends has every row that was there all along, and
  no position twice.
\<close>

lemma fetch_stable:
  assumes "\<And>i. inv (s i)" "fetch_seq n (\<lambda>i. page (s i)) pos k c = Some ys"
  shows "sorted_wrt (\<lambda>x y. before (pos x) (pos y)) ys \<and>
    (\<forall>y \<in> set ys. case c of None \<Rightarrow> True | Some p \<Rightarrow> before p (pos y)) \<and>
    (\<forall>r. (\<forall>i. r \<in> set (rows (s i))) \<and> (case c of None \<Rightarrow> True | Some p \<Rightarrow> before p (pos r)) \<longrightarrow> r \<in> set ys)"
  using assms(2)
proof (induction n arbitrary: c k ys)
  case (Suc n)
  let ?xs = "fst (page (s k) c)"
  obtain zs where z: "rows_after before pos c (rows (s k)) = ?xs @ zs" "snd (page (s k) c) \<longleftrightarrow> zs \<noteq> []"
    using page_prefix [OF assms(1)] by blast
  have srt: "sorted_wrt (\<lambda>x y. before (pos x) (pos y)) (?xs @ zs)"
    using after_ordered [OF assms(1), of c k] z(1) by simp
  have mem: "x \<in> set (?xs @ zs) \<longleftrightarrow> x \<in> set (rows (s k)) \<and> (case c of None \<Rightarrow> True | Some p \<Rightarrow> before p (pos x))" for x
    using in_after [of x c "s k"] z(1) by simp
  show ?case
  proof (cases "zs = []")
    case True
    then have "ys = ?xs" using Suc.prems z(2) by (simp add: case_prod_beta)
    then show ?thesis using True srt mem by auto
  next
    case False
    then have ne: "?xs \<noteq> []" using page_progress [OF assms(1)] z(1) by simp
    let ?l = "pos (last ?xs)"
    obtain ws where w: "fetch_seq n (\<lambda>i. page (s i)) pos (Suc k) (Some ?l) = Some ws" "ys = ?xs @ ws"
      using Suc.prems False z(2) by (auto simp: case_prod_beta)
    note ih = Suc.IH [OF w(1), simplified]
    have lm: "last ?xs \<in> set (?xs @ zs)" using ne by simp
    have le: "x = last ?xs \<or> before (pos x) ?l" if "x \<in> set ?xs" for x
    proof -
      have "?xs = butlast ?xs @ [last ?xs]" using ne by simp
      then have "\<forall>x \<in> set (butlast ?xs). before (pos x) ?l"
        using srt by (metis sorted_wrt_append list.set_intros(1))
      then show ?thesis using that \<open>?xs = butlast ?xs @ [last ?xs]\<close>
        by (metis Un_iff empty_iff empty_set set_ConsD set_append)
    qed
    have xw: "before (pos x) (pos y)" if "x \<in> set ?xs" "y \<in> set ws" for x y
      using le [OF that(1)] ih that(2) before_trans by blast
    have "sorted_wrt (\<lambda>x y. before (pos x) (pos y)) ys"
      using srt ih xw by (auto simp: w(2) sorted_wrt_append)
    moreover have "case c of None \<Rightarrow> True | Some p \<Rightarrow> before p (pos y)" if "y \<in> set ys" for y
      using that mem [of y] mem [of "last ?xs"] lm ih before_trans
      by (auto simp: w(2) split: option.splits)
    moreover have "r \<in> set ys" if r: "\<forall>i. r \<in> set (rows (s i))" "case c of None \<Rightarrow> True | Some p \<Rightarrow> before p (pos r)" for r
    proof -
      have "r \<in> set (?xs @ zs)" using mem r by blast
      moreover have "before ?l (pos r)" if "r \<in> set zs"
        using srt that ne by (auto simp: sorted_wrt_append)
      ultimately show ?thesis using ih r(1) by (auto simp: w(2))
    qed
    ultimately show ?thesis by blast
  qed
qed simp

end

section \<open>The three queries are keyset pagination\<close>

lemma strict_sort_key:
  assumes "distinct (map f xs)"
  shows "sorted_wrt (\<lambda>x y. f x < f y) (sort_key f xs)"
proof -
  have "distinct (map f (sort_key f xs))"
    using assms by (metis distinct_map distinct_sort set_sort)
  then have "sorted_wrt (<) (map f (sort_key f xs))"
    by (simp add: strict_sorted_iff sorted_sort_key)
  then show ?thesis by (simp add: sorted_wrt_map)
qed

lemma er_pos_distinct: "db_inv db \<Longrightarrow> distinct (map er_pos (filter P (events_of pk db)))"
proof -
  assume "db_inv db"
  then have "distinct (map er_key (events_of pk db))"
    by (simp add: db_inv_def tbl_keys_def events_of_def distinct_map_filter)
  moreover have "\<forall>r \<in> set (events_of pk db). ev_pubkey (er_event r) = pk" by (simp add: events_of_def)
  ultimately have "distinct (map er_pos (events_of pk db))"
    by (auto simp: distinct_map inj_on_def)
  then show ?thesis by (rule distinct_map_filter)
qed

lemma budget_take_prefix: "\<exists>zs. rs = budget_take m b rs k bytes @ zs"
  by (induction m b rs k bytes rule: budget_take.induct) auto

lemma budget_take_page:
  "\<exists>zs. rs = budget_take m b rs k bytes @ zs \<and> (length (budget_take m b rs k bytes) < length rs \<longleftrightarrow> zs \<noteq> [])"
proof -
  obtain zs where z: "rs = budget_take m b rs k bytes @ zs" using budget_take_prefix by blast
  have "length rs = length (budget_take m b rs k bytes) + length zs"
    by (subst z) (rule length_append)
  then show ?thesis using z by (intro exI [of _ zs]) auto
qed

lemma budget_take_0: "rs \<noteq> [] \<Longrightarrow> budget_take m b rs 0 bytes \<noteq> []"
  by (cases rs) auto

lemma limit_page_prefix: "\<exists>zs. rs = fst (limit_page n rs) @ zs \<and> (snd (limit_page n rs) \<longleftrightarrow> zs \<noteq> [])"
  by (rule exI [of _ "drop n rs"]) (auto simp: limit_page_def)

lemma limit_page_progress: "rs \<noteq> [] \<Longrightarrow> fst (limit_page (Suc n) rs) \<noteq> []"
  by (simp add: limit_page_def)

interpretation ev: keyset_paging db_inv "event_rows pk" er_pos "(<)" "event_page pk m b" for pk m b
proof
  fix s :: db and c
  show "db_inv s \<Longrightarrow> sorted_wrt (\<lambda>x y. er_pos x < er_pos y) (event_rows pk s)"
    unfolding event_rows_def by (rule strict_sort_key) (use er_pos_distinct [of s "\<lambda>_. True"] in simp)
  let ?rs = "rows_after (<) er_pos c (event_rows pk s)"
  show "\<exists>zs. ?rs = fst (event_page pk m b s c) @ zs \<and> (snd (event_page pk m b s c) \<longleftrightarrow> zs \<noteq> [])"
    unfolding event_page_def Let_def fst_conv snd_conv by (rule budget_take_page)
  show "?rs \<noteq> [] \<Longrightarrow> fst (event_page pk m b s c) \<noteq> []"
    by (simp add: event_page_def Let_def budget_take_0)
qed (rule less_irrefl, rule less_trans)

interpretation mf: keyset_paging db_inv "manifest_rows pk since" me_pos "\<lambda>p q. q < p"
  "manifest_limit_page pk since n" for pk since n
proof
  fix s :: db and c
  assume h: "db_inv s"
  let ?f = "filter (\<lambda>r. case since of None \<Rightarrow> True | Some s \<Rightarrow> s \<le> ev_created_at (er_event r)) (events_of pk s)"
  have "sorted_wrt (\<lambda>x y. er_pos x < er_pos y) (sort_key er_pos ?f)"
    by (rule strict_sort_key) (rule er_pos_distinct [OF h])
  then show "sorted_wrt (\<lambda>x y. me_pos y < me_pos x) (manifest_rows pk since s)"
    unfolding manifest_rows_def by (simp add: sorted_wrt_map sorted_wrt_rev row_entry_def)
next
  fix s :: db and c
  show "\<exists>zs. rows_after (\<lambda>p q. q < p) me_pos c (manifest_rows pk since s) =
      fst (manifest_limit_page pk since n s c) @ zs \<and> (snd (manifest_limit_page pk since n s c) \<longleftrightarrow> zs \<noteq> [])"
    unfolding manifest_limit_page_def by (rule limit_page_prefix)
  show "rows_after (\<lambda>p q. q < p) me_pos c (manifest_rows pk since s) \<noteq> [] \<Longrightarrow>
      fst (manifest_limit_page pk since n s c) \<noteq> []"
    unfolding manifest_limit_page_def by (rule limit_page_progress)
qed (rule less_irrefl, rule less_trans)

interpretation mh: keyset_paging db_inv "hash_rows pk" "\<lambda>h. h" "(<)" "hash_limit_page pk n" for pk n
proof
  fix s :: db and c
  assume h: "db_inv s"
  then have "distinct (map sm_key (media_rows_for_owner pk s))"
    by (simp add: db_inv_def tbl_keys_def media_rows_for_owner_def distinct_map_filter)
  moreover have "\<forall>r \<in> set (media_rows_for_owner pk s). sm_pubkey r = pk" by (simp add: media_rows_for_owner_def)
  ultimately have "distinct (map sm_hash (media_rows_for_owner pk s))"
    by (auto simp: distinct_map inj_on_def)
  then show "sorted_wrt (\<lambda>x y. x < y) (hash_rows pk s)"
    unfolding hash_rows_def by (simp add: strict_sorted_iff)
next
  fix s :: db and c
  show "\<exists>zs. rows_after (<) (\<lambda>h. h) c (hash_rows pk s) =
      fst (hash_limit_page pk n s c) @ zs \<and> (snd (hash_limit_page pk n s c) \<longleftrightarrow> zs \<noteq> [])"
    unfolding hash_limit_page_def by (rule limit_page_prefix)
  show "rows_after (<) (\<lambda>h. h) c (hash_rows pk s) \<noteq> [] \<Longrightarrow> fst (hash_limit_page pk n s c) \<noteq> []"
    unfolding hash_limit_page_def by (rule limit_page_progress)
qed (rule less_irrefl, rule less_trans)

lemma payloads_where_after:
  "payloads_where (map_option fst c) (map_option snd c) r \<longleftrightarrow>
     (case c of None \<Rightarrow> True | Some p \<Rightarrow> p < er_pos r)"
proof (cases c)
  case (Some p)
  then show ?thesis by (cases p) (auto simp: payloads_where_def Let_def less_prod_simp)
qed (simp add: payloads_where_def)

lemma payloads_loop_eq:
  "payloads_loop m b rs items bytes lst =
     (let ys = budget_take m b rs (length items) bytes
      in \<lparr>ep_items = items @ map row_payload ys,
          ep_next = if length ys < length rs then (if ys = [] then lst else Some (er_pos (last ys))) else None\<rparr>)"
  by (induction m b rs items bytes lst rule: payloads_loop.induct) (auto simp: Let_def)

lemma payloads_page_eq:
  "payloads_page pk (map_option fst c) (map_option snd c) m b db =
     (case event_page pk m b db c of (ys, older) \<Rightarrow>
       \<lparr>ep_items = map row_payload ys, ep_next = if older then Some (er_pos (last ys)) else None\<rparr>)"
proof -
  have r: "sort_key er_pos (filter (payloads_where (map_option fst c) (map_option snd c)) (events_of pk db)) =
      rows_after (<) er_pos c (event_rows pk db)"
    unfolding payloads_where_after [abs_def] by (cases c) (simp_all add: rows_after_def event_rows_def filter_sort)
  show ?thesis
    unfolding payloads_page_def r payloads_loop_eq event_page_def
    using budget_take_0 [of "rows_after (<) er_pos c (event_rows pk db)" m b 0]
    by (cases "rows_after (<) er_pos c (event_rows pk db) = []") (simp_all add: Let_def)
qed

lemma manifest_where_after:
  "manifest_where since (map_option fst c) (map_option snd c) r \<longleftrightarrow>
     (case since of None \<Rightarrow> True | Some s \<Rightarrow> s \<le> ev_created_at (er_event r)) \<and>
     (case c of None \<Rightarrow> True | Some p \<Rightarrow> er_pos r < p)"
proof (cases c)
  case (Some p)
  then show ?thesis by (cases p) (auto simp: manifest_where_def Let_def less_prod_simp)
qed (simp add: manifest_where_def Let_def)

lemma manifest_page_eq:
  "manifest_page pk since (map_option fst c) (map_option snd c) lim db =
     sql_limit lim (rows_after (\<lambda>p q. q < p) me_pos c (manifest_rows pk since db))"
proof -
  let ?S = "\<lambda>r. case since of None \<Rightarrow> True | Some s \<Rightarrow> s \<le> ev_created_at (er_event r)"
  let ?A = "\<lambda>r. case c of None \<Rightarrow> True | Some p \<Rightarrow> er_pos r < p"
  have "filter (manifest_where since (map_option fst c) (map_option snd c)) es = filter ?A (filter ?S es)" for es
    unfolding filter_filter by (rule filter_cong) (auto simp only: manifest_where_after)
  then have "manifest_page pk since (map_option fst c) (map_option snd c) lim db =
      map row_entry (sql_limit lim (rev (filter ?A (sort_key er_pos (filter ?S (events_of pk db))))))"
    by (simp add: manifest_page_def row_entry_def filter_sort del: filter_filter)
  also have "\<dots> = sql_limit lim (rows_after (\<lambda>p q. q < p) me_pos c (manifest_rows pk since db))"
    by (cases c) (simp_all add: rows_after_def manifest_rows_def sql_limit_def take_map rev_filter filter_map
        comp_def row_entry_def)
  finally show ?thesis .
qed

lemma hashes_page_eq:
  "media_hashes_page pk c lim db = sql_limit lim (rows_after (<) (\<lambda>h. h) c (hash_rows pk db))"
  by (cases c)
    (simp_all add: media_hashes_page_def rows_after_def hash_rows_def filter_sort filter_map comp_def)

lemma events_fetch_eq:
  "events_fetch n pk m b s k c =
     map_option (map row_payload) (fetch_seq n (\<lambda>i. event_page pk m b (s i)) er_pos k c)"
  by (induction n arbitrary: k c)
    (auto simp: payloads_page_eq case_prod_beta option.map_comp comp_def Let_def)

lemma budget_take_bounds:
  assumes "0 \<le> bytes" "bytes + tbl_sum er_size rs \<le> i64_max" "\<And>r. r \<in> set rs \<Longrightarrow> 0 \<le> er_size r" "k \<noteq> 0"
  shows "budget_take m b rs k bytes = [] \<or>
    bytes + tbl_sum er_size (budget_take m b rs k bytes) \<le> b \<and>
    int k + int (length (budget_take m b rs k bytes)) \<le> m"
  using assms
proof (induction rs arbitrary: k bytes)
  case (Cons r rs)
  have nn: "0 \<le> tbl_sum er_size rs" using Cons.prems(3) by (intro tbl_sum_nonneg) simp
  have r0: "0 \<le> er_size r" using Cons.prems(3) by simp
  then have w: "i64_wrap (bytes + er_size r) = bytes + er_size r"
    using Cons.prems(1,2) nn by (intro i64_wrap_id) (simp add: in_i64_def i64_min_def)
  show ?case
  proof (cases "m \<le> int k \<or> b < bytes + er_size r")
    case False
    have "budget_take m b rs (Suc k) (bytes + er_size r) = [] \<or>
        bytes + er_size r + tbl_sum er_size (budget_take m b rs (Suc k) (bytes + er_size r)) \<le> b \<and>
        int (Suc k) + int (length (budget_take m b rs (Suc k) (bytes + er_size r))) \<le> m"
      using Cons.prems r0 by (intro Cons.IH) auto
    with False show ?thesis by (auto simp: w)
  qed (use Cons.prems in \<open>simp add: w\<close>)
qed simp

lemma sum_payloads:
  "(\<And>r. r \<in> set ys \<Longrightarrow> er_size r = int (length (ev_payload (er_event r)))) \<Longrightarrow>
   int (sum_list (map (\<lambda>i. length (sp_payload i)) (map row_payload ys))) = tbl_sum er_size ys"
  by (induction ys) (simp_all add: row_payload_def)

lemma set_budget_take: "set (budget_take m b rs k bytes) \<subseteq> set rs"
  by (induction m b rs k bytes rule: budget_take.induct) auto

lemma set_rows_after: "set (rows_after before pos c rs) \<subseteq> set rs"
  by (auto simp: rows_after_def split: option.splits)

lemma tbl_sum_insort_key: "tbl_sum f (insort_key g x xs) = f x + tbl_sum f xs"
  by (induction xs) auto

lemma tbl_sum_sort_key [simp]: "tbl_sum f (sort_key g xs) = tbl_sum f xs"
  by (induction xs) (simp_all add: tbl_sum_insort_key)

section \<open>Properties\<close>

text \<open>
  C14: A client that follows the cursor of \<open>GET /events\<close> obtains every stored item of the
  Owner, oldest first, each exactly once, and it ends: one request per stored item and one
  more always suffice, whatever the page limits are.
\<close>
theorem events_paging_complete:
  assumes "db_inv db" "length (events_of pk db) < n"
  shows "events_fetch n pk max_rows byte_budget (\<lambda>_. db) 0 None =
    Some (map row_payload (sort_key er_pos (events_of pk db)))"
  unfolding events_fetch_eq
  using ev.fetch_complete [OF assms(1), where pk = pk and n = n and m = max_rows and b = byte_budget and k = 0]
    assms(2) by (simp add: event_rows_def)

lemma events_paging_complete_witness:
  "events_fetch 3 [1] 1 10 (\<lambda>_. ex_db) 0 None =
     Some (map row_payload [event_to_row (ex_event 1 ''a'' 5), event_to_row (ex_event 1 ''b'' 5)])"
proof -
  have e: "events_of [1] ex_db = [event_to_row (ex_event 1 ''b'' 5), event_to_row (ex_event 1 ''a'' 5)]"
    by (simp add: events_of_def ex_defs)
  have "sort_key er_pos (events_of [1] ex_db) = [event_to_row (ex_event 1 ''a'' 5), event_to_row (ex_event 1 ''b'' 5)]"
    unfolding e by (simp add: ex_event_def mk_event_def event_to_row_def)
  then show ?thesis
    using events_paging_complete [OF ex_db_inv, of "[1]" 3 1 10] e by simp
qed



text \<open>
  A page of \<open>GET /events\<close> is bounded: at most the row limit, and at most the byte budget
  of payload unless it is a single item; and it is empty only when nothing is left, so a
  large item never blocks the client.
\<close>
theorem events_page_bounded:
  assumes "db_inv db" "tbl_sum er_size (events_of pk db) \<le> i64_max"
  shows "let p = payloads_page pk (map_option fst c) (map_option snd c) max_rows byte_budget db
    in int (length (ep_items p)) \<le> max 1 max_rows \<and>
       (int (sum_list (map (\<lambda>i. length (sp_payload i)) (ep_items p))) \<le> byte_budget \<or> length (ep_items p) \<le> 1) \<and>
       (ep_items p = [] \<longleftrightarrow> (\<forall>r \<in> set (events_of pk db). \<not> payloads_where (map_option fst c) (map_option snd c) r))"
proof -
  let ?rs = "rows_after (<) er_pos c (event_rows pk db)"
  let ?ys = "budget_take max_rows byte_budget ?rs 0 0"
  have items: "ep_items (payloads_page pk (map_option fst c) (map_option snd c) max_rows byte_budget db) = map row_payload ?ys"
    by (simp add: payloads_page_eq event_page_def Let_def)
  have sub: "set ?rs \<subseteq> set (events_of pk db)" "set (events_of pk db) \<subseteq> set (d_events db)"
    using set_rows_after [of "(<)" er_pos c "event_rows pk db"] by (auto simp: event_rows_def events_of_def)
  have sz: "er_size r = int (length (ev_payload (er_event r)))" if "r \<in> set ?rs" for r
    using that sub assms(1) by (auto simp: db_inv_def)
  have "tbl_sum er_size ?rs \<le> tbl_sum er_size (event_rows pk db)"
  proof -
    have "0 \<le> er_size r" if "r \<in> set (event_rows pk db)" for r
      using that assms(1) by (auto simp: db_inv_def event_rows_def events_of_def)
    then show ?thesis by (cases c) (simp_all add: rows_after_def tbl_sum_filter_le)
  qed
  then have tot: "tbl_sum er_size ?rs \<le> i64_max" using assms(2) by (simp add: event_rows_def)
  have none: "?ys = [] \<longleftrightarrow> (\<forall>r \<in> set (events_of pk db). \<not> payloads_where (map_option fst c) (map_option snd c) r)"
  proof -
    have "?ys = [] \<longleftrightarrow> ?rs = []" using budget_take_0 [of ?rs max_rows byte_budget 0] by auto
    also have "\<dots> \<longleftrightarrow> (\<forall>r \<in> set (events_of pk db). \<not> (case c of None \<Rightarrow> True | Some p \<Rightarrow> p < er_pos r))"
      by (cases c) (auto simp: rows_after_def event_rows_def filter_empty_conv)
    finally show ?thesis by (simp add: payloads_where_after)
  qed
  moreover have "int (sum_list (map (\<lambda>i. length (sp_payload i)) (map row_payload ?ys))) = tbl_sum er_size ?ys"
    using sz set_budget_take by (intro sum_payloads) blast
  moreover have "int (length ?ys) \<le> max 1 max_rows \<and> (tbl_sum er_size ?ys \<le> byte_budget \<or> length ?ys \<le> 1)"
  proof (cases ?rs)
    case (Cons r rs)
    have nn: "0 \<le> er_size x" if "x \<in> set ?rs" for x using sz [OF that] by simp
    have "0 \<le> tbl_sum er_size rs" using nn by (intro tbl_sum_nonneg) (simp add: Cons)
    then have w: "i64_wrap (0 + er_size r) = er_size r"
      using tot nn [of r] i64_wrap_id [of "er_size r"] by (simp add: Cons in_i64_def i64_min_def)
    have "budget_take max_rows byte_budget rs 1 (er_size r) = [] \<or>
        er_size r + tbl_sum er_size (budget_take max_rows byte_budget rs 1 (er_size r)) \<le> byte_budget \<and>
        int 1 + int (length (budget_take max_rows byte_budget rs 1 (er_size r))) \<le> max_rows"
      using tot nn by (intro budget_take_bounds) (auto simp: Cons)
    then show ?thesis using w by (auto simp: Cons)
  qed simp
  ultimately show ?thesis
    unfolding Let_def items length_map map_is_Nil_conv by presburger
qed

lemma events_page_bounded_witness:
  "let p = payloads_page [1] None None 500 4194304 ex_db
   in int (length (ep_items p)) \<le> max 1 500 \<and>
      (int (sum_list (map (\<lambda>i. length (sp_payload i)) (ep_items p))) \<le> 4194304 \<or> length (ep_items p) \<le> 1) \<and>
      (ep_items p = [] \<longleftrightarrow> (\<forall>r \<in> set (events_of [1] ex_db). \<not> payloads_where None None r))"
proof -
  have "tbl_sum er_size (events_of [1] ex_db) \<le> i64_max"
    by (simp add: events_of_def ex_defs i64_max_def)
  from events_page_bounded [OF ex_db_inv this, of None 500 4194304] show ?thesis by simp
qed

end
