(* ===== verification/RateLimit.thy ===== *)
theory RateLimit
  imports Prelude Complex_Main
begin

text \<open>
  The token bucket (\<open>starling-relay-http/src/rate_limit.rs\<close>). Its \<open>f64\<close> fields are exact
  rationals here, and an \<open>Instant\<close> is a rational number of seconds on the monotonic clock;
  the rounding of the floating-point refill is not modelled. A lock serialises the calls,
  so a history is the sequence of their times.
\<close>

section \<open>Definitions\<close>

record bucket =
  bk_tokens :: rat
  bk_capacity :: rat
  bk_refill_per_sec :: rat
  bk_last :: rat

definition per_minute :: "nat \<Rightarrow> nat \<Rightarrow> rat \<Rightarrow> bucket" where
  "per_minute rate burst now =
     \<lparr>bk_tokens = of_nat burst, bk_capacity = of_nat burst, bk_refill_per_sec = of_nat rate / 60,
      bk_last = now\<rparr>"

text \<open>\<open>Ok\<close> is \<open>None\<close>; \<open>Err\<close> carries the whole seconds until a token is there.\<close>

definition try_acquire_at :: "rat \<Rightarrow> bucket \<Rightarrow> nat option \<times> bucket" where
  "try_acquire_at now b =
     (let elapsed = max 0 (now - bk_last b);
          tokens = min (bk_tokens b + elapsed * bk_refill_per_sec b) (bk_capacity b);
          b = b\<lparr>bk_tokens := tokens, bk_last := now\<rparr>
      in if 1 \<le> tokens then (None, b\<lparr>bk_tokens := tokens - 1\<rparr>)
         else (Some (nat \<lceil>(1 - tokens) / bk_refill_per_sec b\<rceil>), b))"

text \<open>A history of requests: how many of them got through.\<close>

fun run_bucket :: "rat list \<Rightarrow> bucket \<Rightarrow> nat \<times> bucket" where
  "run_bucket [] b = (0, b)"
| "run_bucket (t # ts) b =
     (let (r, b') = try_acquire_at t b; (n, b'') = run_bucket ts b'
      in (if r = None then Suc n else n, b''))"

section \<open>Lemmas\<close>

text \<open>What every bucket satisfies from its creation on.\<close>

definition bucket_ok :: "bucket \<Rightarrow> bool" where
  "bucket_ok b \<longleftrightarrow> 0 \<le> bk_tokens b \<and> bk_tokens b \<le> bk_capacity b \<and> 0 < bk_refill_per_sec b"

lemma bucket_ok_per_minute: "0 < rate \<Longrightarrow> bucket_ok (per_minute rate burst now)"
  by (simp add: bucket_ok_def per_minute_def)

lemma try_acquire_fixed:
  "bk_capacity (snd (try_acquire_at t b)) = bk_capacity b"
  "bk_refill_per_sec (snd (try_acquire_at t b)) = bk_refill_per_sec b"
  "bk_last (snd (try_acquire_at t b)) = t"
  by (simp_all add: try_acquire_at_def Let_def)

lemma try_acquire_ok: "bucket_ok b \<Longrightarrow> bucket_ok (snd (try_acquire_at t b))"
  by (auto simp: bucket_ok_def try_acquire_at_def Let_def min_def)

lemma try_acquire_pays:
  assumes "bucket_ok b" "bk_last b \<le> t"
  shows "bk_tokens (snd (try_acquire_at t b)) + (if fst (try_acquire_at t b) = None then 1 else 0) \<le>
    bk_tokens b + (t - bk_last b) * bk_refill_per_sec b"
  using assms by (auto simp: try_acquire_at_def Let_def bucket_ok_def)

lemma run_bucket_pays:
  "bucket_ok b \<Longrightarrow> sorted (bk_last b # ts) \<Longrightarrow>
   bk_tokens (snd (run_bucket ts b)) + of_nat (fst (run_bucket ts b)) \<le>
     bk_tokens b + (last (bk_last b # ts) - bk_last b) * bk_refill_per_sec b \<and>
   bucket_ok (snd (run_bucket ts b))"
proof (induction ts arbitrary: b)
  case (Cons t ts)
  obtain r b' where rb: "try_acquire_at t b = (r, b')" by (cases "try_acquire_at t b")
  obtain n b'' where nb: "run_bucket ts b' = (n, b'')" by (cases "run_bucket ts b'")
  have fx: "bk_refill_per_sec b' = bk_refill_per_sec b" "bk_last b' = t" "bucket_ok b'"
    using try_acquire_fixed [of t b] try_acquire_ok [OF Cons.prems(1), of t] by (simp_all add: rb)
  have ih: "bk_tokens b'' + of_nat n \<le> bk_tokens b' + (last (t # ts) - t) * bk_refill_per_sec b \<and> bucket_ok b''"
    using Cons.IH [OF fx(3)] Cons.prems(2) fx(1,2) by (simp add: nb)
  have pay: "bk_tokens b' + (if r = None then 1 else 0) \<le> bk_tokens b + (t - bk_last b) * bk_refill_per_sec b"
    using try_acquire_pays [OF Cons.prems(1), of t] Cons.prems(2) by (simp add: rb)
  have "(t - bk_last b) * bk_refill_per_sec b + (last (t # ts) - t) * bk_refill_per_sec b =
      (last (t # ts) - bk_last b) * bk_refill_per_sec b" by (simp add: algebra_simps)
  then show ?case using ih pay by (auto simp: rb nb)
qed simp

lemma try_acquire_refused:
  assumes "bucket_ok b" "1 \<le> bk_capacity b" "try_acquire_at t b = (Some w, b')"
  shows "fst (try_acquire_at (t + of_nat w) b') = None"
proof -
  let ?tk = "min (bk_tokens b + max 0 (t - bk_last b) * bk_refill_per_sec b) (bk_capacity b)"
  let ?f = "bk_refill_per_sec b"
  have lt: "?tk < 1" and w: "w = nat \<lceil>(1 - ?tk) / ?f\<rceil>"
    and b': "b' = b\<lparr>bk_tokens := ?tk, bk_last := t\<rparr>"
    using assms(3) by (auto simp: try_acquire_at_def Let_def split: if_splits)
  have f: "0 < ?f" using assms(1) by (simp add: bucket_ok_def)
  then have "0 < (1 - ?tk) / ?f" using lt by simp
  then have "(1 - ?tk) / ?f \<le> of_nat w"
    unfolding w by (metis le_of_int_ceiling of_nat_nat ceiling_mono ceiling_zero less_imp_le of_int_of_nat_eq)
  then have "1 - ?tk \<le> of_nat w * ?f" using f by (simp add: pos_divide_le_eq)
  then have "1 \<le> ?tk + of_nat w * ?f" by simp
  then show ?thesis
    using assms(2) by (simp add: try_acquire_at_def Let_def b')
qed

section \<open>Properties\<close>



text \<open>
  A refused request is told the truth: it takes nothing from the bucket, and a retry
  after the announced whole seconds gets through if no other request came between.
\<close>
theorem retry_after_sufficient:
  assumes "bucket_ok b" "1 \<le> bk_capacity b" "try_acquire_at t b = (Some w, b')"
  shows "fst (try_acquire_at (t + of_nat w) b') = None \<and>
    bk_tokens b' = min (bk_tokens b + max 0 (t - bk_last b) * bk_refill_per_sec b) (bk_capacity b)"
  using try_acquire_refused [OF assms] assms(3)
  by (auto simp: try_acquire_at_def Let_def split: if_splits)

lemma retry_after_sufficient_witness:
  "fst (try_acquire_at (0 + of_nat 10) \<lparr>bk_tokens = 0, bk_capacity = 1, bk_refill_per_sec = 1 / 10, bk_last = 0\<rparr>) = None"
proof -
  let ?b = "\<lparr>bk_tokens = 0, bk_capacity = 1, bk_refill_per_sec = 1 / 10, bk_last = 0\<rparr>"
  have "bucket_ok ?b" "1 \<le> bk_capacity ?b" "try_acquire_at 0 ?b = (Some 10, ?b)"
    by (simp_all add: bucket_ok_def try_acquire_at_def)
  from retry_after_sufficient [OF this] show ?thesis by simp
qed

end
