(* ===== verification/Http.thy ===== *)
theory Http
  imports Paging RateLimit
begin

text \<open>
  The per-Owner HTTP router (\<open>starling-relay-http/src\<close>): the signature middleware, every
  route handler, and the router with its two rate limiters.

  A handler is a function of the request, of the \<open>env\<close> it runs in (the clock, and which of
  the fallible system calls succeed) and of the \<open>world\<close> it changes: the database, the files
  under the media directory, and the calls it makes on the supervisor's hooks.
\<close>

section \<open>Requests, responses, world\<close>

text \<open>A header value is what \<open>to_str\<close> gives: \<open>None\<close> when it is not visible ASCII.\<close>

type_synonym headers = "(str \<times> str option) list"

datatype body = B_empty | B_text str | B_bytes bytes | B_json status_json

record response =
  rs_status :: nat
  rs_headers :: "(str \<times> str) list"
  rs_body :: body

text \<open>The files under \<open>media_dir\<close>, by path relative to it; directories are implied.\<close>

type_synonym fs = "(str \<times> bytes) list"

definition fs_len :: "str \<Rightarrow> fs \<Rightarrow> int option" where
  "fs_len p fs = map_option (\<lambda>b. int (length b)) (map_of fs p)"

record world =
  w_db :: db
  w_fs :: fs
  w_unpairs :: nat
  w_registered :: "voice_slot_entry list list"

text \<open>
  \<open>e_torn\<close> is \<open>Some k\<close> when writing the temporary file fails after \<open>k\<close> bytes.
\<close>

record env =
  e_now :: int
  e_instant :: rat
  e_pool_ok :: bool
  e_commit_ok :: bool
  e_mkdir_ok :: bool
  e_torn :: "nat option"
  e_rename_ok :: bool
  e_unlink_ok :: "str \<Rightarrow> bool"

section \<open>\<open>lib.rs\<close> and \<open>routes/mod.rs\<close>\<close>

definition OWNER_BODY_LIMIT_BYTES :: nat where "OWNER_BODY_LIMIT_BYTES = 4 * 1024 * 1024"
definition READ_RATE_PER_MIN :: nat where "READ_RATE_PER_MIN = 360"
definition READ_BURST :: nat where "READ_BURST = 60"
definition OWNER_RATE_PER_MIN :: nat where "OWNER_RATE_PER_MIN = 360"
definition OWNER_BURST :: nat where "OWNER_BURST = 60"

record caps =
  cp_per_owner_default :: int
  cp_disk_cap :: int

definition caps_default :: caps where
  "caps_default = \<lparr>cp_per_owner_default = 1024 * 1024 * 1024, cp_disk_cap = 5 * 1024 * 1024 * 1024\<rparr>"

record voice_ctx =
  vc_max_participants :: u16

text \<open>\<open>cx_unpair\<close> tells whether the supervisor wired the unpair hook.\<close>

record owner_ctx =
  cx_owner_pubkey :: bytes
  cx_caps :: caps
  cx_unpair :: bool
  cx_voice :: "voice_ctx option"

definition plain :: "nat \<Rightarrow> str \<Rightarrow> response" where
  "plain code msg = \<lparr>rs_status = code, rs_headers = [], rs_body = B_text msg\<rparr>"

definition status_only :: "nat \<Rightarrow> response" where
  "status_only code = \<lparr>rs_status = code, rs_headers = [], rs_body = B_empty\<rparr>"

definition cbor_response :: "nat \<Rightarrow> bytes \<Rightarrow> response" where
  "cbor_response code b =
     \<lparr>rs_status = code, rs_headers = [(''content-type'', ''application/cbor'')], rs_body = B_bytes b\<rparr>"

definition cbor_ok :: "bytes \<Rightarrow> response" where
  "cbor_ok b = cbor_response 200 b"

definition internal :: "fault \<Rightarrow> response" where
  "internal e = plain 500 ''internal error''"

section \<open>\<open>middleware.rs\<close>\<close>

definition MAX_TS_SKEW_SECS :: int where "MAX_TS_SKEW_SECS = 600"

definition header_str :: "headers \<Rightarrow> str \<Rightarrow> str option" where
  "header_str hs name = Option.bind (map_of hs name) (\<lambda>v. v)"

text \<open>\<open>Err((status, message))\<close> is \<open>Inl\<close>; the subtraction and \<open>abs\<close> wrap as in a release build.\<close>

definition verify_owner_request ::
  "ext \<Rightarrow> int \<Rightarrow> headers \<Rightarrow> str \<Rightarrow> str \<Rightarrow> bytes \<Rightarrow> bytes \<Rightarrow> (nat \<times> str) + unit" where
  "verify_owner_request x now hs method path body owner_pubkey =
     (case header_str hs ''x-starling-pubkey'' of
        None \<Rightarrow> Inl (401, ''missing x-starling-pubkey'')
      | Some pubkey_b64 \<Rightarrow>
     (case header_str hs ''x-starling-sig'' of
        None \<Rightarrow> Inl (401, ''missing x-starling-sig'')
      | Some sig_b64 \<Rightarrow>
     (case x_b64_decode x pubkey_b64 of
        None \<Rightarrow> Inl (401, ''bad x-starling-pubkey base64'')
      | Some pubkey \<Rightarrow>
     (case x_b64_decode x sig_b64 of
        None \<Rightarrow> Inl (401, ''bad x-starling-sig base64'')
      | Some sig \<Rightarrow>
         (let valid =
            (case map_of hs ''x-starling-ts'' of
               Some ts_header \<Rightarrow>
                 (case Option.bind ts_header parse_i64 of
                    None \<Rightarrow> Inl (401, ''bad x-starling-ts'')
                  | Some ts \<Rightarrow>
                      if MAX_TS_SKEW_SECS < i64_abs (i64_wrap (now - ts))
                      then Inl (401, ''stale x-starling-ts'')
                      else Inr (verify_owner_request_sig x pubkey method path ts body sig))
             | None \<Rightarrow> Inr (verify_owner_sig x pubkey body sig))
          in case valid of
               Inl err \<Rightarrow> Inl err
             | Inr v \<Rightarrow>
                 if \<not> v then Inl (401, ''invalid signature'')
                 else if pubkey \<noteq> owner_pubkey then Inl (403, ''pubkey is not this relay owner'')
                 else Inr ())))))"

text \<open>The handlers' common prologue: a request that does not verify is answered at once.\<close>

definition guarded ::
  "(nat \<times> str) + unit \<Rightarrow> world \<Rightarrow> response \<times> world \<Rightarrow> response \<times> world" where
  "guarded v w k = (case v of Inl (code, msg) \<Rightarrow> (plain code msg, w) | Inr _ \<Rightarrow> k)"

section \<open>\<open>routes/events.rs\<close>\<close>

definition EVENTS_PAGE_LIMIT :: int where "EVENTS_PAGE_LIMIT = 500"
definition PAGE_BYTE_BUDGET :: int where "PAGE_BYTE_BUDGET = 4 * 1024 * 1024"
definition MAX_ID_LEN :: nat where "MAX_ID_LEN = 64"

definition events_get_handler ::
  "ext \<Rightarrow> env \<Rightarrow> owner_ctx \<Rightarrow> int option \<Rightarrow> str option \<Rightarrow> world \<Rightarrow> response \<times> world" where
  "events_get_handler x e ctx since since_id w =
     (if \<not> e_pool_ok e then (internal Pool_exhausted, w)
      else
        let page = payloads_page (cx_owner_pubkey ctx) since since_id EVENTS_PAGE_LIMIT PAGE_BYTE_BUDGET (w_db w);
            items = map (\<lambda>i. (sp_item_type i, sp_payload i)) (ep_items page)
        in (cbor_ok (build_typed_envelope_page x PROTOCOL_VERSION items (ep_next page)), w))"

datatype push_outcome = Stored push_receipt | CapExceeded str

text \<open>The row an item becomes: \<open>None\<close> when the item is rejected.\<close>

definition item_event :: "ext \<Rightarrow> int \<Rightarrow> bytes \<Rightarrow> push_item \<Rightarrow> served_event option" where
  "item_event x now pubkey item =
     (if MAX_ID_LEN < length (pi_id item) then None
      else if pi_type item = ''event'' then
        (case event_header_parse x (pi_payload item) of
           None \<Rightarrow> None
         | Some header \<Rightarrow>
             Some \<lparr>ev_pubkey = pubkey, ev_id = pi_id item, ev_created_at = eh_created_at header,
                   ev_msg_seq = eh_msg_seq header, ev_nonce = eh_nonce header,
                   ev_payload = pi_payload item, ev_item_type = pi_type item\<rparr>)
      else
        Some \<lparr>ev_pubkey = pubkey, ev_id = pi_id item, ev_created_at = now, ev_msg_seq = 0,
              ev_nonce = [], ev_payload = pi_payload item, ev_item_type = pi_type item\<rparr>)"

fun push_loop ::
  "ext \<Rightarrow> int \<Rightarrow> bytes \<Rightarrow> push_item list \<Rightarrow> int \<Rightarrow> int \<Rightarrow> db \<Rightarrow> (push_receipt \<times> db) res" where
  "push_loop x now pubkey [] accepted rejected db =
     Inr (\<lparr>rc_accepted = accepted, rc_rejected = rejected\<rparr>, db)"
| "push_loop x now pubkey (item # items) accepted rejected db =
     (case item_event x now pubkey item of
        None \<Rightarrow> push_loop x now pubkey items accepted (rejected + 1) db
      | Some ev \<Rightarrow>
          (case events_insert ev db of
             Inl err \<Rightarrow> Inl err
           | Inr (_, db') \<Rightarrow> push_loop x now pubkey items (accepted + 1) rejected db'))"

definition effective_cap :: "owner_ctx \<Rightarrow> db \<Rightarrow> int" where
  "effective_cap ctx db =
     (case Option.bind (owners_get (cx_owner_pubkey ctx) db) po_storage_cap_bytes of
        Some c \<Rightarrow> c
      | None \<Rightarrow> cp_per_owner_default (cx_caps ctx))"

definition events_push_tx ::
  "ext \<Rightarrow> env \<Rightarrow> owner_ctx \<Rightarrow> push_batch \<Rightarrow> db \<Rightarrow> (push_outcome \<times> db) res" where
  "events_push_tx x e ctx batch db =
     (let pubkey = cx_owner_pubkey ctx;
          incoming = i64_wrap (sum_list (map (\<lambda>i. int (length (pi_payload i))) (pb_items batch)))
      in res_bind (check_capacity pubkey incoming (effective_cap ctx db) (cp_disk_cap (cx_caps ctx)) db) (\<lambda>c.
         case c of
           OwnerExceeded \<Rightarrow> Inr (CapExceeded ''owner storage cap exceeded'', db)
         | HostExceeded \<Rightarrow> Inr (CapExceeded ''relay storage cap exceeded'', db)
         | Cap_Ok \<Rightarrow>
             res_bind (push_loop x (e_now e) pubkey (pb_items batch) 0 0 db) (\<lambda>(receipt, db').
               if e_commit_ok e then Inr (Stored receipt, db') else Inl (Other_fault ''commit''))))"

definition events_push_handler ::
  "ext \<Rightarrow> env \<Rightarrow> owner_ctx \<Rightarrow> headers \<Rightarrow> bytes \<Rightarrow> world \<Rightarrow> response \<times> world" where
  "events_push_handler x e ctx hs body w =
     guarded (verify_owner_request x (e_now e) hs ''POST'' ''/events'' body (cx_owner_pubkey ctx)) w
       (case push_batch_parse x body of
          None \<Rightarrow> (plain 400 ''malformed cbor body'', w)
        | Some batch \<Rightarrow>
            (case db_run (e_pool_ok e) (events_push_tx x e ctx batch) (w_db w) of
               (Inr (Stored receipt), db') \<Rightarrow>
                 (cbor_response 202 (x_into_writer x (push_receipt_to_cbor receipt)), w\<lparr>w_db := db'\<rparr>)
             | (Inr (CapExceeded msg), db') \<Rightarrow> (plain 507 msg, w\<lparr>w_db := db'\<rparr>)
             | (Inl err, db') \<Rightarrow> (internal err, w\<lparr>w_db := db'\<rparr>)))"

definition events_delete_tx ::
  "env \<Rightarrow> owner_ctx \<Rightarrow> str list \<Rightarrow> db \<Rightarrow> (delete_receipt \<times> db) res" where
  "events_delete_tx e ctx ids db =
     (let requested = int (length ids);
          (deleted, db') = events_delete_batch (cx_owner_pubkey ctx) ids db
      in if e_commit_ok e then Inr (\<lparr>dr_deleted = deleted, dr_missing = requested - deleted\<rparr>, db')
         else Inl (Other_fault ''commit''))"

definition events_delete_handler ::
  "ext \<Rightarrow> env \<Rightarrow> owner_ctx \<Rightarrow> headers \<Rightarrow> bytes \<Rightarrow> world \<Rightarrow> response \<times> world" where
  "events_delete_handler x e ctx hs body w =
     guarded (verify_owner_request x (e_now e) hs ''POST'' ''/events/delete'' body (cx_owner_pubkey ctx)) w
       (case delete_events_parse x body of
          None \<Rightarrow> (plain 400 ''malformed cbor body'', w)
        | Some ids \<Rightarrow>
            (case db_run (e_pool_ok e) (events_delete_tx e ctx ids) (w_db w) of
               (Inr r, db') \<Rightarrow> (cbor_ok (x_into_writer x (delete_receipt_to_cbor r)), w\<lparr>w_db := db'\<rparr>)
             | (Inl err, db') \<Rightarrow> (internal err, w\<lparr>w_db := db'\<rparr>)))"

section \<open>\<open>routes/media.rs\<close>\<close>

definition MANIFEST_PAGE_LIMIT :: int where "MANIFEST_PAGE_LIMIT = 1000"

definition shard_path :: "str \<Rightarrow> str" where
  "shard_path hash = take 2 hash @ ''/'' @ take 4 hash @ ''/'' @ hash"

definition owner_shard_path :: "ext \<Rightarrow> bytes \<Rightarrow> str \<Rightarrow> str" where
  "owner_shard_path x owner_pubkey hash = x_hex_encode x owner_pubkey @ ''/'' @ shard_path hash"

definition is_valid_hash :: "str \<Rightarrow> bool" where
  "is_valid_hash hash \<longleftrightarrow>
     length hash = 64 \<and> list_all (\<lambda>c. is_digit c \<or> CHR ''a'' \<le> c \<and> c \<le> CHR ''f'') hash"

fun show_nat :: "nat \<Rightarrow> str" where
  "show_nat n =
     (if n < 10 then [char_of (48 + n)] else show_nat (n div 10) @ [char_of (48 + n mod 10)])"

definition show_int :: "int \<Rightarrow> str" where
  "show_int i = (if i < 0 then CHR ''-'' # show_nat (nat (- i)) else show_nat (nat i))"

declare show_nat.simps [simp del]

definition media_get_handler ::
  "env \<Rightarrow> owner_ctx \<Rightarrow> str \<Rightarrow> world \<Rightarrow> response \<times> world" where
  "media_get_handler e ctx hash w =
     (if \<not> is_valid_hash hash then (plain 400 ''invalid hash'', w)
      else if \<not> e_pool_ok e then (internal Pool_exhausted, w)
      else case media_get (cx_owner_pubkey ctx) hash (w_db w) of
             None \<Rightarrow> (plain 404 ''not found'', w)
           | Some row \<Rightarrow>
               (case map_of (w_fs w) (sm_path row) of
                  None \<Rightarrow> (plain 404 ''not found'', w)
                | Some file \<Rightarrow>
                    (\<lparr>rs_status = 200,
                      rs_headers = [(''content-type'', ''application/octet-stream''),
                                    (''content-length'', show_nat (length file))],
                      rs_body = B_bytes file\<rparr>, w)))"

datatype media_outcome = M_Accepted | M_CapExceeded str

text \<open>
  The upload's closure. The files change as the code goes along; the database only when
  the transaction commits.
\<close>

definition media_push_tx ::
  "ext \<Rightarrow> env \<Rightarrow> owner_ctx \<Rightarrow> str \<Rightarrow> bytes \<Rightarrow> db \<Rightarrow> fs \<Rightarrow> media_outcome res \<times> db \<times> fs" where
  "media_push_tx x e ctx hash body db fs =
     (let pubkey = cx_owner_pubkey ctx;
          rel = owner_shard_path x pubkey hash;
          existing = media_get pubkey hash db;
          len = int (length body);
          same = (case existing of
                    None \<Rightarrow> False
                  | Some ex \<Rightarrow> sm_size ex = len \<and> fs_len rel fs = Some (sm_size ex))
      in if same then (Inr M_Accepted, db, fs)
         else
           let stored = (case existing of None \<Rightarrow> 0 | Some ex \<Rightarrow> sm_size ex);
               incoming = max (i64_wrap (len - stored)) 0
           in case check_capacity pubkey incoming (effective_cap ctx db) (cp_disk_cap (cx_caps ctx)) db of
                Inl err \<Rightarrow> (Inl err, db, fs)
              | Inr OwnerExceeded \<Rightarrow> (Inr (M_CapExceeded ''owner storage cap exceeded''), db, fs)
              | Inr HostExceeded \<Rightarrow> (Inr (M_CapExceeded ''relay storage cap exceeded''), db, fs)
              | Inr Cap_Ok \<Rightarrow>
                  if \<not> e_mkdir_ok e then (Inl Io_error, db, fs)
                  else
                    let tmp = rel @ ''.tmp''
                    in case e_torn e of
                         Some k \<Rightarrow> (Inl Io_error, db, AList.update tmp (take k body) fs)
                       | None \<Rightarrow>
                           let fs1 = AList.update tmp body fs
                           in if \<not> e_rename_ok e then (Inl Io_error, db, fs1)
                              else
                                let fs2 = AList.update rel body (AList.delete tmp fs1);
                                    record = \<lparr>sm_pubkey = pubkey, sm_hash = hash, sm_size = len,
                                              sm_created_at = e_now e, sm_path = rel\<rparr>
                                in case media_upsert record db of
                                     Inl err \<Rightarrow> (Inl err, db, fs2)
                                   | Inr db' \<Rightarrow>
                                       if e_commit_ok e then (Inr M_Accepted, db', fs2)
                                       else (Inl (Other_fault ''commit''), db, fs2))"

definition media_push_handler ::
  "ext \<Rightarrow> env \<Rightarrow> owner_ctx \<Rightarrow> str \<Rightarrow> headers \<Rightarrow> bytes \<Rightarrow> world \<Rightarrow> response \<times> world" where
  "media_push_handler x e ctx hash hs body w =
     (if \<not> is_valid_hash hash then (plain 400 ''invalid hash'', w)
      else
        guarded (verify_owner_request x (e_now e) hs ''POST'' (''/media/'' @ hash) body (cx_owner_pubkey ctx)) w
          (if \<not> e_pool_ok e then (internal Pool_exhausted, w)
           else case media_push_tx x e ctx hash body (w_db w) (w_fs w) of
                  (r, db', fs') \<Rightarrow>
                    ((case r of
                        Inr M_Accepted \<Rightarrow> status_only 202
                      | Inr (M_CapExceeded msg) \<Rightarrow> plain 507 msg
                      | Inl err \<Rightarrow> internal err),
                     w\<lparr>w_db := db', w_fs := fs'\<rparr>)))"

fun media_delete_loop :: "bytes \<Rightarrow> str list \<Rightarrow> int \<Rightarrow> str list \<Rightarrow> db \<Rightarrow> int \<times> str list \<times> db" where
  "media_delete_loop pubkey [] deleted unlink db = (deleted, unlink, db)"
| "media_delete_loop pubkey (hash # hashes) deleted unlink db =
     (case media_delete pubkey hash db of
        (Some row, db') \<Rightarrow> media_delete_loop pubkey hashes (deleted + 1) (unlink @ [sm_path row]) db'
      | (None, db') \<Rightarrow> media_delete_loop pubkey hashes deleted unlink db')"

fun unlink_all :: "(str \<Rightarrow> bool) \<Rightarrow> str list \<Rightarrow> fs \<Rightarrow> fs" where
  "unlink_all ok [] fs = fs"
| "unlink_all ok (rel # rels) fs =
     unlink_all ok rels (if ok rel then AList.delete rel fs else fs)"

text \<open>The committed part of the deletion and the unlinking after it.\<close>

definition media_delete_tx ::
  "env \<Rightarrow> owner_ctx \<Rightarrow> str list \<Rightarrow> db \<Rightarrow> ((delete_receipt \<times> str list) \<times> db) res" where
  "media_delete_tx e ctx hashes db =
     (let requested = int (length hashes);
          (deleted, unlink, db') = media_delete_loop (cx_owner_pubkey ctx) hashes 0 [] db
      in if e_commit_ok e
         then Inr ((\<lparr>dr_deleted = deleted, dr_missing = requested - deleted\<rparr>, unlink), db')
         else Inl (Other_fault ''commit''))"

definition media_delete_handler ::
  "ext \<Rightarrow> env \<Rightarrow> owner_ctx \<Rightarrow> headers \<Rightarrow> bytes \<Rightarrow> world \<Rightarrow> response \<times> world" where
  "media_delete_handler x e ctx hs body w =
     guarded (verify_owner_request x (e_now e) hs ''POST'' ''/media/delete'' body (cx_owner_pubkey ctx)) w
       (case delete_media_parse x body of
          None \<Rightarrow> (plain 400 ''malformed cbor body'', w)
        | Some hashes \<Rightarrow>
            if \<not> list_all is_valid_hash hashes then (plain 400 ''invalid hash'', w)
            else
              case db_run (e_pool_ok e) (media_delete_tx e ctx hashes) (w_db w) of
                (Inr (r, unlink), db') \<Rightarrow>
                  (cbor_ok (x_into_writer x (delete_receipt_to_cbor r)),
                   w\<lparr>w_db := db', w_fs := unlink_all (e_unlink_ok e) unlink (w_fs w)\<rparr>)
              | (Inl err, db') \<Rightarrow> (internal err, w\<lparr>w_db := db'\<rparr>))"

definition media_manifest_view :: "owner_ctx \<Rightarrow> str option \<Rightarrow> db \<Rightarrow> media_manifest_page" where
  "media_manifest_view ctx after db =
     (let rows = media_hashes_page (cx_owner_pubkey ctx) after (MANIFEST_PAGE_LIMIT + 1) db
      in \<lparr>mm_hashes = take (nat MANIFEST_PAGE_LIMIT) rows,
          mm_has_older = MANIFEST_PAGE_LIMIT < int (length rows)\<rparr>)"

definition media_manifest_handler ::
  "ext \<Rightarrow> env \<Rightarrow> owner_ctx \<Rightarrow> headers \<Rightarrow> str option \<Rightarrow> world \<Rightarrow> response \<times> world" where
  "media_manifest_handler x e ctx hs after w =
     guarded (verify_owner_request x (e_now e) hs ''GET'' ''/media-manifest'' [] (cx_owner_pubkey ctx)) w
       (if \<not> e_pool_ok e then (internal Pool_exhausted, w)
        else (cbor_ok (x_into_writer x (media_manifest_page_to_cbor (media_manifest_view ctx after (w_db w)))), w))"

section \<open>\<open>routes/manifest.rs\<close>, \<open>status.rs\<close>, \<open>unpair.rs\<close>, \<open>voice.rs\<close>\<close>

definition PAGE_LIMIT :: int where "PAGE_LIMIT = 1000"

definition manifest_view ::
  "owner_ctx \<Rightarrow> int option \<Rightarrow> int option \<Rightarrow> str option \<Rightarrow> db \<Rightarrow> manifest_page_wire" where
  "manifest_view ctx since until until_id db =
     (let rows = manifest_page (cx_owner_pubkey ctx) since until until_id (PAGE_LIMIT + 1) db
      in \<lparr>mp_pubkey = crockford_base32_encode (cx_owner_pubkey ctx),
          mp_events = take (nat PAGE_LIMIT) rows,
          mp_has_older = PAGE_LIMIT < int (length rows)\<rparr>)"

definition manifest_handler ::
  "ext \<Rightarrow> env \<Rightarrow> owner_ctx \<Rightarrow> int option \<Rightarrow> int option \<Rightarrow> str option \<Rightarrow> world \<Rightarrow> response \<times> world" where
  "manifest_handler x e ctx since until until_id w =
     (if \<not> e_pool_ok e then (internal Pool_exhausted, w)
      else (cbor_ok (x_into_writer x (manifest_page_to_cbor
              (manifest_view ctx since until until_id (w_db w)))), w))"

definition status_view :: "owner_ctx \<Rightarrow> db \<Rightarrow> status_json res" where
  "status_view ctx db =
     (let pubkey = cx_owner_pubkey ctx
      in res_bind (media_total_bytes pubkey db) (\<lambda>media_storage_used.
         res_bind (owner_usage pubkey db) (\<lambda>storage_used.
           Inr \<lparr>st_pubkey = crockford_base32_encode pubkey, st_version = PROTOCOL_VERSION,
                st_event_count = events_count pubkey db, st_storage_used = storage_used,
                st_storage_limit = effective_cap ctx db, st_media_storage_used = media_storage_used,
                st_voice = (case cx_voice ctx of
                   Some v \<Rightarrow> \<lparr>vs_enabled = True, vs_max_participants = vc_max_participants v,
                              vs_slot_count = slots_count_for_owner pubkey db\<rparr>
                 | None \<Rightarrow> voice_status_disabled)\<rparr>)))"

definition status_handler :: "env \<Rightarrow> owner_ctx \<Rightarrow> world \<Rightarrow> response \<times> world" where
  "status_handler e ctx w =
     (if \<not> e_pool_ok e then (internal Pool_exhausted, w)
      else case status_view ctx (w_db w) of
             Inl err \<Rightarrow> (internal err, w)
           | Inr st \<Rightarrow>
               (\<lparr>rs_status = 200, rs_headers = [(''content-type'', ''application/json; charset=utf-8'')],
                 rs_body = B_json st\<rparr>, w))"

definition unpair_handler ::
  "ext \<Rightarrow> env \<Rightarrow> owner_ctx \<Rightarrow> headers \<Rightarrow> bytes \<Rightarrow> world \<Rightarrow> response \<times> world" where
  "unpair_handler x e ctx hs body w =
     guarded (verify_owner_request x (e_now e) hs ''POST'' ''/unpair'' body (cx_owner_pubkey ctx)) w
       (if cx_unpair ctx then (status_only 200, w\<lparr>w_unpairs := Suc (w_unpairs w)\<rparr>)
        else (plain 501 ''unpair not wired'', w))"

definition MAX_SLOTS :: nat where "MAX_SLOTS = 4096"

text \<open>The first entry of the push that breaks a rule decides the message.\<close>

fun check_slots :: "u16 \<Rightarrow> voice_slot_entry list \<Rightarrow> str option" where
  "check_slots cap_max [] = None"
| "check_slots cap_max (slot # slots) =
     (if length (ve_token_hash slot) \<noteq> 32 then Some ''token_hash must be 32 bytes''
      else case ve_max_participants slot of
             Some cap \<Rightarrow>
               (if cap < 2 \<or> cap_max < cap then Some ''max_participants out of range''
                else check_slots cap_max slots)
           | None \<Rightarrow> check_slots cap_max slots)"

definition rooms_handler ::
  "ext \<Rightarrow> env \<Rightarrow> owner_ctx \<Rightarrow> headers \<Rightarrow> bytes \<Rightarrow> world \<Rightarrow> response \<times> world" where
  "rooms_handler x e ctx hs body w =
     guarded (verify_owner_request x (e_now e) hs ''POST'' ''/voice/rooms'' body (cx_owner_pubkey ctx)) w
       (case cx_voice ctx of
          None \<Rightarrow> (plain 404 ''voice hosting disabled'', w)
        | Some voice \<Rightarrow>
       (case voice_slot_push_parse x body of
          None \<Rightarrow> (plain 400 ''malformed slot push'', w)
        | Some slots \<Rightarrow>
            if MAX_SLOTS < length slots then (plain 400 ''too many slots'', w)
            else case check_slots (vc_max_participants voice) slots of
              Some msg \<Rightarrow> (plain 400 msg, w)
            | None \<Rightarrow>
                let rows = map (\<lambda>s. (ve_token_hash s, ve_max_participants s)) slots;
                    tx = (\<lambda>db. res_bind (replace_set (cx_owner_pubkey ctx) rows (e_now e) db) (\<lambda>db'.
                            if e_commit_ok e then Inr ((), db') else Inl (Other_fault ''commit'')))
                in case db_run (e_pool_ok e) tx (w_db w) of
                     (Inl err, db') \<Rightarrow> (internal err, w\<lparr>w_db := db'\<rparr>)
                   | (Inr _, db') \<Rightarrow>
                       (cbor_ok (x_into_writer x (voice_slot_receipt_to_cbor (int (length rows)))),
                        w\<lparr>w_db := db', w_registered := w_registered w @ [slots]\<rparr>)))"

section \<open>\<open>owner_router\<close>\<close>

text \<open>
  A request as the router gets it. \<open>rq_query\<close> holds the decoded pairs of the query string
  (\<open>None\<close> when it is malformed) and \<open>rq_param\<close> decodes a captured path segment.
\<close>

record request =
  rq_method :: str
  rq_path :: str
  rq_query :: "(str \<times> str) list option"
  rq_param :: "str \<Rightarrow> str option"
  rq_headers :: headers
  rq_body :: bytes

datatype route =
    R_status | R_manifest | R_events_get | R_media_get str
  | R_events_push | R_events_delete | R_media_delete | R_media_push str
  | R_media_manifest | R_unpair | R_voice_rooms

definition media_segment :: "str \<Rightarrow> str option" where
  "media_segment path =
     (if take 7 path = ''/media/'' \<and> drop 7 path \<noteq> [] \<and> CHR ''/'' \<notin> set (drop 7 path)
      then Some (drop 7 path) else None)"

text \<open>A \<open>get\<close> route also answers \<open>HEAD\<close>; static segments win over the capture.\<close>

definition owner_route :: "str \<Rightarrow> str \<Rightarrow> route option" where
  "owner_route method path =
     (if method = ''GET'' \<or> method = ''HEAD'' then
        (if path = ''/status'' then Some R_status
         else if path = ''/manifest'' then Some R_manifest
         else if path = ''/events'' then Some R_events_get
         else if path = ''/media-manifest'' then Some R_media_manifest
         else if path = ''/media/delete'' then None
         else map_option R_media_get (media_segment path))
      else if method = ''POST'' then
        (if path = ''/events'' then Some R_events_push
         else if path = ''/events/delete'' then Some R_events_delete
         else if path = ''/media/delete'' then Some R_media_delete
         else if path = ''/unpair'' then Some R_unpair
         else if path = ''/voice/rooms'' then Some R_voice_rooms
         else map_option R_media_push (media_segment path))
      else None)"

definition is_read :: "route \<Rightarrow> bool" where
  "is_read r \<longleftrightarrow> (case r of R_status \<Rightarrow> True | R_manifest \<Rightarrow> True | R_events_get \<Rightarrow> True
                          | R_media_get _ \<Rightarrow> True | _ \<Rightarrow> False)"

record router =
  ro_reads :: bucket
  ro_writes :: bucket

definition new_router :: "rat \<Rightarrow> router" where
  "new_router now =
     \<lparr>ro_reads = per_minute READ_RATE_PER_MIN READ_BURST now,
      ro_writes = per_minute OWNER_RATE_PER_MIN OWNER_BURST now\<rparr>"

text \<open>
  The extractors: a query field may occur at most once, an \<open>i64\<close> field must parse, and a
  body above the limit is refused before the handler runs.
\<close>

definition q_text :: "(str \<times> str) list \<Rightarrow> str \<Rightarrow> str option option" where
  "q_text kvs name =
     (case filter (\<lambda>(k, _). k = name) kvs of
        [] \<Rightarrow> Some None
      | [(_, v)] \<Rightarrow> Some (Some v)
      | _ \<Rightarrow> None)"

definition q_i64 :: "(str \<times> str) list \<Rightarrow> str \<Rightarrow> int option option" where
  "q_i64 kvs name =
     (case q_text kvs name of
        None \<Rightarrow> None
      | Some None \<Rightarrow> Some None
      | Some (Some v) \<Rightarrow> map_option Some (parse_i64 v))"

definition bad_query :: response where
  "bad_query = plain 400 ''Failed to deserialize query string''"

definition with_body :: "request \<Rightarrow> world \<Rightarrow> response \<times> world \<Rightarrow> response \<times> world" where
  "with_body rq w k =
     (if OWNER_BODY_LIMIT_BYTES < length (rq_body rq)
      then (plain 413 ''length limit exceeded'', w) else k)"

definition with_param :: "request \<Rightarrow> str \<Rightarrow> world \<Rightarrow> (str \<Rightarrow> response \<times> world) \<Rightarrow> response \<times> world" where
  "with_param rq seg w k =
     (case rq_param rq seg of None \<Rightarrow> (plain 400 ''Invalid URL'', w) | Some h \<Rightarrow> k h)"

definition dispatch :: "ext \<Rightarrow> env \<Rightarrow> owner_ctx \<Rightarrow> request \<Rightarrow> route \<Rightarrow> world \<Rightarrow> response \<times> world" where
  "dispatch x e ctx rq r w =
     (let q = (case rq_query rq of None \<Rightarrow> [] | Some kvs \<Rightarrow> kvs); ok = (rq_query rq \<noteq> None)
      in case r of
           R_status \<Rightarrow> status_handler e ctx w
         | R_manifest \<Rightarrow>
             (case (q_i64 q ''since'', q_i64 q ''until'', q_text q ''until_id'') of
                (Some s, Some u, Some ui) \<Rightarrow>
                  if ok then manifest_handler x e ctx s u ui w else (bad_query, w)
              | _ \<Rightarrow> (bad_query, w))
         | R_events_get \<Rightarrow>
             (case (q_i64 q ''since'', q_text q ''since_id'') of
                (Some s, Some si) \<Rightarrow>
                  if ok then events_get_handler x e ctx s si w else (bad_query, w)
              | _ \<Rightarrow> (bad_query, w))
         | R_media_get seg \<Rightarrow> with_param rq seg w (\<lambda>h. media_get_handler e ctx h w)
         | R_events_push \<Rightarrow> with_body rq w (events_push_handler x e ctx (rq_headers rq) (rq_body rq) w)
         | R_events_delete \<Rightarrow> with_body rq w (events_delete_handler x e ctx (rq_headers rq) (rq_body rq) w)
         | R_media_delete \<Rightarrow> with_body rq w (media_delete_handler x e ctx (rq_headers rq) (rq_body rq) w)
         | R_media_push seg \<Rightarrow>
             with_param rq seg w (\<lambda>h.
               with_body rq w (media_push_handler x e ctx h (rq_headers rq) (rq_body rq) w))
         | R_media_manifest \<Rightarrow>
             (case q_text q ''after'' of
                Some a \<Rightarrow> if ok then media_manifest_handler x e ctx (rq_headers rq) a w else (bad_query, w)
              | None \<Rightarrow> (bad_query, w))
         | R_unpair \<Rightarrow> with_body rq w (unpair_handler x e ctx (rq_headers rq) (rq_body rq) w)
         | R_voice_rooms \<Rightarrow> with_body rq w (rooms_handler x e ctx (rq_headers rq) (rq_body rq) w))"

text \<open>The rate-limit layer in front of a handler.\<close>

definition rate_limit_mw :: "rat \<Rightarrow> bucket \<Rightarrow> world \<Rightarrow> (world \<Rightarrow> response \<times> world) \<Rightarrow> (response \<times> world) \<times> bucket" where
  "rate_limit_mw now b w k =
     (case try_acquire_at now b of
        (None, b') \<Rightarrow> (k w, b')
      | (Some retry_after, b') \<Rightarrow>
          ((\<lparr>rs_status = 429, rs_headers = [(''retry-after'', show_nat retry_after)],
             rs_body = B_text ''rate limited''\<rparr>, w), b'))"

text \<open>
  One request to the Owner's router; \<open>None\<close> when no route of the table matches and the
  framework answers by itself.
\<close>

definition owner_router ::
  "ext \<Rightarrow> env \<Rightarrow> owner_ctx \<Rightarrow> request \<Rightarrow> router \<times> world \<Rightarrow> (response \<times> router \<times> world) option" where
  "owner_router x e ctx rq st =
     (let (ro, w) = st
      in case owner_route (rq_method rq) (rq_path rq) of
           None \<Rightarrow> None
         | Some r \<Rightarrow>
             if is_read r then
               (case rate_limit_mw (e_instant e) (ro_reads ro) w (dispatch x e ctx rq r) of
                  ((rs, w'), b) \<Rightarrow> Some (rs, ro\<lparr>ro_reads := b\<rparr>, w'))
             else
               (case rate_limit_mw (e_instant e) (ro_writes ro) w (dispatch x e ctx rq r) of
                  ((rs, w'), b) \<Rightarrow> Some (rs, ro\<lparr>ro_writes := b\<rparr>, w')))"

section \<open>Who may change what\<close>

lemma verify_accepts:
  "verify_owner_request x now hs m p body pk = Inr () \<longleftrightarrow>
   (\<exists>pk64 sig64 sig. header_str hs ''x-starling-pubkey'' = Some pk64 \<and> x_b64_decode x pk64 = Some pk \<and>
      header_str hs ''x-starling-sig'' = Some sig64 \<and> x_b64_decode x sig64 = Some sig \<and>
      (case map_of hs ''x-starling-ts'' of
         None \<Rightarrow> verify_owner_sig x pk body sig
       | Some h \<Rightarrow> \<exists>ts. Option.bind h parse_i64 = Some ts \<and>
           i64_abs (i64_wrap (now - ts)) \<le> MAX_TS_SKEW_SECS \<and>
           verify_owner_request_sig x pk m p ts body sig))"
  by (auto simp: verify_owner_request_def Let_def split: option.splits if_splits)

text \<open>Verification finds a key first, or fails with 401; only then it compares keys.\<close>

lemma verify_two_steps:
  "\<exists>r. \<forall>pk. verify_owner_request x now hs m p body pk =
     (case r of Inl msg \<Rightarrow> Inl (401, msg)
      | Inr k \<Rightarrow> if k \<noteq> pk then Inl (403, ''pubkey is not this relay owner'') else Inr ())"
proof (cases "header_str hs ''x-starling-pubkey''")
  case None
  then show ?thesis
    by (intro exI [of _ "Inl ''missing x-starling-pubkey''"]) (simp add: verify_owner_request_def)
next
  case p: (Some pk64)
  show ?thesis
  proof (cases "header_str hs ''x-starling-sig''")
    case None
    with p show ?thesis
      by (intro exI [of _ "Inl ''missing x-starling-sig''"]) (simp add: verify_owner_request_def)
  next
    case s: (Some sig64)
    show ?thesis
    proof (cases "x_b64_decode x pk64")
      case None
      with p s show ?thesis
        by (intro exI [of _ "Inl ''bad x-starling-pubkey base64''"]) (simp add: verify_owner_request_def)
    next
      case k: (Some key)
      show ?thesis
      proof (cases "x_b64_decode x sig64")
        case None
        with p s k show ?thesis
          by (intro exI [of _ "Inl ''bad x-starling-sig base64''"]) (simp add: verify_owner_request_def)
      next
        case g: (Some sig)
        let ?v = "case map_of hs ''x-starling-ts'' of
               Some ts_header \<Rightarrow>
                 (case Option.bind ts_header parse_i64 of
                    None \<Rightarrow> Inl (401 :: nat, ''bad x-starling-ts'')
                  | Some ts \<Rightarrow>
                      if MAX_TS_SKEW_SECS < i64_abs (i64_wrap (now - ts))
                      then Inl (401, ''stale x-starling-ts'')
                      else Inr (verify_owner_request_sig x key m p ts body sig))
             | None \<Rightarrow> Inr (verify_owner_sig x key body sig)"
        let ?r = "case ?v of Inl (_, msg) \<Rightarrow> Inl msg | Inr ok \<Rightarrow> if ok then Inr key else Inl ''invalid signature''"
        from p s k g show ?thesis
          by (intro exI [of _ ?r]) (simp add: verify_owner_request_def Let_def split: option.splits)
      qed
    qed
  qed
qed

lemma verify_codes:
  "verify_owner_request x now hs m p body pk = Inl (c, msg) \<Longrightarrow> c = 401 \<or> c = 403"
proof -
  assume h: "verify_owner_request x now hs m p body pk = Inl (c, msg)"
  obtain r where "\<forall>k. verify_owner_request x now hs m p body k =
     (case r of Inl msg \<Rightarrow> Inl (401, msg)
      | Inr j \<Rightarrow> if j \<noteq> k then Inl (403, ''pubkey is not this relay owner'') else Inr ())"
    using verify_two_steps by blast
  with h show ?thesis by (cases r) (auto split: if_splits)
qed

lemma guarded_changes: "snd (guarded v w k) \<noteq> w \<Longrightarrow> v = Inr ()"
  by (auto simp: guarded_def split: sum.splits)

lemma guarded_ok: "guarded (Inr u) w k = k"
  by (simp add: guarded_def)

lemma guarded_cases:
  "guarded v w k = k \<or> (\<exists>code msg. v = Inl (code, msg) \<and> guarded v w k = (plain code msg, w))"
  by (cases v) (auto simp: guarded_def)

lemma read_handlers_pure:
  "snd (status_handler e ctx w) = w" "snd (manifest_handler x e ctx s u ui w) = w"
  "snd (events_get_handler x e ctx s si w) = w" "snd (media_get_handler e ctx h w) = w"
  "snd (media_manifest_handler x e ctx hs a w) = w"
  by (auto simp: status_handler_def manifest_handler_def events_get_handler_def media_get_handler_def
      media_manifest_handler_def guarded_def Let_def split: sum.splits option.splits)

text \<open>The path a write request is verified against.\<close>

definition signed_path :: "request \<Rightarrow> str \<Rightarrow> bool" where
  "signed_path rq p \<longleftrightarrow> p = rq_path rq \<or>
     (\<exists>seg h. rq_path rq = ''/media/'' @ seg \<and> rq_param rq seg = Some h \<and> p = ''/media/'' @ h)"

lemma media_segment_path: "media_segment p = Some seg \<Longrightarrow> p = ''/media/'' @ seg"
  by (auto simp: media_segment_def split: if_splits) (metis append_take_drop_id append_Cons append_Nil)

lemma owner_route_paths:
  "owner_route m p = Some R_events_push \<Longrightarrow> m = ''POST'' \<and> p = ''/events''"
  "owner_route m p = Some R_events_delete \<Longrightarrow> m = ''POST'' \<and> p = ''/events/delete''"
  "owner_route m p = Some R_media_delete \<Longrightarrow> m = ''POST'' \<and> p = ''/media/delete''"
  "owner_route m p = Some (R_media_push seg) \<Longrightarrow> m = ''POST'' \<and> p = ''/media/'' @ seg"
  "owner_route m p = Some R_unpair \<Longrightarrow> m = ''POST'' \<and> p = ''/unpair''"
  "owner_route m p = Some R_voice_rooms \<Longrightarrow> m = ''POST'' \<and> p = ''/voice/rooms''"
  by (auto simp: owner_route_def split: if_splits dest: media_segment_path)

lemma dispatch_writes:
  "dispatch x e ctx rq R_events_push w = with_body rq w (events_push_handler x e ctx (rq_headers rq) (rq_body rq) w)"
  "dispatch x e ctx rq R_events_delete w = with_body rq w (events_delete_handler x e ctx (rq_headers rq) (rq_body rq) w)"
  "dispatch x e ctx rq R_media_delete w = with_body rq w (media_delete_handler x e ctx (rq_headers rq) (rq_body rq) w)"
  "dispatch x e ctx rq (R_media_push seg) w = with_param rq seg w (\<lambda>h.
     with_body rq w (media_push_handler x e ctx h (rq_headers rq) (rq_body rq) w))"
  "dispatch x e ctx rq R_unpair w = with_body rq w (unpair_handler x e ctx (rq_headers rq) (rq_body rq) w)"
  "dispatch x e ctx rq R_voice_rooms w = with_body rq w (rooms_handler x e ctx (rq_headers rq) (rq_body rq) w)"
  by (simp_all add: dispatch_def)

lemma dispatch_reads_pure:
  "is_read r \<or> r = R_media_manifest \<Longrightarrow> snd (dispatch x e ctx rq r w) = w"
  by (cases r)
    (auto simp: is_read_def dispatch_def with_param_def Let_def read_handlers_pure split: option.splits)

lemma with_body_changes: "snd (with_body rq w k) \<noteq> w \<Longrightarrow> snd k \<noteq> w"
  by (auto simp: with_body_def split: if_splits)

lemma with_param_changes:
  "snd (with_param rq seg w k) \<noteq> w \<Longrightarrow> \<exists>h. rq_param rq seg = Some h \<and> snd (k h) \<noteq> w"
  by (auto simp: with_param_def split: option.splits)

lemma write_handlers_guarded:
  "snd (events_push_handler x e ctx hs body w) \<noteq> w \<Longrightarrow>
     verify_owner_request x (e_now e) hs ''POST'' ''/events'' body (cx_owner_pubkey ctx) = Inr ()"
  "snd (events_delete_handler x e ctx hs body w) \<noteq> w \<Longrightarrow>
     verify_owner_request x (e_now e) hs ''POST'' ''/events/delete'' body (cx_owner_pubkey ctx) = Inr ()"
  "snd (media_delete_handler x e ctx hs body w) \<noteq> w \<Longrightarrow>
     verify_owner_request x (e_now e) hs ''POST'' ''/media/delete'' body (cx_owner_pubkey ctx) = Inr ()"
  "snd (media_push_handler x e ctx h hs body w) \<noteq> w \<Longrightarrow>
     verify_owner_request x (e_now e) hs ''POST'' (''/media/'' @ h) body (cx_owner_pubkey ctx) = Inr ()"
  "snd (unpair_handler x e ctx hs body w) \<noteq> w \<Longrightarrow>
     verify_owner_request x (e_now e) hs ''POST'' ''/unpair'' body (cx_owner_pubkey ctx) = Inr ()"
  "snd (rooms_handler x e ctx hs body w) \<noteq> w \<Longrightarrow>
     verify_owner_request x (e_now e) hs ''POST'' ''/voice/rooms'' body (cx_owner_pubkey ctx) = Inr ()"
  unfolding events_push_handler_def events_delete_handler_def media_delete_handler_def
    unpair_handler_def rooms_handler_def
  by (erule guarded_changes)+ (auto simp: media_push_handler_def split: if_splits dest: guarded_changes)

lemma dispatch_changes:
  assumes "snd (dispatch x e ctx rq r w) \<noteq> w" "owner_route (rq_method rq) (rq_path rq) = Some r"
  shows "\<not> is_read r \<and> (\<exists>p. signed_path rq p \<and>
    verify_owner_request x (e_now e) (rq_headers rq) (rq_method rq) p (rq_body rq) (cx_owner_pubkey ctx) = Inr ())"
proof -
  have nr: "\<not> is_read r" "r \<noteq> R_media_manifest" using assms(1) dispatch_reads_pure by blast+
  show ?thesis
  proof (cases r)
    case R_events_push
    from owner_route_paths(1) [OF assms(2) [unfolded this]] write_handlers_guarded(1) [OF with_body_changes]
      assms(1) [unfolded this dispatch_writes]
    show ?thesis using nr(1) by (auto simp: signed_path_def)
  next
    case R_events_delete
    from owner_route_paths(2) [OF assms(2) [unfolded this]] write_handlers_guarded(2) [OF with_body_changes]
      assms(1) [unfolded this dispatch_writes]
    show ?thesis using nr(1) by (auto simp: signed_path_def)
  next
    case R_media_delete
    from owner_route_paths(3) [OF assms(2) [unfolded this]] write_handlers_guarded(3) [OF with_body_changes]
      assms(1) [unfolded this dispatch_writes]
    show ?thesis using nr(1) by (auto simp: signed_path_def)
  next
    case (R_media_push seg)
    from with_param_changes [OF assms(1) [unfolded this dispatch_writes]] obtain h where
      h: "rq_param rq seg = Some h" "snd (media_push_handler x e ctx h (rq_headers rq) (rq_body rq) w) \<noteq> w"
      using with_body_changes by blast
    from owner_route_paths(4) [OF assms(2) [unfolded R_media_push]] write_handlers_guarded(4) [OF h(2)] h(1)
    show ?thesis using nr(1) unfolding signed_path_def by metis
  next
    case R_unpair
    from owner_route_paths(5) [OF assms(2) [unfolded this]] write_handlers_guarded(5) [OF with_body_changes]
      assms(1) [unfolded this dispatch_writes]
    show ?thesis using nr(1) by (auto simp: signed_path_def)
  next
    case R_voice_rooms
    from owner_route_paths(6) [OF assms(2) [unfolded this]] write_handlers_guarded(6) [OF with_body_changes]
      assms(1) [unfolded this dispatch_writes]
    show ?thesis using nr(1) by (auto simp: signed_path_def)
  qed (use nr in \<open>simp_all add: is_read_def\<close>)
qed

lemma owner_router_cases:
  assumes "owner_router x e ctx rq (ro, w) = Some (rs, ro', w')"
  obtains (limited) r where "owner_route (rq_method rq) (rq_path rq) = Some r" "w' = w" "rs_status rs = 429"
  | (served) r where "owner_route (rq_method rq) (rq_path rq) = Some r" "dispatch x e ctx rq r w = (rs, w')"
  using assms
  by (auto simp: owner_router_def rate_limit_mw_def split: option.splits if_splits prod.splits)

lemma owner_router_buckets:
  assumes "owner_router x e ctx rq (ro, w) = Some (rs, ro', w')" "owner_route (rq_method rq) (rq_path rq) = Some r"
  shows "if is_read r then ro_writes ro' = ro_writes ro \<and> ro_reads ro' = snd (try_acquire_at (e_instant e) (ro_reads ro))
         else ro_reads ro' = ro_reads ro \<and> ro_writes ro' = snd (try_acquire_at (e_instant e) (ro_writes ro))"
  using assms
  by (auto simp: owner_router_def rate_limit_mw_def split: option.splits if_splits prod.splits)

section \<open>Closed example requests\<close>

text \<open>
  The example Owner's key is 32 ones; under \<open>plain_ext\<close> a signature is the digest followed
  by the key, and base64 text is the bytes themselves.
\<close>

definition ex_key :: bytes where "ex_key = replicate 32 1"

definition ex_env :: env where
  "ex_env = \<lparr>e_now = 1000, e_instant = 0, e_pool_ok = True, e_commit_ok = True, e_mkdir_ok = True,
     e_torn = None, e_rename_ok = True, e_unlink_ok = (\<lambda>_. True)\<rparr>"

definition ex_ctx :: owner_ctx where
  "ex_ctx = \<lparr>cx_owner_pubkey = ex_key, cx_caps = \<lparr>cp_per_owner_default = 100, cp_disk_cap = 1000\<rparr>,
     cx_unpair = True, cx_voice = Some \<lparr>vc_max_participants = 8\<rparr>\<rparr>"

definition ex_world :: world where
  "ex_world = \<lparr>w_db = empty_db\<lparr>d_owners := [(ex_owner 1 9000)\<lparr>po_pubkey := ex_key\<rparr>]\<rparr>, w_fs = [],
     w_unpairs = 0, w_registered = []\<rparr>"

definition ex_text :: "bytes \<Rightarrow> str" where "ex_text bs = map byte_char bs"

definition legacy_headers :: "bytes \<Rightarrow> headers" where
  "legacy_headers body =
     [(''x-starling-pubkey'', Some (ex_text ex_key)),
      (''x-starling-sig'', Some (ex_text (blake2b256 plain_ext body @ ex_key)))]"

definition bound_headers :: "str \<Rightarrow> str \<Rightarrow> int \<Rightarrow> str \<Rightarrow> bytes \<Rightarrow> headers" where
  "bound_headers m p ts ts_text body =
     [(''x-starling-pubkey'', Some (ex_text ex_key)),
      (''x-starling-sig'', Some (ex_text (owner_request_digest plain_ext m p ts body @ ex_key))),
      (''x-starling-ts'', Some ts_text)]"

lemma ex_text_decode [simp]: "x_b64_decode plain_ext (ex_text bs) = Some bs"
  by (simp add: plain_ext_def ex_text_def as_bytes_def comp_def)

lemma blake_plain_length [simp]: "length (blake2b256 plain_ext b) = 32"
  by (simp add: blake2b256_def plain_ext_def)

lemma ex_signature [simp]: "verify_ed25519 plain_ext ex_key d (d @ ex_key) \<longleftrightarrow> length d = 32"
  by (simp add: verify_ed25519_def plain_ext_def ex_key_def)

lemma legacy_headers_verify:
  "verify_owner_request plain_ext now (legacy_headers body) m p body ex_key = Inr ()"
  by (simp add: verify_accepts legacy_headers_def header_str_def verify_owner_sig_def)

lemma bound_headers_verify:
  "parse_i64 ts_text = Some ts \<Longrightarrow> i64_abs (i64_wrap (now - ts)) \<le> MAX_TS_SKEW_SECS \<Longrightarrow>
   verify_owner_request plain_ext now (bound_headers m p ts ts_text body) m p body ex_key = Inr ()"
  by (simp add: verify_accepts bound_headers_def header_str_def verify_owner_request_sig_def
      owner_request_digest_def)

definition ex_post :: "str \<Rightarrow> bytes \<Rightarrow> request" where
  "ex_post p body = \<lparr>rq_method = ''POST'', rq_path = p, rq_query = Some [], rq_param = Some,
     rq_headers = legacy_headers body, rq_body = body\<rparr>"

lemma new_router_acquire:
  "try_acquire_at 0 (ro_writes (new_router 0)) =
     (None, (ro_writes (new_router 0))\<lparr>bk_tokens := 59\<rparr>)"
  by (simp add: new_router_def per_minute_def try_acquire_at_def OWNER_BURST_def)

lemma ex_unpair_served:
  "owner_router plain_ext ex_env ex_ctx (ex_post ''/unpair'' []) (new_router 0, ex_world) =
     Some (status_only 200, (new_router 0)\<lparr>ro_writes := (ro_writes (new_router 0))\<lparr>bk_tokens := 59\<rparr>\<rparr>,
           ex_world\<lparr>w_unpairs := 1\<rparr>)"
  by (simp add: owner_router_def ex_post_def owner_route_def is_read_def rate_limit_mw_def ex_env_def
      new_router_acquire dispatch_writes with_body_def unpair_handler_def legacy_headers_verify ex_ctx_def
      guarded_def ex_world_def)

section \<open>Authentication properties\<close>



text \<open>
  The outcome of verification is exact: \<open>200\<close>-class processing only for this Owner's
  key, \<open>403\<close> exactly when the signature is a valid one of another key, \<open>401\<close> otherwise.
\<close>
theorem owner_auth_outcomes:
  "case verify_owner_request x now hs m p body pk of
     Inr _ \<Rightarrow> \<exists>pk64 sig64 sig. header_str hs ''x-starling-pubkey'' = Some pk64 \<and>
        x_b64_decode x pk64 = Some pk \<and> header_str hs ''x-starling-sig'' = Some sig64 \<and>
        x_b64_decode x sig64 = Some sig \<and>
        (case map_of hs ''x-starling-ts'' of
           None \<Rightarrow> verify_owner_sig x pk body sig
         | Some h \<Rightarrow> \<exists>ts. Option.bind h parse_i64 = Some ts \<and> verify_owner_request_sig x pk m p ts body sig)
   | Inl (code, _) \<Rightarrow>
        (code = 403 \<longleftrightarrow> (\<exists>pk'. verify_owner_request x now hs m p body pk' = Inr ())) \<and>
        (code = 403 \<or> code = 401)"
proof (cases "verify_owner_request x now hs m p body pk")
  case (Inr u)
  then have "verify_owner_request x now hs m p body pk = Inr ()" by simp
  from this [unfolded verify_accepts] Inr show ?thesis
    by (cases "map_of hs ''x-starling-ts''") (simp_all, blast+)
next
  case (Inl err)
  from verify_two_steps obtain r where r: "\<And>k. verify_owner_request x now hs m p body k =
     (case r of Inl msg \<Rightarrow> Inl (401, msg)
      | Inr j \<Rightarrow> if j \<noteq> k then Inl (403, ''pubkey is not this relay owner'') else Inr ())"
    by blast
  show ?thesis
    using Inl unfolding r by (cases r) (auto split: if_splits)
qed

text \<open>
  With a clock in the realistic range, a timestamped request is refused as stale exactly
  when its timestamp is more than ten minutes away from the relay's clock, with one
  exception: the timestamp \<open>now - 2^63\<close>, for which the difference wraps to the smallest
  64-bit integer, whose absolute value wraps to itself, and which is let through.
\<close>
theorem owner_timestamp_window:
  assumes "0 \<le> now" "now < 2 ^ 62" "in_i64 ts"
    and "header_str hs ''x-starling-pubkey'' = Some pk64" "x_b64_decode x pk64 = Some key"
    and "header_str hs ''x-starling-sig'' = Some sig64" "x_b64_decode x sig64 = Some sig"
    and "map_of hs ''x-starling-ts'' = Some (Some t)" "parse_i64 t = Some ts"
  shows "verify_owner_request x now hs m p body pk = Inl (401, ''stale x-starling-ts'') \<longleftrightarrow>
    600 < \<bar>now - ts\<bar> \<and> ts \<noteq> now - 2 ^ 63"
proof -
  have "verify_owner_request x now hs m p body pk = Inl (401, ''stale x-starling-ts'') \<longleftrightarrow>
      MAX_TS_SKEW_SECS < i64_abs (i64_wrap (now - ts))"
    using assms(4-9) by (auto simp: verify_owner_request_def Let_def)
  also have "\<dots> \<longleftrightarrow> 600 < \<bar>now - ts\<bar> \<and> ts \<noteq> now - 2 ^ 63"
  proof (cases "now - ts < 2 ^ 63")
    case True
    have "in_i64 (now - ts)" "in_i64 \<bar>now - ts\<bar>"
      using True assms(1-3) by (auto simp: in_i64_def i64_min_def i64_max_def)
    with True show ?thesis by (auto simp: i64_abs_def i64_wrap_id MAX_TS_SKEW_SECS_def)
  next
    case False
    have "i64_wrap (now - ts) = now - ts - 2 ^ 64"
      using False assms(1-3) by (intro i64_wrap_high) (simp_all add: in_i64_def i64_min_def)
    moreover have "i64_abs (now - ts - 2 ^ 64) = (if now - ts = 2 ^ 63 then - (2 ^ 63) else 2 ^ 64 - (now - ts))"
    proof (cases "now - ts = 2 ^ 63")
      case True
      then show ?thesis by (simp add: i64_abs_def i64_wrap_def)
    next
      case ne: False
      have "\<bar>now - ts - 2 ^ 64\<bar> = 2 ^ 64 - (now - ts)" "in_i64 (2 ^ 64 - (now - ts))"
        using False ne assms(1-3) by (auto simp: in_i64_def i64_min_def i64_max_def)
      with ne show ?thesis by (simp add: i64_abs_def i64_wrap_id)
    qed
    ultimately show ?thesis
      using False assms(1-3) by (auto simp: MAX_TS_SKEW_SECS_def in_i64_def i64_min_def i64_max_def)
  qed
  finally show ?thesis .
qed

lemma owner_timestamp_window_witness:
  "verify_owner_request plain_ext 5000 (bound_headers ''GET'' ''/media-manifest'' 9 ''9'' []) ''GET'' ''/media-manifest'' [] ex_key
     = Inl (401, ''stale x-starling-ts'')"
proof -
  have "parse_i64 ''9'' = Some 9" by code_simp
  then show ?thesis
    using owner_timestamp_window [of 5000 9 "bound_headers ''GET'' ''/media-manifest'' 9 ''9'' []" "ex_text ex_key" plain_ext
      ex_key "ex_text (owner_request_digest plain_ext ''GET'' ''/media-manifest'' 9 [] @ ex_key)"
      "owner_request_digest plain_ext ''GET'' ''/media-manifest'' 9 [] @ ex_key" "''9''" "''GET''" "''/media-manifest''" "[]" ex_key]
    by (simp add: bound_headers_def header_str_def in_i64_def i64_min_def i64_max_def)
qed



text \<open>
  The two rate limiters are separate: whatever sequence of read requests Followers send,
  the bucket that admits the Owner's writes is untouched, so reads cannot use it up.
\<close>
theorem reads_spare_writes:
  assumes "owner_router x e ctx rq (ro, w) = Some (rs, ro', w')"
    and "rq_method rq = ''GET''" "rq_path rq \<noteq> ''/media-manifest''"
  shows "ro_writes ro' = ro_writes ro"
proof -
  obtain r where r: "owner_route (rq_method rq) (rq_path rq) = Some r"
    using assms(1) by (cases rule: owner_router_cases) auto
  then have "is_read r"
    using assms(2,3) by (auto simp: owner_route_def is_read_def split: if_splits)
  with owner_router_buckets [OF assms(1) r] show ?thesis by simp
qed

lemma reads_spare_writes_witness:
  "\<exists>rs ro' w'. owner_router plain_ext (ex_env\<lparr>e_pool_ok := False\<rparr>) ex_ctx
      ((ex_post ''/status'' [])\<lparr>rq_method := ''GET''\<rparr>) (new_router 0, ex_world) = Some (rs, ro', w') \<and>
    ro_writes ro' = ro_writes (new_router 0)"
proof -
  have "try_acquire_at 0 (ro_reads (new_router 0)) = (None, (ro_reads (new_router 0))\<lparr>bk_tokens := 59\<rparr>)"
    by (simp add: new_router_def per_minute_def try_acquire_at_def READ_BURST_def)
  then have "owner_router plain_ext (ex_env\<lparr>e_pool_ok := False\<rparr>) ex_ctx
      ((ex_post ''/status'' [])\<lparr>rq_method := ''GET''\<rparr>) (new_router 0, ex_world) =
      Some (internal Pool_exhausted, (new_router 0)\<lparr>ro_reads := (ro_reads (new_router 0))\<lparr>bk_tokens := 59\<rparr>\<rparr>, ex_world)"
    by (simp add: owner_router_def ex_post_def owner_route_def is_read_def rate_limit_mw_def ex_env_def
        dispatch_def status_handler_def)
  from reads_spare_writes [OF this] this show ?thesis by (simp add: ex_post_def)
qed

section \<open>What the handlers keep\<close>

lemma push_loop_rows:
  assumes "push_loop x now pk items a r db = Inr (rc, db')" "db_inv db"
  shows "db_inv db' \<and> rc_accepted rc + rc_rejected rc = a + r + int (length items) \<and>
    a \<le> rc_accepted rc \<and> r \<le> rc_rejected rc \<and>
    (\<exists>rows. db' = db\<lparr>d_events := d_events db @ rows\<rparr> \<and>
       (\<forall>row \<in> set rows. \<exists>it \<in> set items. item_event x now pk it = Some (er_event row) \<and> row = event_to_row (er_event row)) \<and>
       0 \<le> tbl_sum er_size rows \<and>
       tbl_sum er_size rows \<le> sum_list (map (\<lambda>i. int (length (pi_payload i))) items)) \<and>
    (\<forall>it \<in> set items. item_event x now pk it \<noteq> None \<longrightarrow> tbl_find er_key (pk, pi_id it) (d_events db') \<noteq> None)"
  using assms
proof (induction items arbitrary: a r db)
  case Nil
  then show ?case by (auto intro!: exI [of _ "[]"])
next
  case (Cons it items)
  show ?case
  proof (cases "item_event x now pk it")
    case None
    then have "push_loop x now pk items a (r + 1) db = Inr (rc, db')" using Cons.prems(1) by simp
    from Cons.IH [OF this Cons.prems(2)] None show ?thesis by (fastforce simp: add_increasing)
  next
    case (Some ev)
    obtain b db1 where i: "events_insert ev db = Inr (b, db1)" "push_loop x now pk items (a + 1) r db1 = Inr (rc, db')"
      using Cons.prems(1) Some by (auto split: sum.splits)
    have key: "ev_pubkey ev = pk" "ev_id ev = pi_id it" "ev_payload ev = pi_payload it"
      using Some by (auto simp: item_event_def split: if_splits option.splits)
    obtain rows0 where r0: "db1 = db\<lparr>d_events := d_events db @ rows0\<rparr>" "rows0 = [] \<or> rows0 = [event_to_row ev]"
      using i(1) by (cases rule: events_insert_cases) (auto intro: that [of "[]"])
    have found: "tbl_find er_key (pk, pi_id it) (d_events db1) \<noteq> None"
      using events_insert_find [OF i(1), of "(pk, pi_id it)"] key by (auto split: option.splits)
    from Cons.IH [OF i(2) db_inv_events_insert [OF Cons.prems(2) i(1)]] obtain rows where
      ih: "db_inv db'" "rc_accepted rc + rc_rejected rc = a + 1 + r + int (length items)"
        "a + 1 \<le> rc_accepted rc" "r \<le> rc_rejected rc" "db' = db1\<lparr>d_events := d_events db1 @ rows\<rparr>"
        "\<forall>row \<in> set rows. \<exists>it \<in> set items. item_event x now pk it = Some (er_event row) \<and> row = event_to_row (er_event row)"
        "0 \<le> tbl_sum er_size rows"
        "tbl_sum er_size rows \<le> sum_list (map (\<lambda>i. int (length (pi_payload i))) items)"
        "\<forall>it \<in> set items. item_event x now pk it \<noteq> None \<longrightarrow> tbl_find er_key (pk, pi_id it) (d_events db') \<noteq> None"
      by blast
    have found': "tbl_find er_key (pk, pi_id it) (d_events db') \<noteq> None"
      using found by (auto simp: ih(5) tbl_find_append split: option.splits)
    have rows0: "\<forall>row \<in> set rows0. item_event x now pk it = Some (er_event row) \<and> row = event_to_row (er_event row)"
      "0 \<le> tbl_sum er_size rows0" "tbl_sum er_size rows0 \<le> int (length (pi_payload it))"
      using r0(2) Some key by (auto simp: event_to_row_def)
    show ?thesis
    proof (intro conjI exI [of _ "rows0 @ rows"])
      show "db' = db\<lparr>d_events := d_events db @ rows0 @ rows\<rparr>" by (simp add: ih(5) r0(1))
      show "\<forall>row \<in> set (rows0 @ rows). \<exists>i \<in> set (it # items). item_event x now pk i = Some (er_event row) \<and> row = event_to_row (er_event row)"
        using rows0(1) ih(6) by fastforce
      show "\<forall>i \<in> set (it # items). item_event x now pk i \<noteq> None \<longrightarrow> tbl_find er_key (pk, pi_id i) (d_events db') \<noteq> None"
        using found' ih(9) by simp
    qed (use ih rows0 in auto)
  qed
qed

text \<open>Every media row has its file, at the path of its Owner and hash.\<close>

definition media_ok :: "ext \<Rightarrow> db \<Rightarrow> fs \<Rightarrow> bool" where
  "media_ok x db fs \<longleftrightarrow> (\<forall>r \<in> set (d_media db). is_valid_hash (sm_hash r) \<and> 0 \<le> sm_size r \<and>
     sm_path r = owner_shard_path x (sm_pubkey r) (sm_hash r) \<and> map_of fs (sm_path r) \<noteq> None)"

definition world_ok :: "ext \<Rightarrow> world \<Rightarrow> bool" where
  "world_ok x w \<longleftrightarrow> db_inv (w_db w) \<and> media_ok x (w_db w) (w_fs w)"

lemma world_ok_sizes: "world_ok x w \<Longrightarrow> sizes_ok (w_db w)"
  by (auto simp: world_ok_def media_ok_def intro: sizes_okI)

lemma owner_shard_path_inj:
  assumes "inj (x_hex_encode x)" "is_valid_hash h" "is_valid_hash h'"
    and "owner_shard_path x pk h = owner_shard_path x pk' h'"
  shows "pk = pk' \<and> h = h'"
proof -
  have len: "length h = length h'" using assms(2,3) by (simp add: is_valid_hash_def)
  have e: "(x_hex_encode x pk @ ''/'' @ take 2 h @ ''/'' @ take 4 h @ ''/'') @ h =
      (x_hex_encode x pk' @ ''/'' @ take 2 h' @ ''/'' @ take 4 h' @ ''/'') @ h'"
    using assms(4) by (simp add: owner_shard_path_def shard_path_def)
  then have h: "h = h'" using len by (metis append_eq_append_conv)
  with e have "x_hex_encode x pk = x_hex_encode x pk'" by simp
  with h assms(1) show ?thesis by (simp add: inj_eq)
qed

lemma tmp_not_shard:
  assumes "is_valid_hash h"
  shows "p @ ''.tmp'' \<noteq> owner_shard_path x pk h"
proof
  assume a: "p @ ''.tmp'' = owner_shard_path x pk h"
  have "h \<noteq> []" using assms by (auto simp: is_valid_hash_def)
  then have "last h = CHR ''p''" using arg_cong [OF a, of last] by (simp add: owner_shard_path_def shard_path_def)
  moreover have "is_digit (last h) \<or> CHR ''a'' \<le> last h \<and> last h \<le> CHR ''f''"
    using assms \<open>h \<noteq> []\<close> by (simp add: is_valid_hash_def list_all_iff)
  ultimately show False by (simp add: is_digit_def less_eq_char_def)
qed

lemma media_ok_other:
  assumes "media_ok x db fs" "\<And>r. r \<in> set (d_media db') \<Longrightarrow> r \<in> set (d_media db)"
    "\<And>r. r \<in> set (d_media db') \<Longrightarrow> map_of fs (sm_path r) \<noteq> None \<Longrightarrow> map_of fs' (sm_path r) \<noteq> None"
  shows "media_ok x db' fs'"
  using assms unfolding media_ok_def by blast

lemma media_push_tx_ok:
  assumes "db_inv db" "media_ok x db fs" "is_valid_hash h"
    and "media_push_tx x e ctx h body db fs = (r, db', fs')"
  shows "db_inv db' \<and> media_ok x db' fs'"
proof -
  let ?rel = "owner_shard_path x (cx_owner_pubkey ctx) h"
  let ?tmp = "?rel @ ''.tmp''"
  let ?rec = "\<lparr>sm_pubkey = cx_owner_pubkey ctx, sm_hash = h, sm_size = int (length body),
      sm_created_at = e_now e, sm_path = ?rel\<rparr>"
  have not_tmp: "sm_path q \<noteq> ?tmp" if "q \<in> set (d_media db)" for q
    using that assms(2) tmp_not_shard unfolding media_ok_def by metis
  have keep: "media_ok x db fs1"
    if "\<And>p. p \<noteq> ?tmp \<Longrightarrow> map_of fs p \<noteq> None \<Longrightarrow> map_of fs1 p \<noteq> None" for fs1
    by (rule media_ok_other [OF assms(2)]) (use that not_tmp in blast)+
  consider (same) "db' = db" "fs' = fs"
    | (torn) k where "db' = db" "fs' = AList.update ?tmp (take k body) fs"
    | (norename) "db' = db" "fs' = AList.update ?tmp body fs"
    | (nocommit) "db' = db" "fs' = AList.update ?rel body (AList.delete ?tmp (AList.update ?tmp body fs))"
    | (stored) "media_upsert ?rec db = Inr db'" "fs' = AList.update ?rel body (AList.delete ?tmp (AList.update ?tmp body fs))"
    using assms(4)
    by (auto simp: media_push_tx_def Let_def split: if_splits sum.splits cap_check.splits option.splits)
  then show ?thesis
  proof cases
    case same
    then show ?thesis using assms by simp
  next
    case (torn k)
    then show ?thesis using assms(1) by (auto intro!: keep simp: update_conv')
  next
    case norename
    then show ?thesis using assms(1) by (auto intro!: keep simp: update_conv')
  next
    case nocommit
    then show ?thesis using assms(1) by (auto intro!: keep simp: update_conv' delete_conv')
  next
    case stored
    have "media_ok x db' fs'"
      unfolding media_ok_def
    proof
      fix q assume "q \<in> set (d_media db')"
      then have "q = ?rec \<or> q \<in> set (d_media db)"
        using stored(1) set_tbl_upsert by (fastforce simp: media_upsert_def split: if_splits)
      then show "is_valid_hash (sm_hash q) \<and> 0 \<le> sm_size q \<and>
          sm_path q = owner_shard_path x (sm_pubkey q) (sm_hash q) \<and> map_of fs' (sm_path q) \<noteq> None"
      proof
        assume "q = ?rec"
        then show ?thesis using assms(3) by (simp add: stored(2) update_conv')
      next
        assume q: "q \<in> set (d_media db)"
        then show ?thesis using assms(2) not_tmp [OF q]
          unfolding media_ok_def by (auto simp: stored(2) update_conv' delete_conv')
      qed
    qed
    then show ?thesis using db_inv_media_upsert [OF assms(1) stored(1)] by blast
  qed
qed

lemma media_delete_step:
  "media_delete pk h db = (media_get pk h db, db\<lparr>d_media := filter (\<lambda>r. sm_key r \<noteq> (pk, h)) (d_media db)\<rparr>)"
proof (cases "media_get pk h db")
  case None
  then have "filter (\<lambda>r. sm_key r \<noteq> (pk, h)) (d_media db) = d_media db"
    unfolding media_get_def tbl_find_None by (intro filter_True) force
  with None show ?thesis by (simp add: media_delete_def)
qed (simp add: media_delete_def tbl_delete_def)

lemma media_get_after_delete:
  "media_get pk h' (db\<lparr>d_media := filter (\<lambda>r. sm_key r \<noteq> (pk, h)) (d_media db)\<rparr>) =
     (if h' = h then None else media_get pk h' db)"
  using tbl_find_filter [of sm_key "(pk, h')" "\<lambda>k. k \<noteq> (pk, h)" "d_media db"]
  by (simp add: media_get_def)

lemma media_delete_loop_spec:
  assumes "media_delete_loop pk hs n u db = (n', u', db')"
  shows "db' = db\<lparr>d_media := filter (\<lambda>r. \<not> (sm_pubkey r = pk \<and> sm_hash r \<in> set hs)) (d_media db)\<rparr> \<and>
    n' = n + int (card {h \<in> set hs. media_get pk h db \<noteq> None}) \<and>
    (\<exists>ps. u' = u @ ps \<and> set ps \<subseteq> {sm_path r |r. r \<in> set (d_media db) \<and> sm_pubkey r = pk \<and> sm_hash r \<in> set hs} \<and>
       (\<forall>h \<in> set hs. \<forall>r. media_get pk h db = Some r \<longrightarrow> sm_path r \<in> set ps))"
  using assms
proof (induction hs arbitrary: n u db)
  case (Cons h hs)
  define db1 where "db1 = db\<lparr>d_media := filter (\<lambda>r. sm_key r \<noteq> (pk, h)) (d_media db)\<rparr>"
  have g1: "media_get pk h' db1 = (if h' = h then None else media_get pk h' db)" for h'
    unfolding db1_def by (rule media_get_after_delete)
  let ?g = "media_get pk h db"
  let ?n1 = "if ?g = None then n else n + 1"
  let ?u1 = "case ?g of None \<Rightarrow> u | Some r \<Rightarrow> u @ [sm_path r]"
  have "media_delete_loop pk hs ?n1 ?u1 db1 = (n', u', db')"
    using Cons.prems by (cases ?g) (simp_all add: media_delete_step db1_def)
  from Cons.IH [OF this] obtain ps where
    d: "db' = db1\<lparr>d_media := filter (\<lambda>r. \<not> (sm_pubkey r = pk \<and> sm_hash r \<in> set hs)) (d_media db1)\<rparr>"
    and n': "n' = ?n1 + int (card {h \<in> set hs. media_get pk h db1 \<noteq> None})"
    and ps: "u' = ?u1 @ ps" "set ps \<subseteq> {sm_path r |r. r \<in> set (d_media db1) \<and> sm_pubkey r = pk \<and> sm_hash r \<in> set hs}"
      "\<forall>h \<in> set hs. \<forall>r. media_get pk h db1 = Some r \<longrightarrow> sm_path r \<in> set ps"
    by blast
  have 1: "db' = db\<lparr>d_media := filter (\<lambda>r. \<not> (sm_pubkey r = pk \<and> sm_hash r \<in> set (h # hs))) (d_media db)\<rparr>"
    unfolding d db1_def by (simp add: filter_filter) (intro arg_cong [where f = "\<lambda>ms. db\<lparr>d_media := ms\<rparr>"] filter_cong, auto)
  have "{h' \<in> set (h # hs). media_get pk h' db \<noteq> None} =
      (if ?g = None then {} else {h}) \<union> {h' \<in> set hs. media_get pk h' db1 \<noteq> None}"
    by (auto simp: g1)
  moreover have "h \<notin> {h' \<in> set hs. media_get pk h' db1 \<noteq> None}" by (simp add: g1)
  ultimately have 2: "n' = n + int (card {h' \<in> set (h # hs). media_get pk h' db \<noteq> None})"
    using n' by (cases ?g) simp_all
  let ?p0 = "case ?g of None \<Rightarrow> [] | Some r \<Rightarrow> [sm_path r]"
  have 3: "u' = u @ (?p0 @ ps)" using ps(1) by (cases ?g) simp_all
  have 4: "set (?p0 @ ps) \<subseteq> {sm_path r |r. r \<in> set (d_media db) \<and> sm_pubkey r = pk \<and> sm_hash r \<in> set (h # hs)}"
    using ps(2) by (cases ?g) (auto simp: media_get_def db1_def dest!: tbl_find_SomeD)
  have 5: "\<forall>h' \<in> set (h # hs). \<forall>r. media_get pk h' db = Some r \<longrightarrow> sm_path r \<in> set (?p0 @ ps)"
  proof (intro ballI allI impI)
    fix h' r assume "h' \<in> set (h # hs)" "media_get pk h' db = Some r"
    then show "sm_path r \<in> set (?p0 @ ps)"
      using ps(3) by (cases "h' = h") (auto simp: g1)
  qed
  show ?case using 1 2 3 4 5 by blast
qed simp

lemma map_of_unlink_all:
  "map_of (unlink_all ok rels fs) p = (if p \<in> set rels \<and> ok p then None else map_of fs p)"
  by (induction rels arbitrary: fs) (auto simp: delete_conv')

lemma media_delete_ok:
  assumes "db_inv db" "media_ok x db fs" "inj (x_hex_encode x)"
    and "media_delete_loop pk hs n [] db = (n', u', db')"
  shows "db_inv db' \<and> media_ok x db' (unlink_all ok u' fs)"
proof -
  note s = media_delete_loop_spec [OF assms(4)]
  have d: "d_media db' = filter (\<lambda>r. \<not> (sm_pubkey r = pk \<and> sm_hash r \<in> set hs)) (d_media db)"
    and db': "db' = db\<lparr>d_media := d_media db'\<rparr>"
    using s by auto
  have "db_inv db'"
    by (subst db', rule db_inv_media) (use assms(1) in \<open>auto simp: d db_inv_def\<close>)
  moreover have "sm_path r \<notin> set u'" if r: "r \<in> set (d_media db')" for r
  proof
    assume "sm_path r \<in> set u'"
    with s obtain q where q: "q \<in> set (d_media db)" "sm_pubkey q = pk" "sm_hash q \<in> set hs" "sm_path q = sm_path r"
      by fastforce
    moreover have rd: "r \<in> set (d_media db)" using r d by simp
    ultimately have "sm_pubkey q = sm_pubkey r \<and> sm_hash q = sm_hash r"
      using assms(2) owner_shard_path_inj [OF assms(3)] unfolding media_ok_def by metis
    with q r d show False by simp
  qed
  then have "media_ok x db' (unlink_all ok u' fs)"
    using d by (intro media_ok_other [OF assms(2)]) (auto simp: map_of_unlink_all)
  ultimately show ?thesis by blast
qed

lemma events_insert_total:
  "fk_ok db (ev_pubkey e) \<Longrightarrow> \<exists>b db'. events_insert e db = Inr (b, db') \<and> fk_ok db' = fk_ok db"
  by (auto simp: events_insert_def tbl_insert_ignore_def)

lemma push_loop_total:
  "fk_ok db pk \<Longrightarrow> \<exists>db'. push_loop x now pk items a r db =
     Inr (\<lparr>rc_accepted = a + int (length (filter (\<lambda>it. item_event x now pk it \<noteq> None) items)),
           rc_rejected = r + int (length (filter (\<lambda>it. item_event x now pk it = None) items))\<rparr>, db')"
proof (induction items arbitrary: a r db)
  case (Cons it items)
  show ?case
  proof (cases "item_event x now pk it")
    case None
    then show ?thesis using Cons.IH [OF Cons.prems, of a "r + 1"] by (simp add: algebra_simps)
  next
    case (Some ev)
    have "ev_pubkey ev = pk" using Some by (auto simp: item_event_def split: if_splits option.splits)
    then obtain b db1 where i: "events_insert ev db = Inr (b, db1)" "fk_ok db1 pk"
      using Cons.prems events_insert_total [of db ev] by auto
    show ?thesis using Cons.IH [OF i(2), of "a + 1" r] Some by (simp add: i(1) algebra_simps)
  qed
qed simp

lemma events_push_tx_inv:
  assumes "events_push_tx x e ctx batch db = Inr (out, db')" "db_inv db"
  shows "db_inv db' \<and> d_media db' = d_media db \<and> d_owners db' = d_owners db"
proof -
  have "db' = db \<or> (\<exists>rc. push_loop x (e_now e) (cx_owner_pubkey ctx) (pb_items batch) 0 0 db = Inr (rc, db'))"
    using assms(1)
    by (auto simp: events_push_tx_def res_bind_def Let_def split: sum.splits cap_check.splits if_splits prod.splits)
  then show ?thesis
  proof
    assume "\<exists>rc. push_loop x (e_now e) (cx_owner_pubkey ctx) (pb_items batch) 0 0 db = Inr (rc, db')"
    then obtain rc where "push_loop x (e_now e) (cx_owner_pubkey ctx) (pb_items batch) 0 0 db = Inr (rc, db')" ..
    from push_loop_rows [OF this assms(2)] show ?thesis by auto
  qed (use assms(2) in simp)
qed

lemma db_run_cases:
  assumes "db_run ok f db = (r, db')"
  obtains (failed) err where "r = Inl err" "db' = db" | (ran) a where "r = Inr a" "f db = Inr (a, db')"
  using assms by (auto simp: db_run_def split: if_splits sum.splits)

lemma events_push_handler_cases:
  assumes "events_push_handler x e ctx hs body w = (rs, w')"
  obtains (unchanged) "w' = w" "rs_status rs \<noteq> 202"
    | (cap) batch msg db' where "push_batch_parse x body = Some batch" "rs = plain 507 msg"
        "events_push_tx x e ctx batch (w_db w) = Inr (CapExceeded msg, db')" "w' = w\<lparr>w_db := db'\<rparr>"
    | (ok) batch rc db' where "push_batch_parse x body = Some batch"
        "events_push_tx x e ctx batch (w_db w) = Inr (Stored rc, db')" "w' = w\<lparr>w_db := db'\<rparr>"
        "rs = cbor_response 202 (x_into_writer x (push_receipt_to_cbor rc))"
proof (cases "verify_owner_request x (e_now e) hs ''POST'' ''/events'' body (cx_owner_pubkey ctx)")
  case (Inl err)
  obtain c m where "err = (c, m)" by (cases err)
  then have "w' = w" "rs = plain c m" using assms Inl by (simp_all add: events_push_handler_def guarded_def)
  moreover have "c \<noteq> 202"
    using verify_codes [OF Inl [unfolded \<open>err = (c, m)\<close>]] by auto
  ultimately show ?thesis using unchanged by (simp add: plain_def)
next
  case (Inr u)
  show ?thesis
  proof (cases "push_batch_parse x body")
    case None
    then have "rs = plain 400 ''malformed cbor body''" "w' = w"
      using assms Inr by (auto simp: events_push_handler_def guarded_def)
    then show ?thesis using unchanged by (simp add: plain_def)
  next
    case (Some batch)
    obtain r db' where r: "db_run (e_pool_ok e) (events_push_tx x e ctx batch) (w_db w) = (r, db')"
      by (cases "db_run (e_pool_ok e) (events_push_tx x e ctx batch) (w_db w)")
    then show ?thesis
    proof (cases rule: db_run_cases)
      case (failed err)
      then have "rs = internal err" "w' = w"
        using assms Inr Some r by (auto simp: events_push_handler_def guarded_def)
      then show ?thesis using unchanged by (simp add: internal_def plain_def)
    next
      case (ran out)
      then show ?thesis using assms Inr Some r ok [OF Some] cap [OF Some]
        by (cases out) (auto simp: events_push_handler_def guarded_def)
    qed
  qed
qed


lemma media_push_handler_cases:
  assumes "media_push_handler x e ctx h hs body w = (rs, w')"
  obtains (unchanged) "w' = w" "rs_status rs \<noteq> 202"
    | (ran) r db' fs' where "is_valid_hash h" "media_push_tx x e ctx h body (w_db w) (w_fs w) = (r, db', fs')"
        "w' = w\<lparr>w_db := db', w_fs := fs'\<rparr>" "rs_status rs = 202 \<longleftrightarrow> r = Inr M_Accepted"
proof (cases "is_valid_hash h")
  case False
  then have "rs = plain 400 ''invalid hash''" "w' = w" using assms by (auto simp: media_push_handler_def)
  then show ?thesis using unchanged by (simp add: plain_def)
next
  case v: True
  show ?thesis
  proof (cases "verify_owner_request x (e_now e) hs ''POST'' (''/media/'' @ h) body (cx_owner_pubkey ctx)")
    case (Inl err)
    obtain c m where cm: "err = (c, m)" by (cases err)
    then have "w' = w" "rs = plain c m" using assms Inl v by (simp_all add: media_push_handler_def guarded_def)
    moreover have "c \<noteq> 202" using verify_codes [OF Inl [unfolded cm]] by auto
    ultimately show ?thesis using unchanged by (simp add: plain_def)
  next
    case (Inr u)
    show ?thesis
    proof (cases "e_pool_ok e")
      case False
      then have "rs = internal Pool_exhausted" "w' = w"
        using assms v Inr by (auto simp: media_push_handler_def guarded_def)
      then show ?thesis using unchanged by (simp add: internal_def plain_def)
    next
      case True
      obtain r db' fs' where r: "media_push_tx x e ctx h body (w_db w) (w_fs w) = (r, db', fs')"
        by (cases "media_push_tx x e ctx h body (w_db w) (w_fs w)") auto
      then have w': "w' = w\<lparr>w_db := db', w_fs := fs'\<rparr>"
        and rs: "rs = (case r of Inr M_Accepted \<Rightarrow> status_only 202 | Inr (M_CapExceeded msg) \<Rightarrow> plain 507 msg | Inl err \<Rightarrow> internal err)"
        using assms v Inr True by (auto simp: media_push_handler_def guarded_def)
      have "rs_status rs = 202 \<longleftrightarrow> r = Inr M_Accepted"
        unfolding rs by (auto simp: status_only_def plain_def internal_def split: sum.splits media_outcome.splits)
      from ran [OF v r w' this] show ?thesis .
    qed
  qed
qed

lemma media_delete_handler_cases:
  assumes "media_delete_handler x e ctx hs body w = (rs, w')"
  obtains (unchanged) "w' = w" "rs_status rs \<noteq> 200"
    | (ran) hashes r u db' where "delete_media_parse x body = Some hashes" "list_all is_valid_hash hashes"
        "media_delete_tx e ctx hashes (w_db w) = Inr ((r, u), db')"
        "w' = w\<lparr>w_db := db', w_fs := unlink_all (e_unlink_ok e) u (w_fs w)\<rparr>"
        "rs = cbor_ok (x_into_writer x (delete_receipt_to_cbor r))"
proof (cases "verify_owner_request x (e_now e) hs ''POST'' ''/media/delete'' body (cx_owner_pubkey ctx)")
  case (Inl err)
  obtain c m where cm: "err = (c, m)" by (cases err)
  then have "w' = w" "rs = plain c m" using assms Inl by (simp_all add: media_delete_handler_def guarded_def)
  moreover have "c \<noteq> 200" using verify_codes [OF Inl [unfolded cm]] by auto
  ultimately show ?thesis using unchanged by (simp add: plain_def)
next
  case v: (Inr u)
  show ?thesis
  proof (cases "delete_media_parse x body")
    case None
    then have "rs = plain 400 ''malformed cbor body''" "w' = w"
      using assms v by (auto simp: media_delete_handler_def guarded_def)
    then show ?thesis using unchanged by (simp add: plain_def)
  next
    case (Some hashes)
    show ?thesis
    proof (cases "list_all is_valid_hash hashes")
      case False
      then have "rs = plain 400 ''invalid hash''" "w' = w"
        using assms v Some by (auto simp: media_delete_handler_def guarded_def)
      then show ?thesis using unchanged by (simp add: plain_def)
    next
      case True
      obtain r db' where r: "db_run (e_pool_ok e) (media_delete_tx e ctx hashes) (w_db w) = (r, db')"
        by (cases "db_run (e_pool_ok e) (media_delete_tx e ctx hashes) (w_db w)")
      then show ?thesis
      proof (cases rule: db_run_cases)
        case (failed err)
        then have "rs = internal err" "w' = w"
          using assms v Some True r by (auto simp: media_delete_handler_def guarded_def)
        then show ?thesis using unchanged by (simp add: internal_def plain_def)
      next
        case (ran a)
        then show ?thesis using assms v Some True r that(2) [OF Some True]
          by (cases a) (auto simp: media_delete_handler_def guarded_def)
      qed
    qed
  qed
qed

lemma events_delete_handler_cases:
  assumes "events_delete_handler x e ctx hs body w = (rs, w')"
  obtains (unchanged) "w' = w" "rs_status rs \<noteq> 200"
    | (ran) ids r db' where "delete_events_parse x body = Some ids"
        "events_delete_tx e ctx ids (w_db w) = Inr (r, db')" "w' = w\<lparr>w_db := db'\<rparr>"
        "rs = cbor_ok (x_into_writer x (delete_receipt_to_cbor r))"
proof (cases "verify_owner_request x (e_now e) hs ''POST'' ''/events/delete'' body (cx_owner_pubkey ctx)")
  case (Inl err)
  obtain c m where cm: "err = (c, m)" by (cases err)
  then have "w' = w" "rs = plain c m" using assms Inl by (simp_all add: events_delete_handler_def guarded_def)
  moreover have "c \<noteq> 200" using verify_codes [OF Inl [unfolded cm]] by auto
  ultimately show ?thesis using unchanged by (simp add: plain_def)
next
  case v: (Inr u)
  show ?thesis
  proof (cases "delete_events_parse x body")
    case None
    then have "rs = plain 400 ''malformed cbor body''" "w' = w"
      using assms v by (auto simp: events_delete_handler_def guarded_def)
    then show ?thesis using unchanged by (simp add: plain_def)
  next
    case (Some ids)
    obtain r db' where r: "db_run (e_pool_ok e) (events_delete_tx e ctx ids) (w_db w) = (r, db')"
      by (cases "db_run (e_pool_ok e) (events_delete_tx e ctx ids) (w_db w)")
    then show ?thesis
    proof (cases rule: db_run_cases)
      case (failed err)
      then have "rs = internal err" "w' = w"
        using assms v Some r by (auto simp: events_delete_handler_def guarded_def)
      then show ?thesis using unchanged by (simp add: internal_def plain_def)
    next
      case (ran a)
      then show ?thesis using assms v Some r that(2) [OF Some]
        by (auto simp: events_delete_handler_def guarded_def)
    qed
  qed
qed

section \<open>The world invariant\<close>

lemma media_ok_same: "media_ok x db fs \<Longrightarrow> d_media db' = d_media db \<Longrightarrow> media_ok x db' fs"
  unfolding media_ok_def by metis

lemma events_push_world:
  assumes "world_ok x w" shows "world_ok x (snd (events_push_handler x e ctx hs body w))"
proof -
  obtain rs w' where h: "events_push_handler x e ctx hs body w = (rs, w')"
    by (cases "events_push_handler x e ctx hs body w")
  then show ?thesis
  proof (cases rule: events_push_handler_cases)
    case (cap batch msg db')
    with events_push_tx_inv [OF cap(3)] assms h show ?thesis
      by (auto simp: world_ok_def intro: media_ok_same)
  next
    case (ok batch rc db')
    with events_push_tx_inv [OF ok(2)] assms h show ?thesis
      by (auto simp: world_ok_def intro: media_ok_same)
  qed (use assms h in simp)
qed

lemma events_delete_world:
  assumes "world_ok x w" shows "world_ok x (snd (events_delete_handler x e ctx hs body w))"
proof -
  obtain rs w' where h: "events_delete_handler x e ctx hs body w = (rs, w')"
    by (cases "events_delete_handler x e ctx hs body w")
  then show ?thesis
  proof (cases rule: events_delete_handler_cases)
    case (ran ids r db')
    have "db' = snd (events_delete_batch (cx_owner_pubkey ctx) ids (w_db w))"
      using ran(2) by (auto simp: events_delete_tx_def Let_def split: prod.splits if_splits)
    moreover have "d_media (snd (events_delete_batch (cx_owner_pubkey ctx) ids (w_db w))) = d_media (w_db w)"
      by (simp add: events_delete_batch_eq)
    ultimately show ?thesis using assms h ran(3) db_inv_events_delete
      by (auto simp: world_ok_def intro: media_ok_same)
  qed (use assms h in simp)
qed

lemma media_push_world:
  assumes "world_ok x w" shows "world_ok x (snd (media_push_handler x e ctx hash hs body w))"
proof -
  obtain rs w' where h: "media_push_handler x e ctx hash hs body w = (rs, w')"
    by (cases "media_push_handler x e ctx hash hs body w")
  then show ?thesis
  proof (cases rule: media_push_handler_cases)
    case (ran r db' fs')
    from media_push_tx_ok [OF _ _ ran(1,2)] assms h ran(3) show ?thesis by (simp add: world_ok_def)
  qed (use assms h in simp)
qed

lemma media_delete_world:
  assumes "world_ok x w" "inj (x_hex_encode x)"
  shows "world_ok x (snd (media_delete_handler x e ctx hs body w))"
proof -
  obtain rs w' where h: "media_delete_handler x e ctx hs body w = (rs, w')"
    by (cases "media_delete_handler x e ctx hs body w")
  then show ?thesis
  proof (cases rule: media_delete_handler_cases)
    case (ran hashes r u db')
    obtain n where "media_delete_loop (cx_owner_pubkey ctx) hashes 0 [] (w_db w) = (n, u, db')"
      using ran(3) by (auto simp: media_delete_tx_def Let_def split: prod.splits if_splits)
    from media_delete_ok [OF _ _ assms(2) this, of "w_fs w" "e_unlink_ok e"] assms(1) h ran(4) show ?thesis
      by (simp add: world_ok_def)
  qed (use assms h in simp)
qed

lemma rooms_world:
  assumes "world_ok x w" shows "world_ok x (snd (rooms_handler x e ctx hs body w))"
proof -
  have keep: "db_inv db' \<and> d_media db' = d_media db" if "replace_set pk rows now db = Inr db'" "db_inv db"
    for pk rows now db db'
    using db_inv_replace_set [OF that(2,1)] that(1) by (auto simp: replace_set_eq split: if_splits)
  then show ?thesis
    using assms
    by (auto simp: rooms_handler_def guarded_def world_ok_def db_run_def res_bind_def Let_def
        split: sum.splits option.splits if_splits intro: media_ok_same)
qed

lemma unpair_world: "world_ok x w \<Longrightarrow> world_ok x (snd (unpair_handler x e ctx hs body w))"
  by (auto simp: unpair_handler_def guarded_def world_ok_def split: sum.splits)

lemma dispatch_world:
  assumes "world_ok x w" "inj (x_hex_encode x)"
  shows "world_ok x (snd (dispatch x e ctx rq r w))"
proof (cases "is_read r \<or> r = R_media_manifest")
  case True
  then show ?thesis using dispatch_reads_pure assms(1) by simp
next
  case False
  have wb: "world_ok x (snd k) \<Longrightarrow> world_ok x (snd (with_body rq w k))" for k
    using assms(1) by (simp add: with_body_def)
  have wp: "(\<And>h. world_ok x (snd (k h))) \<Longrightarrow> world_ok x (snd (with_param rq seg w k))" for k seg
    using assms(1) by (simp add: with_param_def split: option.splits)
  note worlds = events_push_world events_delete_world media_push_world media_delete_world rooms_world unpair_world
  show ?thesis
    using False assms
    by (cases r) (simp_all add: is_read_def dispatch_writes wb wp worlds)
qed

end
