(* ===== verification/Serving.thy ===== *)
theory Serving
  imports Http
begin

text \<open>
  What the write handlers of the per-Owner router achieve: pushes of events and of media,
  deletions, manifests and voice-room pushes, each on success and on failure, and the
  invariant that every request keeps.
\<close>

section \<open>Pushes\<close>

abbreviation batch_bytes :: "push_batch \<Rightarrow> int" where
  "batch_bytes b \<equiv> sum_list (map (\<lambda>i. int (length (pi_payload i))) (pb_items b))"

lemma batch_bytes_nonneg: "0 \<le> sum_list (map (\<lambda>i. int (length (pi_payload i))) items)"
  by (induction items) auto

definition over_cap :: "owner_ctx \<Rightarrow> int \<Rightarrow> db \<Rightarrow> bool" where
  "over_cap ctx incoming db \<longleftrightarrow>
     0 < effective_cap ctx db \<and> effective_cap ctx db < stored_owner (cx_owner_pubkey ctx) db + incoming \<or>
     0 < cp_disk_cap (cx_caps ctx) \<and> cp_disk_cap (cx_caps ctx) < stored_host db + incoming"

lemma events_push_tx_exact:
  assumes "sizes_ok db" "stored_host db + batch_bytes batch \<le> i64_max"
  shows "events_push_tx x e ctx batch db =
    (if over_cap ctx (batch_bytes batch) db
     then Inr (CapExceeded (if 0 < effective_cap ctx db \<and>
            effective_cap ctx db < stored_owner (cx_owner_pubkey ctx) db + batch_bytes batch
          then ''owner storage cap exceeded'' else ''relay storage cap exceeded''), db)
     else res_bind (push_loop x (e_now e) (cx_owner_pubkey ctx) (pb_items batch) 0 0 db) (\<lambda>(rc, db').
            if e_commit_ok e then Inr (Stored rc, db') else Inl (Other_fault ''commit'')))"
proof -
  have n: "0 \<le> batch_bytes batch" by (rule batch_bytes_nonneg)
  have "0 \<le> stored_host db"
    using stored_owner_le_host [OF assms(1)] by (meson order_trans)
  then have "in_i64 (batch_bytes batch)" using n assms(2) by (simp add: in_i64_def i64_min_def)
  then show ?thesis
    by (simp add: events_push_tx_def i64_wrap_id Let_def check_capacity_exact [OF assms(1) n assms(2)]
        res_bind_def over_cap_def)
qed

lemma stored_append_events:
  assumes "\<forall>row \<in> set rows. ev_pubkey (er_event row) = pk"
  shows "stored_owner pk (db\<lparr>d_events := d_events db @ rows\<rparr>) = stored_owner pk db + tbl_sum er_size rows"
    "stored_host (db\<lparr>d_events := d_events db @ rows\<rparr>) = stored_host db + tbl_sum er_size rows"
proof -
  have "filter (\<lambda>r. ev_pubkey (er_event r) = pk) rows = rows" using assms by (simp add: filter_id_conv)
  then show "stored_owner pk (db\<lparr>d_events := d_events db @ rows\<rparr>) = stored_owner pk db + tbl_sum er_size rows"
    by (simp add: stored_owner_def events_of_def media_rows_for_owner_def tbl_sum_append)
  show "stored_host (db\<lparr>d_events := d_events db @ rows\<rparr>) = stored_host db + tbl_sum er_size rows"
    by (simp add: stored_host_def tbl_sum_append)
qed

lemma item_event_parts:
  "item_event x now pk it = Some ev \<Longrightarrow>
   ev_pubkey ev = pk \<and> ev_id ev = pi_id it \<and> ev_payload ev = pi_payload it \<and> ev_item_type ev = pi_type it"
  by (auto simp: item_event_def split: if_splits option.splits)

lemma push_loop_stored:
  assumes "push_loop x now pk items 0 0 db = Inr (rc, db')" "db_inv db"
  shows "stored_owner pk db' \<le> stored_owner pk db + sum_list (map (\<lambda>i. int (length (pi_payload i))) items)"
    "stored_host db' \<le> stored_host db + sum_list (map (\<lambda>i. int (length (pi_payload i))) items)"
    "effective_cap ctx db' = effective_cap ctx db"
proof -
  from push_loop_rows [OF assms] obtain rows where
    r: "db' = db\<lparr>d_events := d_events db @ rows\<rparr>"
      "\<forall>row \<in> set rows. \<exists>it \<in> set items. item_event x now pk it = Some (er_event row) \<and> row = event_to_row (er_event row)"
      "tbl_sum er_size rows \<le> sum_list (map (\<lambda>i. int (length (pi_payload i))) items)"
    by blast
  have "\<forall>row \<in> set rows. ev_pubkey (er_event row) = pk"
  proof
    fix row assume "row \<in> set rows"
    with r(2) obtain it where "item_event x now pk it = Some (er_event row)" by blast
    then show "ev_pubkey (er_event row) = pk" by (rule item_event_parts [THEN conjunct1])
  qed
  note s = stored_append_events [OF this]
  from s r(3) show "stored_owner pk db' \<le> stored_owner pk db + sum_list (map (\<lambda>i. int (length (pi_payload i))) items)"
    "stored_host db' \<le> stored_host db + sum_list (map (\<lambda>i. int (length (pi_payload i))) items)"
    unfolding r(1) by simp_all
  show "effective_cap ctx db' = effective_cap ctx db"
    unfolding r(1) by (simp add: effective_cap_def owners_get_def)
qed

lemma push_batch_reads: "leaf_ok (x_leaf x) \<Longrightarrow> x_from_reader x body = Some (push_batch_to_cbor b) \<Longrightarrow>
   push_batch_parse x body = Some b"
  by (simp add: push_batch_parse_def push_batch_from_cbor_def push_batch_to_cbor_def wire wire_defs)

text \<open>
  C20: \<open>POST /events\<close> by the Owner, with a working database. Over a cap it answers 507 and
  stores nothing. Otherwise it answers 202 with a receipt that counts the acceptable items
  and the others; afterwards every acceptable item is stored under its id, every new row is
  an item of the batch with its payload and type unchanged, and both caps still hold.
\<close>
theorem events_push_correct:
  assumes "world_ok x w" "fk_ok (w_db w) (cx_owner_pubkey ctx)"
    and "verify_owner_request x (e_now e) hs ''POST'' ''/events'' body (cx_owner_pubkey ctx) = Inr ()"
    and "push_batch_parse x body = Some batch" "e_pool_ok e" "e_commit_ok e"
    and "stored_host (w_db w) + batch_bytes batch \<le> i64_max"
    and "events_push_handler x e ctx hs body w = (rs, w')"
  defines "acc \<equiv> filter (\<lambda>it. item_event x (e_now e) (cx_owner_pubkey ctx) it \<noteq> None) (pb_items batch)"
  shows "if over_cap ctx (batch_bytes batch) (w_db w) then rs_status rs = 507 \<and> w' = w
    else rs = cbor_response 202 (x_into_writer x (push_receipt_to_cbor
           \<lparr>rc_accepted = int (length acc), rc_rejected = int (length (pb_items batch)) - int (length acc)\<rparr>)) \<and>
      (\<forall>it \<in> set acc. tbl_find er_key (cx_owner_pubkey ctx, pi_id it) (d_events (w_db w')) \<noteq> None) \<and>
      (\<exists>rows. w' = w\<lparr>w_db := (w_db w)\<lparr>d_events := d_events (w_db w) @ rows\<rparr>\<rparr> \<and>
        (\<forall>row \<in> set rows. \<exists>it \<in> set acc. er_event row = the (item_event x (e_now e) (cx_owner_pubkey ctx) it) \<and>
           ev_payload (er_event row) = pi_payload it \<and> ev_item_type (er_event row) = pi_type it)) \<and>
      \<not> over_cap ctx 0 (w_db w')"
proof (cases "over_cap ctx (batch_bytes batch) (w_db w)")
  case True
  have "events_push_handler x e ctx hs body w = (rs, w') \<Longrightarrow> rs_status rs = 507 \<and> w' = w"
    using assms(3-6) True events_push_tx_exact [OF world_ok_sizes [OF assms(1)] assms(7), of x e ctx]
    by (auto simp: events_push_handler_def guarded_def db_run_def plain_def)
  with True assms(8) show ?thesis by simp
next
  case False
  define pk where "pk = cx_owner_pubkey ctx"
  have inv: "db_inv (w_db w)" using assms(1) by (simp add: world_ok_def)
  obtain db' where l: "push_loop x (e_now e) pk (pb_items batch) 0 0 (w_db w) =
      Inr (\<lparr>rc_accepted = int (length acc), rc_rejected = int (length (pb_items batch)) - int (length acc)\<rparr>, db')"
    using push_loop_total [OF assms(2), of x "e_now e" "pb_items batch" 0 0]
      sum_length_filter_compl [of "\<lambda>it. item_event x (e_now e) (cx_owner_pubkey ctx) it \<noteq> None" "pb_items batch"]
    by (auto simp: acc_def pk_def algebra_simps simp flip: of_nat_add)
  have h: "events_push_handler x e ctx hs body w = (cbor_response 202 (x_into_writer x (push_receipt_to_cbor
      \<lparr>rc_accepted = int (length acc), rc_rejected = int (length (pb_items batch)) - int (length acc)\<rparr>)), w\<lparr>w_db := db'\<rparr>)"
    using assms(3-6) False events_push_tx_exact [OF world_ok_sizes [OF assms(1)] assms(7), of x e ctx] l
    by (simp add: events_push_handler_def guarded_def db_run_def res_bind_def pk_def)
  from push_loop_rows [OF l inv] obtain rows where
    r: "db' = (w_db w)\<lparr>d_events := d_events (w_db w) @ rows\<rparr>"
      "\<forall>row \<in> set rows. \<exists>it \<in> set (pb_items batch). item_event x (e_now e) pk it = Some (er_event row) \<and> row = event_to_row (er_event row)"
      "\<forall>it \<in> set (pb_items batch). item_event x (e_now e) pk it \<noteq> None \<longrightarrow> tbl_find er_key (pk, pi_id it) (d_events db') \<noteq> None"
    by blast
  have rows: "\<exists>it \<in> set acc. er_event row = the (item_event x (e_now e) pk it) \<and>
      ev_payload (er_event row) = pi_payload it \<and> ev_item_type (er_event row) = pi_type it" if "row \<in> set rows" for row
  proof -
    from r(2) that obtain it where it: "it \<in> set (pb_items batch)" "item_event x (e_now e) pk it = Some (er_event row)" by blast
    with item_event_parts [OF it(2)] show ?thesis by (intro bexI [of _ it]) (auto simp: acc_def pk_def)
  qed
  have "\<not> over_cap ctx 0 db'"
    using False push_loop_stored [OF l inv] by (auto simp: over_cap_def pk_def)
  moreover have "\<forall>it \<in> set acc. tbl_find er_key (pk, pi_id it) (d_events db') \<noteq> None"
    using r(3) by (simp add: acc_def pk_def)
  ultimately show ?thesis
    using False assms(8) h rows r(1) by (auto simp: pk_def)
qed

definition ex_batch :: push_batch where
  "ex_batch = \<lparr>pb_items = [\<lparr>pi_id = ''p'', pi_payload = [1, 2], pi_type = ''poll''\<rparr>]\<rparr>"

definition ex_ext :: ext where
  "ex_ext = plain_ext\<lparr>x_from_reader := (\<lambda>_. Some (push_batch_to_cbor ex_batch))\<rparr>"

lemma verify_reader_irrelevant:
  "verify_owner_request (x\<lparr>x_from_reader := f\<rparr>) = verify_owner_request x"
proof -
  have e: "verify_owner_sig (x\<lparr>x_from_reader := f\<rparr>) = verify_owner_sig x"
    "verify_owner_request_sig (x\<lparr>x_from_reader := f\<rparr>) = verify_owner_request_sig x"
    "x_b64_decode (x\<lparr>x_from_reader := f\<rparr>) = x_b64_decode x"
    by (simp_all add: fun_eq_iff verify_owner_sig_def verify_ed25519_def blake2b256_def
        verify_owner_request_sig_def owner_request_digest_def owner_request_buf_def)
  show ?thesis unfolding verify_owner_request_def [abs_def] e by (rule refl)
qed

lemma ex_ext_verify [simp]:
  "verify_owner_request ex_ext now (legacy_headers body) m p body ex_key = Inr ()"
  by (simp add: ex_ext_def verify_reader_irrelevant legacy_headers_verify)

lemma ex_world_ok: "world_ok x ex_world"
  by (simp add: world_ok_def media_ok_def ex_world_def db_inv_def empty_db_def tbl_keys_def fk_ok_def)

lemma ex_world_stored: "stored_host (w_db ex_world) = 0" "stored_owner pk (w_db ex_world) = 0"
  by (simp_all add: ex_world_def stored_host_def stored_owner_def empty_db_def events_of_def media_rows_for_owner_def)

lemma ex_cap: "effective_cap ex_ctx (w_db ex_world) = 100"
  by (simp add: effective_cap_def owners_get_def tbl_find_def ex_world_def ex_ctx_def ex_owner_def)

lemma events_push_correct_witness:
  "\<exists>rs w'. events_push_handler ex_ext ex_env ex_ctx (legacy_headers [7]) [7] ex_world = (rs, w') \<and>
     rs_status rs = 202 \<and> tbl_find er_key (ex_key, ''p'') (d_events (w_db w')) \<noteq> None"
proof -
  obtain rs w' where h: "events_push_handler ex_ext ex_env ex_ctx (legacy_headers [7]) [7] ex_world = (rs, w')"
    by (cases "events_push_handler ex_ext ex_env ex_ctx (legacy_headers [7]) [7] ex_world")
  have p: "push_batch_parse ex_ext [7] = Some ex_batch"
    by (rule push_batch_reads) (simp_all add: ex_ext_def plain_ext_def plain_leaf_ok)
  have fk: "fk_ok (w_db ex_world) (cx_owner_pubkey ex_ctx)"
    by (simp add: fk_ok_def ex_world_def tbl_find_def ex_ctx_def)
  have v: "verify_owner_request ex_ext (e_now ex_env) (legacy_headers [7]) ''POST'' ''/events'' [7] (cx_owner_pubkey ex_ctx) = Inr ()"
    by (simp add: ex_ctx_def)
  have c: "\<not> over_cap ex_ctx (batch_bytes ex_batch) (w_db ex_world)"
    by (simp add: over_cap_def ex_world_stored ex_batch_def ex_cap) (simp add: ex_ctx_def)
  have b: "stored_host (w_db ex_world) + batch_bytes ex_batch \<le> i64_max"
    by (simp add: ex_world_stored ex_batch_def i64_max_def)
  have "item_event ex_ext (e_now ex_env) ex_key \<lparr>pi_id = ''p'', pi_payload = [1, 2], pi_type = ''poll''\<rparr> \<noteq> None"
    by (simp add: item_event_def MAX_ID_LEN_def)
  then show ?thesis
    using events_push_correct [OF ex_world_ok fk v p _ _ b h] c h
    by (simp add: ex_env_def ex_batch_def cbor_response_def ex_ctx_def)
qed

text \<open>
  \<open>POST /events\<close> is all or nothing: any answer other than 202 leaves the database as it
  was, whatever the request and whichever step failed.
\<close>
theorem events_push_all_or_nothing:
  assumes "events_push_handler x e ctx hs body w = (rs, w')" "rs_status rs \<noteq> 202"
  shows "w' = w"
  using assms(1)
proof (cases rule: events_push_handler_cases)
  case (cap batch msg db')
  then have "db' = w_db w"
    by (auto simp: events_push_tx_def res_bind_def Let_def split: sum.splits cap_check.splits if_splits prod.splits)
  then show ?thesis using cap(4) by simp
qed (use assms(2) in \<open>simp_all add: cbor_response_def\<close>)

lemma events_push_all_or_nothing_witness:
  "snd (events_push_handler ex_ext (ex_env\<lparr>e_commit_ok := False\<rparr>) ex_ctx (legacy_headers [7]) [7] ex_world) = ex_world"
proof -
  define e where "e = ex_env\<lparr>e_commit_ok := False\<rparr>"
  obtain rs w' where h: "events_push_handler ex_ext e ex_ctx (legacy_headers [7]) [7] ex_world = (rs, w')"
    by (cases "events_push_handler ex_ext e ex_ctx (legacy_headers [7]) [7] ex_world")
  have "rs_status rs \<noteq> 202"
    using h
  proof (cases rule: events_push_handler_cases)
    case (ok batch rc db')
    then have "e_commit_ok e"
      by (auto simp: events_push_tx_def res_bind_def Let_def split: sum.splits cap_check.splits if_splits prod.splits)
    then show ?thesis by (simp add: e_def)
  qed (simp_all add: plain_def)
  from events_push_all_or_nothing [OF h this] h show ?thesis by (simp add: e_def)
qed

section \<open>Media\<close>

lemma media_push_tx_stored:
  assumes "media_push_tx x e ctx h body db fs = (Inr M_Accepted, db', fs')" "is_valid_hash h" "media_ok x db fs"
  obtains (same) ex where "db' = db" "fs' = fs" "media_get (cx_owner_pubkey ctx) h db = Some ex"
      "sm_size ex = int (length body)"
      "fs_len (owner_shard_path x (cx_owner_pubkey ctx) h) fs = Some (sm_size ex)"
    | (stored) "media_upsert \<lparr>sm_pubkey = cx_owner_pubkey ctx, sm_hash = h, sm_size = int (length body),
        sm_created_at = e_now e, sm_path = owner_shard_path x (cx_owner_pubkey ctx) h\<rparr> db = Inr db'"
      "fs' = AList.update (owner_shard_path x (cx_owner_pubkey ctx) h) body
         (AList.delete (owner_shard_path x (cx_owner_pubkey ctx) h @ ''.tmp'')
           (AList.update (owner_shard_path x (cx_owner_pubkey ctx) h @ ''.tmp'') body fs))"
  using assms(1)
  by (auto simp: media_push_tx_def Let_def split: if_splits sum.splits cap_check.splits option.splits)

lemma media_get_upsert:
  "media_upsert r db = Inr db' \<Longrightarrow> media_get (sm_pubkey r) (sm_hash r) db' = Some r"
  by (auto simp: media_upsert_def media_get_def tbl_find_upsert split: if_splits)


definition ex_hash :: str where "ex_hash = replicate 64 (CHR ''a'')"

lemma ex_hash_valid: "is_valid_hash ex_hash"
  by (simp add: is_valid_hash_def ex_hash_def list_all_iff is_digit_def less_eq_char_def)

definition ex_media_row :: served_media where
  "ex_media_row = \<lparr>sm_pubkey = ex_key, sm_hash = ex_hash, sm_size = 1, sm_created_at = 1000,
     sm_path = owner_shard_path plain_ext ex_key ex_hash\<rparr>"

lemma ex_media_push_tx:
  "\<exists>fs'. media_push_tx plain_ext ex_env ex_ctx ex_hash [7] (w_db ex_world) fs =
     (Inr M_Accepted, (w_db ex_world)\<lparr>d_media := [ex_media_row]\<rparr>, fs')"
proof -
  have c: "check_capacity ex_key 1 100 1000 (w_db ex_world) = Inr Cap_Ok"
    using check_capacity_exact [OF world_ok_sizes [OF ex_world_ok], of 1 ex_key 100 1000]
    by (simp add: ex_world_stored i64_max_def)
  have g: "media_get ex_key ex_hash (w_db ex_world) = None"
    by (simp add: media_get_def ex_world_def empty_db_def tbl_find_def)
  have u: "media_upsert ex_media_row (w_db ex_world) = Inr ((w_db ex_world)\<lparr>d_media := [ex_media_row]\<rparr>)"
    by (simp add: media_upsert_def fk_ok_def ex_world_def tbl_find_def ex_media_row_def tbl_upsert_def empty_db_def)
  have k: "cx_owner_pubkey ex_ctx = ex_key" "cp_disk_cap (cx_caps ex_ctx) = 1000" by (simp_all add: ex_ctx_def)
  show ?thesis
    using u by (simp add: media_push_tx_def Let_def k g ex_cap c ex_env_def i64_wrap_def ex_media_row_def)
qed

lemma ex_media_push:
  "\<exists>rs w'. media_push_handler plain_ext ex_env ex_ctx ex_hash (legacy_headers [7]) [7] ex_world = (rs, w') \<and> rs_status rs = 202"
proof -
  obtain fs' where "media_push_tx plain_ext ex_env ex_ctx ex_hash [7] (w_db ex_world) (w_fs ex_world) =
     (Inr M_Accepted, (w_db ex_world)\<lparr>d_media := [ex_media_row]\<rparr>, fs')"
    using ex_media_push_tx by blast
  moreover have "cx_owner_pubkey ex_ctx = ex_key" "e_pool_ok ex_env" by (simp_all add: ex_ctx_def ex_env_def)
  ultimately show ?thesis
    by (simp add: media_push_handler_def ex_hash_valid guarded_def legacy_headers_verify status_only_def)
qed



definition ex_media_ext :: ext where
  "ex_media_ext = plain_ext\<lparr>x_from_reader := (\<lambda>_. Some (delete_media_to_cbor [ex_hash]))\<rparr>"

lemma ex_media_ext_hex: "inj (x_hex_encode ex_media_ext)"
proof (rule injI)
  fix a b assume "x_hex_encode ex_media_ext a = x_hex_encode ex_media_ext b"
  then have "as_bytes (map byte_char a) = as_bytes (map byte_char b)" by (simp add: ex_media_ext_def plain_ext_def)
  then show "a = b" by (simp add: as_bytes_def comp_def)
qed

lemma delete_media_reads: "leaf_ok (x_leaf x) \<Longrightarrow> x_from_reader x body = Some (delete_media_to_cbor hs) \<Longrightarrow>
   delete_media_parse x body = Some hs"
  by (simp add: delete_media_parse_def delete_media_from_cbor_def delete_media_to_cbor_def wire wire_defs)


text \<open>
  Deleting and re-uploading at the same time can lose the file. The deletion unlinks after
  its transaction has committed; an upload of the same hash that runs in between is accepted
  and commits its row, and the pending unlink then removes the new file under it.
\<close>
theorem media_delete_push_race:
  "\<exists>x e ctx h body db fs r u db1 db2 fs2.
     db_inv db \<and> media_ok x db fs \<and> is_valid_hash h \<and>
     media_delete_tx e ctx [h] db = Inr ((r, u), db1) \<and>
     media_push_tx x e ctx h body db1 fs = (Inr M_Accepted, db2, fs2) \<and>
     media_get (cx_owner_pubkey ctx) h db2 \<noteq> None \<and>
     \<not> media_ok x db2 (unlink_all (e_unlink_ok e) u fs2)"
proof -
  let ?row = ex_media_row
  define db where "db = (w_db ex_world)\<lparr>d_media := [?row]\<rparr>"
  define fs where "fs = [(owner_shard_path plain_ext ex_key ex_hash, [7 :: byte])]"
  have k: "cx_owner_pubkey ex_ctx = ex_key" by (simp add: ex_ctx_def)
  have inv: "db_inv db" "media_ok plain_ext db fs"
    by (simp_all add: db_def fs_def ex_media_row_def db_inv_def media_ok_def ex_world_def empty_db_def tbl_keys_def fk_ok_def
        tbl_find_def ex_hash_valid)
  have get: "media_get ex_key ex_hash db = Some ?row"
    by (simp add: media_get_def db_def tbl_find_def ex_media_row_def)
  have restored: "db\<lparr>d_media := filter (\<lambda>r. sm_key r \<noteq> (ex_key, ex_hash)) (d_media db)\<rparr> = w_db ex_world"
    by (simp add: db_def ex_world_def empty_db_def ex_media_row_def)
  have d: "media_delete_tx ex_env ex_ctx [ex_hash] db =
      Inr ((\<lparr>dr_deleted = 1, dr_missing = 0\<rparr>, [sm_path ?row]), w_db ex_world)"
    using get restored by (simp add: media_delete_tx_def k media_delete_step ex_env_def Let_def)
  obtain fs2 where m: "media_push_tx plain_ext ex_env ex_ctx ex_hash [7] (w_db ex_world) fs = (Inr M_Accepted, db, fs2)"
    using ex_media_push_tx unfolding db_def by blast
  have "\<not> media_ok plain_ext db (unlink_all (e_unlink_ok ex_env) [sm_path ?row] fs2)"
    by (simp add: media_ok_def map_of_unlink_all ex_env_def db_def del: unlink_all.simps)
  then show ?thesis using inv ex_hash_valid d m k get
    by (intro exI [of _ plain_ext] exI [of _ ex_env] exI [of _ ex_ctx] exI [of _ ex_hash] exI [of _ "[7]"]
        exI [of _ db] exI [of _ fs]) auto
qed

section \<open>Whole-router invariant, manifests, voice rooms\<close>



lemma limit_view:
  "(take 1000 (sql_limit 1001 rs), 1000 < int (length (sql_limit 1001 rs))) = limit_page (Suc 999) rs"
  by (simp add: sql_limit_def limit_page_def)

lemma manifest_view_page:
  "(let v = manifest_view ctx since (map_option fst c) (map_option snd c) db in (mp_events v, mp_has_older v)) =
     manifest_limit_page (cx_owner_pubkey ctx) since 999 db c"
  unfolding manifest_limit_page_def limit_view [symmetric]
  by (simp add: manifest_view_def manifest_page_eq PAGE_LIMIT_def Let_def)

lemma media_manifest_view_page:
  "(let v = media_manifest_view ctx c db in (mm_hashes v, mm_has_older v)) =
     hash_limit_page (cx_owner_pubkey ctx) 999 db c"
  unfolding hash_limit_page_def limit_view [symmetric]
  by (simp add: media_manifest_view_def hashes_page_eq MANIFEST_PAGE_LIMIT_def Let_def)

text \<open>
  C38: A client that follows \<open>has_older\<close> reconstructs the manifests in full: \<open>GET /manifest\<close>
  yields every event of the Owner since the given time, newest first, and \<open>GET
  /media-manifest\<close> every media hash in order, each exactly once, and the walk ends.
\<close>
theorem manifests_complete:
  assumes "db_inv db"
    and "length (events_of (cx_owner_pubkey ctx) db) < n"
    and "length (media_rows_for_owner (cx_owner_pubkey ctx) db) < n"
  shows "fetch_seq n (\<lambda>_ c. let v = manifest_view ctx since (map_option fst c) (map_option snd c) db
           in (mp_events v, mp_has_older v)) me_pos 0 None = Some (manifest_rows (cx_owner_pubkey ctx) since db) \<and>
    fetch_seq n (\<lambda>_ c. let v = media_manifest_view ctx c db in (mm_hashes v, mm_has_older v)) (\<lambda>h. h) 0 None =
      Some (hash_rows (cx_owner_pubkey ctx) db)"
proof -
  have "length (manifest_rows (cx_owner_pubkey ctx) since db) < n"
    using assms(2) by (auto simp: manifest_rows_def intro: le_less_trans [OF length_filter_le])
  moreover have "length (hash_rows (cx_owner_pubkey ctx) db) < n"
    using assms(3) by (simp add: hash_rows_def)
  ultimately show ?thesis
    unfolding manifest_view_page media_manifest_view_page
    by (intro conjI mf.fetch_complete mh.fetch_complete assms(1))
qed

lemma manifests_complete_witness:
  "fetch_seq 4 (\<lambda>_ c. let v = media_manifest_view (ex_ctx\<lparr>cx_owner_pubkey := [1]\<rparr>) c ex_db
     in (mm_hashes v, mm_has_older v)) (\<lambda>h. h) 0 None = Some [''h'']"
proof -
  have "events_of [1] ex_db = [event_to_row (ex_event 1 ''b'' 5), event_to_row (ex_event 1 ''a'' 5)]"
    "media_rows_for_owner [1] ex_db = d_media ex_db"
    by (simp_all add: events_of_def media_rows_for_owner_def ex_defs)
  then show ?thesis
    using manifests_complete [OF ex_db_inv, of "ex_ctx\<lparr>cx_owner_pubkey := [1]\<rparr>" 4 None]
    by (simp add: hash_rows_def ex_defs)
qed

lemma check_slots_None:
  "check_slots m slots = None \<longleftrightarrow> (\<forall>s \<in> set slots. length (ve_token_hash s) = 32 \<and>
     (case ve_max_participants s of None \<Rightarrow> True | Some c \<Rightarrow> 2 \<le> c \<and> c \<le> m))"
  by (induction slots) (auto split: option.splits)

lemma rooms_handler_cases:
  assumes "rooms_handler x e ctx hs body w = (rs, w')"
  obtains (unchanged) "w' = w" "rs_status rs \<noteq> 200"
    | (ran) slots voice db' where "cx_voice ctx = Some voice" "voice_slot_push_parse x body = Some slots"
        "length slots \<le> MAX_SLOTS" "check_slots (vc_max_participants voice) slots = None"
        "replace_set (cx_owner_pubkey ctx) (map (\<lambda>s. (ve_token_hash s, ve_max_participants s)) slots) (e_now e) (w_db w) = Inr db'"
        "w' = w\<lparr>w_db := db', w_registered := w_registered w @ [slots]\<rparr>" "rs_status rs = 200"
proof (cases "verify_owner_request x (e_now e) hs ''POST'' ''/voice/rooms'' body (cx_owner_pubkey ctx)")
  case (Inl err)
  obtain c m where cm: "err = (c, m)" by (cases err)
  then have "w' = w" "rs = plain c m" using assms Inl by (simp_all add: rooms_handler_def guarded_def)
  moreover have "c \<noteq> 200" using verify_codes [OF Inl [unfolded cm]] by auto
  ultimately show ?thesis using unchanged by (simp add: plain_def)
next
  case v: (Inr u)
  show ?thesis
  proof (cases "\<exists>voice slots. cx_voice ctx = Some voice \<and> voice_slot_push_parse x body = Some slots \<and>
      length slots \<le> MAX_SLOTS \<and> check_slots (vc_max_participants voice) slots = None")
    case False
    then have "w' = w" "rs_status rs \<noteq> 200"
      using assms v
      by (auto simp: rooms_handler_def guarded_def plain_def split: option.splits if_splits)
    then show ?thesis by (rule unchanged)
  next
    case True
    then obtain voice slots where s: "cx_voice ctx = Some voice" "voice_slot_push_parse x body = Some slots"
      "length slots \<le> MAX_SLOTS" "check_slots (vc_max_participants voice) slots = None" by blast
    define tx where "tx = (\<lambda>db. res_bind (replace_set (cx_owner_pubkey ctx)
      (map (\<lambda>s. (ve_token_hash s, ve_max_participants s)) slots) (e_now e) db)
      (\<lambda>db'. if e_commit_ok e then Inr ((), db') else Inl (Other_fault ''commit'')))"
    have h: "(rs, w') = (case db_run (e_pool_ok e) tx (w_db w) of
         (Inl err, db') \<Rightarrow> (internal err, w\<lparr>w_db := db'\<rparr>)
       | (Inr _, db') \<Rightarrow> (cbor_ok (x_into_writer x (voice_slot_receipt_to_cbor
                          (int (length (map (\<lambda>s. (ve_token_hash s, ve_max_participants s)) slots))))),
                        w\<lparr>w_db := db', w_registered := w_registered w @ [slots]\<rparr>))"
      unfolding tx_def by (subst assms [symmetric]) (use v s in \<open>simp add: rooms_handler_def guarded_def Let_def\<close>)
    obtain r db' where r: "db_run (e_pool_ok e) tx (w_db w) = (r, db')"
      by (cases "db_run (e_pool_ok e) tx (w_db w)")
    then show ?thesis
    proof (cases rule: db_run_cases)
      case (failed err)
      then have "w' = w" "rs_status rs \<noteq> 200" using h r by (auto simp: internal_def plain_def)
      then show ?thesis by (rule unchanged)
    next
      case (ran a)
      then have "replace_set (cx_owner_pubkey ctx) (map (\<lambda>s. (ve_token_hash s, ve_max_participants s)) slots)
          (e_now e) (w_db w) = Inr db'"
        by (auto simp: tx_def res_bind_def split: sum.splits if_splits)
      then show ?thesis using h r ran s by (intro that(2)) (auto simp: cbor_ok_def cbor_response_def)
    qed
  qed
qed

text \<open>
  C36: \<open>POST /voice/rooms\<close> replaces the Owner's slots in the database and in the live registry
  together, with checked entries only: answered 200, the stored slots and the set handed to
  the registry are the pushed one, and other Owners keep theirs; with any other answer
  neither has changed.
\<close>
theorem rooms_exact:
  assumes "rooms_handler x e ctx hs body w = (rs, w')"
  shows "if rs_status rs = 200
    then \<exists>slots voice. voice_slot_push_parse x body = Some slots \<and> cx_voice ctx = Some voice \<and>
      length slots \<le> 4096 \<and>
      (\<forall>s \<in> set slots. length (ve_token_hash s) = 32 \<and>
         (case ve_max_participants s of None \<Rightarrow> True | Some c \<Rightarrow> 2 \<le> c \<and> c \<le> vc_max_participants voice)) \<and>
      map (\<lambda>r. (sl_token_hash r, sl_max_participants r))
        (filter (\<lambda>r. sl_pubkey r = cx_owner_pubkey ctx) (d_slots (w_db w'))) =
        map (\<lambda>s. (ve_token_hash s, ve_max_participants s)) slots \<and>
      filter (\<lambda>r. sl_pubkey r \<noteq> cx_owner_pubkey ctx) (d_slots (w_db w')) =
        filter (\<lambda>r. sl_pubkey r \<noteq> cx_owner_pubkey ctx) (d_slots (w_db w)) \<and>
      w_registered w' = w_registered w @ [slots]
    else w' = w"
  using assms
proof (cases rule: rooms_handler_cases)
  case s: (ran slots voice db')
  let ?mk = "\<lambda>(h, m). \<lparr>sl_pubkey = cx_owner_pubkey ctx, sl_token_hash = h, sl_max_participants = m, sl_updated_at = e_now e\<rparr>"
  have f: "filter (\<lambda>r. sl_pubkey r = cx_owner_pubkey ctx) (map ?mk ps) = map ?mk ps"
    "filter (\<lambda>r. sl_pubkey r \<noteq> cx_owner_pubkey ctx) (map ?mk ps) = []"
    "map (\<lambda>r. (sl_token_hash r, sl_max_participants r)) (map ?mk ps) = ps" for ps
    by (induction ps) auto
  have d: "d_slots db' = filter (\<lambda>r. sl_pubkey r \<noteq> cx_owner_pubkey ctx) (d_slots (w_db w)) @
      map ?mk (map (\<lambda>s. (ve_token_hash s, ve_max_participants s)) slots)"
    using s(5) by (auto simp: replace_set_eq simp del: map_map split: if_splits)
  show ?thesis
    using s(1-4,6,7) f by (simp add: d check_slots_None MAX_SLOTS_def del: map_map)
qed simp

definition ex_slots :: "voice_slot_entry list" where
  "ex_slots = [\<lparr>ve_token_hash = replicate 32 5, ve_max_participants = Some 4\<rparr>]"

definition ex_slot_ext :: ext where
  "ex_slot_ext = plain_ext\<lparr>x_from_reader := (\<lambda>_. Some (voice_slot_push_to_cbor ex_slots))\<rparr>"

lemma rooms_exact_witness:
  "w_registered (snd (rooms_handler ex_slot_ext ex_env ex_ctx (legacy_headers [7]) [7] ex_world)) = [ex_slots]"
proof -
  have p: "voice_slot_push_parse ex_slot_ext [7] = Some ex_slots"
    using plain_leaf_ok
    by (simp add: voice_slot_push_parse_def ex_slot_ext_def plain_ext_def voice_slot_push_from_cbor_def
        voice_slot_push_to_cbor_def wire wire_defs)
  have v: "verify_owner_request ex_slot_ext 1000 (legacy_headers [7]) ''POST'' ''/voice/rooms'' [7] ex_key = Inr ()"
    by (simp add: ex_slot_ext_def verify_reader_irrelevant legacy_headers_verify)
  have c: "check_slots 8 ex_slots = None" by (simp add: ex_slots_def)
  have r: "\<exists>db'. replace_set ex_key (map (\<lambda>s. (ve_token_hash s, ve_max_participants s)) ex_slots) 1000 (w_db ex_world) = Inr db'"
    by (simp add: replace_set_eq ex_slots_def fk_ok_def ex_world_def tbl_find_def)
  obtain rs w' where h: "rooms_handler ex_slot_ext ex_env ex_ctx (legacy_headers [7]) [7] ex_world = (rs, w')"
    by (cases "rooms_handler ex_slot_ext ex_env ex_ctx (legacy_headers [7]) [7] ex_world")
  have "rs_status rs = 200"
    using h p v c r
    by (auto simp: rooms_handler_def guarded_def ex_ctx_def ex_env_def MAX_SLOTS_def Let_def db_run_def res_bind_def
        cbor_ok_def cbor_response_def ex_slots_def)
  then show ?thesis
    using rooms_exact [OF h] p h by (auto simp: ex_world_def)
qed

end
