(* ===== verification/Gc.thy ===== *)
theory Gc
  imports Serving "HOL-Library.Sublist"
begin

text \<open>
  The startup sweep of the media directory (\<open>starling-relay/src/gc.rs\<close>): directories of no
  paired Owner, files of no row and rows of no file are removed. The directory is a tree,
  walked with an explicit stack as in the code; its root stands for \<open>media_dir\<close>, and a
  missing directory is an empty one. Paths are lists of components, which is what
  \<open>PathBuf\<close> compares.
\<close>

section \<open>The directory tree\<close>

datatype node = NFile bytes | NDir "(str \<times> node) list"

type_synonym path = "str list"

fun is_dir :: "node \<Rightarrow> bool" where
  "is_dir (NDir _) = True"
| "is_dir (NFile _) = False"

fun lookup_path :: "path \<Rightarrow> node \<Rightarrow> node option" where
  "lookup_path [] n = Some n"
| "lookup_path (c # cs) (NFile _) = None"
| "lookup_path (c # cs) (NDir es) = (case map_of es c of None \<Rightarrow> None | Some n \<Rightarrow> lookup_path cs n)"

fun remove_path :: "path \<Rightarrow> node \<Rightarrow> node" where
  "remove_path [] n = n"
| "remove_path (c # cs) (NFile b) = NFile b"
| "remove_path (c # cs) (NDir es) =
     (if cs = [] then NDir (AList.delete c es)
      else case map_of es c of None \<Rightarrow> NDir es | Some n \<Rightarrow> NDir (AList.update c (remove_path cs n) es))"

fun put_child :: "str \<Rightarrow> node \<Rightarrow> node \<Rightarrow> node" where
  "put_child c n (NDir es) = NDir (AList.update c n es)"
| "put_child c n (NFile b) = NFile b"

text \<open>Repeated separators and \<open>.\<close> components do not count.\<close>

definition components :: "str \<Rightarrow> path" where
  "components s = filter (\<lambda>c. c \<noteq> [] \<and> c \<noteq> ''.'') (split_at (CHR ''/'') s)"

text \<open>
  What the operating system answers: which directories can be listed, what a failed
  \<open>remove_dir_all\<close> leaves behind (\<open>None\<close> when it succeeds), which unlinks succeed.
\<close>

record gc_env =
  g_pool_ok :: bool
  g_readable :: "path \<Rightarrow> bool"
  g_rmdir :: "str \<Rightarrow> node option"
  g_unlink_ok :: "path \<Rightarrow> bool"

section \<open>\<open>gc.rs\<close>\<close>

record gc_stats =
  unknown_owner_dirs_removed :: nat
  orphan_files_removed :: nat
  phantom_rows_removed :: nat

definition read_dir_or_empty :: "bool \<Rightarrow> node option \<Rightarrow> (str \<times> node) list" where
  "read_dir_or_empty readable n = (case n of Some (NDir es) \<Rightarrow> (if readable then es else []) | _ \<Rightarrow> [])"

fun walk_entries ::
  "path \<Rightarrow> (str \<times> node) list \<Rightarrow> (path \<times> node) list \<Rightarrow> path list \<Rightarrow> (path \<times> node) list \<times> path list" where
  "walk_entries d [] stack fs = (stack, fs)"
| "walk_entries d ((name, n) # es) stack fs =
     (if is_dir n then walk_entries d es ((d @ [name], n) # stack) fs
      else walk_entries d es stack (fs @ [d @ [name]]))"

definition stack_size :: "(path \<times> node) list \<Rightarrow> nat" where
  "stack_size stack = sum_list (map (\<lambda>(_, n). Suc (size n)) stack)"

lemma stack_size_simps [simp]: "stack_size [] = 0" "stack_size ((d, n) # stack) = Suc (size n) + stack_size stack"
  by (simp_all add: stack_size_def)

lemma walk_entries_size:
  "stack_size (fst (walk_entries d es stack fs)) \<le> size_list (size_prod (\<lambda>_. 0) size) es + stack_size stack"
  by (induction d es stack fs rule: walk_entries.induct) auto

lemma walk_entries_less:
  assumes "(stack', fs') = walk_entries d (read_dir_or_empty ok (Some n)) stack fs"
  shows "stack_size stack' < Suc (size n + stack_size stack)"
proof -
  have "stack_size stack' \<le> size_list (size_prod (\<lambda>_. 0) size) (read_dir_or_empty ok (Some n)) + stack_size stack"
    using walk_entries_size [of d "read_dir_or_empty ok (Some n)" stack fs] assms by (metis fst_conv)
  also have "\<dots> < Suc (size n + stack_size stack)"
    by (cases n) (simp_all add: read_dir_or_empty_def)
  finally show ?thesis .
qed

function walk_loop :: "(path \<Rightarrow> bool) \<Rightarrow> (path \<times> node) list \<Rightarrow> path list \<Rightarrow> path list" where
  "walk_loop readable [] fs = fs"
| "walk_loop readable ((d, n) # stack) fs =
     (case walk_entries d (read_dir_or_empty (readable d) (Some n)) stack fs of
        (stack', fs') \<Rightarrow> walk_loop readable stack' fs')"
  by pat_completeness auto
termination
  by (relation "measure (\<lambda>(_, stack, _). stack_size stack)") (auto split: prod.split dest: walk_entries_less [OF sym])

definition walk_files :: "(path \<Rightarrow> bool) \<Rightarrow> path \<Rightarrow> node option \<Rightarrow> path list" where
  "walk_files readable d n = (case n of None \<Rightarrow> [] | Some n \<Rightarrow> walk_loop readable [(d, n)] [])"

text \<open>Leg 1, over the entries listed at the start.\<close>

fun unknown_dirs_loop ::
  "gc_env \<Rightarrow> str list \<Rightarrow> (str \<times> node) list \<Rightarrow> gc_stats \<Rightarrow> node \<Rightarrow> gc_stats \<times> node" where
  "unknown_dirs_loop g known [] stats t = (stats, t)"
| "unknown_dirs_loop g known ((name, n) # es) stats t =
     (if name \<in> set known then unknown_dirs_loop g known es stats t
      else if is_dir n then
        (case g_rmdir g name of
           None \<Rightarrow> unknown_dirs_loop g known es
             (stats\<lparr>unknown_owner_dirs_removed := unknown_owner_dirs_removed stats + 1\<rparr>) (remove_path [name] t)
         | Some left \<Rightarrow> unknown_dirs_loop g known es stats (put_child name left t))
      else unknown_dirs_loop g known es stats t)"

text \<open>Leg 2, over the files found by the walk.\<close>

fun orphan_loop :: "gc_env \<Rightarrow> path list \<Rightarrow> path list \<Rightarrow> gc_stats \<Rightarrow> node \<Rightarrow> gc_stats \<times> node" where
  "orphan_loop g expected [] stats t = (stats, t)"
| "orphan_loop g expected (f # fs) stats t =
     (if f \<in> set expected then orphan_loop g expected fs stats t
      else if g_unlink_ok g f then
        orphan_loop g expected fs (stats\<lparr>orphan_files_removed := orphan_files_removed stats + 1\<rparr>) (remove_path f t)
      else orphan_loop g expected fs stats t)"

text \<open>Leg 3.\<close>

fun phantom_loop :: "bytes \<Rightarrow> served_media list \<Rightarrow> node \<Rightarrow> gc_stats \<Rightarrow> db \<Rightarrow> gc_stats \<times> db" where
  "phantom_loop pubkey [] t stats db = (stats, db)"
| "phantom_loop pubkey (row # rows) t stats db =
     (if lookup_path (components (sm_path row)) t \<noteq> None then phantom_loop pubkey rows t stats db
      else phantom_loop pubkey rows t (stats\<lparr>phantom_rows_removed := phantom_rows_removed stats + 1\<rparr>)
             (snd (media_delete pubkey (sm_hash row) db)))"

fun owners_loop ::
  "ext \<Rightarrow> gc_env \<Rightarrow> paired_owner list \<Rightarrow> gc_stats \<Rightarrow> db \<Rightarrow> node \<Rightarrow> gc_stats \<times> db \<times> node" where
  "owners_loop x g [] stats db t = (stats, db, t)"
| "owners_loop x g (owner # owners) stats db t =
     (let owner_hex = x_hex_encode x (po_pubkey owner);
          rows = media_rows_for_owner (po_pubkey owner) db;
          expected = map (\<lambda>r. components (sm_path r)) rows;
          fs = walk_files (g_readable g) [owner_hex] (lookup_path [owner_hex] t);
          (stats1, t1) = orphan_loop g expected fs stats t;
          (stats2, db1) = phantom_loop (po_pubkey owner) rows t1 stats1 db
      in owners_loop x g owners stats2 db1 t1)"

definition gc_sweep :: "ext \<Rightarrow> gc_env \<Rightarrow> db \<Rightarrow> node \<Rightarrow> gc_stats res \<times> db \<times> node" where
  "gc_sweep x g db t =
     (if \<not> g_pool_ok g then (Inl Pool_exhausted, db, t)
      else
        let owner_rows = owners_list db;
            known_dirs = map (\<lambda>r. x_hex_encode x (po_pubkey r)) owner_rows;
            (stats1, t1) = unknown_dirs_loop g known_dirs (read_dir_or_empty (g_readable g []) (Some t))
              \<lparr>unknown_owner_dirs_removed = 0, orphan_files_removed = 0, phantom_rows_removed = 0\<rparr> t;
            (stats2, db2, t2) = owners_loop x g owner_rows stats1 db t1
        in (Inr stats2, db2, t2))"

section \<open>Lemmas on the tree\<close>

fun node_ok :: "node \<Rightarrow> bool" where
  "node_ok (NFile b) = True"
| "node_ok (NDir es) = (distinct (map fst es) \<and> (\<forall>e \<in> set es. node_ok (snd e)))"

definition has_file :: "path \<Rightarrow> node \<Rightarrow> bool" where
  "has_file q t = (case lookup_path q t of Some n \<Rightarrow> \<not> is_dir n | None \<Rightarrow> False)"

definition not_dir :: "path \<Rightarrow> node \<Rightarrow> bool" where
  "not_dir q t = (case lookup_path q t of Some n \<Rightarrow> \<not> is_dir n | None \<Rightarrow> True)"

lemma has_file_lookup: "has_file q t \<Longrightarrow> lookup_path q t \<noteq> None"
  by (cases "lookup_path q t") (auto simp: has_file_def)

lemma has_file_not_dir: "has_file q t \<Longrightarrow> not_dir q t"
  by (cases "lookup_path q t") (auto simp: has_file_def not_dir_def)

lemma is_dir_remove [simp]: "is_dir (remove_path p t) = is_dir t"
  by (cases "(p, t)" rule: remove_path.cases) (auto split: option.splits)

lemma lookup_NFile: "lookup_path q (NFile b) \<noteq> None \<Longrightarrow> q = []"
  by (cases q) auto

lemma lookup_append:
  "lookup_path (p @ q) t = (case lookup_path p t of None \<Rightarrow> None | Some n \<Rightarrow> lookup_path q n)"
proof (induction p arbitrary: t)
  case (Cons c p)
  then show ?case by (cases t) (auto split: option.splits)
qed simp

lemma lookup_remove:
  "p \<noteq> [] \<Longrightarrow> lookup_path q (remove_path p t) =
     (if prefix p q then None
      else if prefix q p then map_option (remove_path (drop (length q) p)) (lookup_path q t)
      else lookup_path q t)"
proof (induction p arbitrary: q t)
  case (Cons c p)
  show ?case
  proof (cases t)
    case (NFile b)
    then show ?thesis by (cases q) auto
  next
    case t: (NDir es)
    show ?thesis
    proof (cases q)
      case Nil
      then show ?thesis by simp
    next
      case q: (Cons d q')
      show ?thesis
      proof (cases "p = []")
        case True
        then show ?thesis using t q by (auto simp: delete_conv')
      next
        case False
        then show ?thesis
          using t q Cons.IH [OF False] by (auto simp: update_conv' split: option.splits)
      qed
    qed
  qed
qed simp

lemma lookup_remove_other:
  "p \<noteq> [] \<Longrightarrow> (lookup_path q (remove_path p t) \<noteq> None) = (\<not> prefix p q \<and> lookup_path q t \<noteq> None)"
  "p \<noteq> [] \<Longrightarrow> has_file q (remove_path p t) = (\<not> prefix p q \<and> has_file q t)"
  "p \<noteq> [] \<Longrightarrow> not_dir q t \<Longrightarrow> not_dir q (remove_path p t)"
  by (auto simp: lookup_remove has_file_def not_dir_def split: option.splits)

lemma not_dir_prefix:
  assumes "not_dir f t" "prefix f q" "lookup_path q t \<noteq> None"
  shows "q = f"
proof -
  from assms(2) obtain r where r: "q = f @ r" by (auto simp: prefix_def)
  from assms(1,3) obtain b where "lookup_path f t = Some (NFile b)" "lookup_path r (NFile b) \<noteq> None"
    unfolding r lookup_append not_dir_def
    by (auto split: option.splits) (metis is_dir.elims(3))
  then show ?thesis using lookup_NFile r by auto
qed

lemma set_alist_update: "set (AList.update k v al) \<subseteq> insert (k, v) (set al)"
  by (induction al) auto

lemma node_ok_remove: "node_ok t \<Longrightarrow> node_ok (remove_path p t)"
proof (induction p t rule: remove_path.induct)
  case (3 c cs es)
  have d: "distinct (map fst (AList.delete c es))" "set (AList.delete c es) \<subseteq> set es"
    using "3.prems" by (simp add: distinct_delete) (auto simp: AList.delete_eq)
  have u: "node_ok (NDir (AList.update c n' es))" if "node_ok n'" for n'
    using "3.prems" that set_alist_update [of c n' es] by (auto simp: distinct_update)
  show ?case
  proof (cases "cs = []")
    case True
    then show ?thesis using "3.prems" d by auto
  next
    case False
    have "node_ok (remove_path cs n)" if "map_of es c = Some n" for n
      using "3.IH" [OF False that] "3.prems" map_of_SomeD [OF that] by auto
    with False u show ?thesis using "3.prems" by (auto split: option.splits)
  qed
qed auto

lemma has_file_Cons:
  assumes "node_ok (NDir es)"
  shows "has_file (c # q) (NDir es) \<longleftrightarrow> (\<exists>n. (c, n) \<in> set es \<and> has_file q n)"
proof (cases "map_of es c")
  case None
  then have "c \<notin> fst ` set es" by (simp add: map_of_eq_None_iff)
  with None show ?thesis by (force simp: has_file_def)
next
  case (Some m)
  then have "(c, n) \<in> set es \<longleftrightarrow> n = m" for n using assms map_of_eq_Some_iff [of es c n] by auto
  with Some show ?thesis by (simp add: has_file_def)
qed

section \<open>Lemmas on the walk\<close>

lemma walk_entries_spec:
  "set (fst (walk_entries d es stack fs)) = set stack \<union> {(d @ [c], n) |c n. (c, n) \<in> set es \<and> is_dir n}"
  "set (snd (walk_entries d es stack fs)) = set fs \<union> {d @ [c] |c n. (c, n) \<in> set es \<and> \<not> is_dir n}"
  by (induction d es stack fs rule: walk_entries.induct) auto

definition files_under :: "path \<times> node \<Rightarrow> path set" where
  "files_under e = {fst e @ q |q. q \<noteq> [] \<and> has_file q (snd e)}"

lemma files_under_NDir:
  assumes "node_ok (NDir es)"
  shows "files_under (d, NDir es) = {d @ [c] |c n. (c, n) \<in> set es \<and> \<not> is_dir n} \<union>
    (\<Union>e \<in> {(d @ [c], n) |c n. (c, n) \<in> set es \<and> is_dir n}. files_under e)" (is "_ = ?R")
proof (intro set_eqI iffI)
  fix p assume "p \<in> files_under (d, NDir es)"
  then obtain q where q: "p = d @ q" "q \<noteq> []" "has_file q (NDir es)" by (auto simp: files_under_def)
  then obtain c q' n where c: "q = c # q'" "(c, n) \<in> set es" "has_file q' n"
    using has_file_Cons [OF assms] by (cases q) auto
  show "p \<in> ?R"
  proof (cases "q' = []")
    case True
    then show ?thesis using c q by (auto simp: has_file_def)
  next
    case False
    then have "is_dir n" using c(3) by (cases n; cases q') (auto simp: has_file_def)
    moreover have "p \<in> files_under (d @ [c], n)" using False c q by (auto simp: files_under_def)
    ultimately show ?thesis using c(2) by blast
  qed
next
  fix p assume "p \<in> ?R"
  then show "p \<in> files_under (d, NDir es)"
  proof
    assume "p \<in> {d @ [c] |c n. (c, n) \<in> set es \<and> \<not> is_dir n}"
    then obtain c n where "p = d @ [c]" "(c, n) \<in> set es" "\<not> is_dir n" by blast
    moreover from this have "has_file [c] (NDir es)" using has_file_Cons [OF assms, of c "[]"] by (auto simp: has_file_def)
    ultimately show ?thesis by (auto simp: files_under_def)
  next
    assume "p \<in> (\<Union>e \<in> {(d @ [c], n) |c n. (c, n) \<in> set es \<and> is_dir n}. files_under e)"
    then obtain c n q where "(c, n) \<in> set es" "p = (d @ [c]) @ q" "q \<noteq> []" "has_file q n"
      by (auto simp: files_under_def)
    moreover from this have "has_file (c # q) (NDir es)" using has_file_Cons [OF assms] by blast
    ultimately show ?thesis by (auto simp: files_under_def intro!: exI [of _ "c # q"])
  qed
qed

lemma walk_loop_sound:
  "\<forall>e \<in> set stack. node_ok (snd e) \<Longrightarrow>
   set (walk_loop rd stack fs) \<subseteq> set fs \<union> (\<Union>e \<in> set stack. files_under e)"
proof (induction rd stack fs rule: walk_loop.induct)
  case (2 rd d n stack fs)
  let ?es = "read_dir_or_empty (rd d) (Some n)"
  obtain stack' fs' where w: "walk_entries d ?es stack fs = (stack', fs')" by fastforce
  have sub: "?es \<noteq> [] \<Longrightarrow> n = NDir ?es" by (auto simp: read_dir_or_empty_def split: node.splits if_splits)
  note s = walk_entries_spec [of d ?es stack fs, unfolded w fst_conv snd_conv]
  have "\<forall>e \<in> set stack'. node_ok (snd e)"
  proof (cases "?es = []")
    case False
    then have "node_ok (NDir ?es)" using "2.prems" sub by (metis list.set_intros(1) snd_conv)
    then show ?thesis using "2.prems" by (auto simp: s)
  qed (use "2.prems" in \<open>auto simp: s\<close>)
  then have "set (walk_loop rd stack' fs') \<subseteq> set fs' \<union> (\<Union>e \<in> set stack'. files_under e)"
    using "2.IH" [OF w [symmetric]] by simp
  also have "\<dots> \<subseteq> set fs \<union> (\<Union>e \<in> set ((d, n) # stack). files_under e)"
  proof (cases "?es = []")
    case True
    then show ?thesis by (auto simp: s)
  next
    case False
    then have n: "n = NDir ?es" by (rule sub)
    then have "files_under (d, n) = {d @ [c] |c m. (c, m) \<in> set ?es \<and> \<not> is_dir m} \<union>
      (\<Union>e \<in> {(d @ [c], m) |c m. (c, m) \<in> set ?es \<and> is_dir m}. files_under e)"
      using files_under_NDir [of ?es d] "2.prems" by (metis list.set_intros(1) snd_conv)
    then show ?thesis
      unfolding s list.set UN_insert UN_Un by (simp add: le_supI1 le_supI2)
  qed
  finally show ?case using w by simp
qed simp

lemma walk_loop_complete:
  "\<forall>e \<in> set stack. node_ok (snd e) \<Longrightarrow> \<forall>p. rd p \<Longrightarrow>
   set fs \<union> (\<Union>e \<in> set stack. files_under e) \<subseteq> set (walk_loop rd stack fs)"
proof (induction rd stack fs rule: walk_loop.induct)
  case (2 rd d n stack fs)
  let ?es = "read_dir_or_empty (rd d) (Some n)"
  obtain stack' fs' where w: "walk_entries d ?es stack fs = (stack', fs')" by fastforce
  note s = walk_entries_spec [of d ?es stack fs, unfolded w fst_conv snd_conv]
  have es: "?es = (case n of NDir es \<Rightarrow> es | NFile _ \<Rightarrow> [])"
    using "2.prems"(2) by (simp add: read_dir_or_empty_def split: node.splits)
  have "\<forall>e \<in> set stack'. node_ok (snd e)"
    using "2.prems"(1) es by (cases n) (auto simp: s)
  then have "set fs' \<union> (\<Union>e \<in> set stack'. files_under e) \<subseteq> set (walk_loop rd stack' fs')"
    using "2.IH" [OF w [symmetric] _ "2.prems"(2)] by simp
  moreover have "files_under (d, n) = {d @ [c] |c m. (c, m) \<in> set ?es \<and> \<not> is_dir m} \<union>
      (\<Union>e \<in> {(d @ [c], m) |c m. (c, m) \<in> set ?es \<and> is_dir m}. files_under e)"
  proof (cases n)
    case (NFile b)
    have "lookup_path q (NFile b) = None" if "q \<noteq> []" for q using that by (cases q) auto
    then show ?thesis using NFile es by (auto simp: files_under_def has_file_def)
  next
    case (NDir es')
    then show ?thesis using files_under_NDir [of es' d] "2.prems"(1) es by simp
  qed
  ultimately show ?case using w by (auto simp: s)
qed simp

lemma walk_files_spec:
  assumes "\<And>n. t = Some n \<Longrightarrow> node_ok n"
  shows "set (walk_files rd d t) \<subseteq> (case t of None \<Rightarrow> {} | Some n \<Rightarrow> files_under (d, n))"
    "\<forall>p. rd p \<Longrightarrow> set (walk_files rd d t) = (case t of None \<Rightarrow> {} | Some n \<Rightarrow> files_under (d, n))"
proof -
  show sound: "set (walk_files rd d t) \<subseteq> (case t of None \<Rightarrow> {} | Some n \<Rightarrow> files_under (d, n))"
    using walk_loop_sound [of "[(d, the t)]" rd "[]"] assms
    by (auto simp: walk_files_def simp del: walk_loop.simps split: option.splits)
  assume "\<forall>p. rd p"
  from walk_loop_complete [OF _ this, of "[(d, the t)]" "[]"] sound assms
  show "set (walk_files rd d t) = (case t of None \<Rightarrow> {} | Some n \<Rightarrow> files_under (d, n))"
    unfolding walk_files_def by (cases t) (simp_all del: walk_loop.simps)
qed

section \<open>Lemmas on the three legs\<close>

text \<open>A hex directory name is one component.\<close>

definition dir_name :: "str \<Rightarrow> bool" where
  "dir_name s \<longleftrightarrow> CHR ''/'' \<notin> set s \<and> s \<noteq> [] \<and> s \<noteq> ''.''"

definition row_path :: "ext \<Rightarrow> bytes \<Rightarrow> str \<Rightarrow> path" where
  "row_path x pk h = [x_hex_encode x pk, take 2 h, take 4 h, h]"

lemma components_shard:
  assumes "dir_name (x_hex_encode x pk)" "is_valid_hash h"
  shows "components (owner_shard_path x pk h) = row_path x pk h"
proof -
  have ok: "list_all (\<lambda>c. is_digit c \<or> CHR ''a'' \<le> c \<and> c \<le> CHR ''f'') h" and len: "length h = 64"
    using assms(2) by (auto simp: is_valid_hash_def)
  have slash: "CHR ''/'' \<notin> set h" and dot: "CHR ''.'' \<notin> set h"
    using ok by (auto simp: list_all_iff is_digit_def less_eq_char_def)
  have "CHR ''/'' \<notin> set (take n h)" "CHR ''.'' \<notin> set (take n h)" for n
    using slash dot by (auto dest: in_set_takeD)
  then have "take n h \<noteq> ''.''" for n by (metis list.set_intros(1))
  moreover have "h \<noteq> ''.''" using dot by auto
  moreover have "take 2 h \<noteq> []" "take 4 h \<noteq> []" "h \<noteq> []" using len by auto
  ultimately show ?thesis
    using assms(1) slash \<open>\<And>n. CHR ''/'' \<notin> set (take n h)\<close>
    by (simp add: owner_shard_path_def shard_path_def components_def row_path_def split_at_append split_at_word dir_name_def)
qed

text \<open>Every media row sits at its Owner's path; its file may or may not be there.\<close>

definition rows_placed :: "ext \<Rightarrow> db \<Rightarrow> bool" where
  "rows_placed x db \<longleftrightarrow> (\<forall>r \<in> set (d_media db). is_valid_hash (sm_hash r) \<and>
     sm_path r = owner_shard_path x (sm_pubkey r) (sm_hash r) \<and> dir_name (x_hex_encode x (sm_pubkey r)))"

abbreviation media_path :: "served_media \<Rightarrow> path" where
  "media_path r \<equiv> components (sm_path r)"

lemma rows_placed_path: "rows_placed x db \<Longrightarrow> r \<in> set (d_media db) \<Longrightarrow> media_path r = row_path x (sm_pubkey r) (sm_hash r)"
  by (simp add: rows_placed_def components_shard)

definition live :: "node \<Rightarrow> served_media \<Rightarrow> bool" where
  "live t r \<longleftrightarrow> lookup_path (media_path r) t \<noteq> None"

lemma orphan_loop_spec:
  assumes "\<forall>f \<in> set fs. f \<noteq> [] \<and> not_dir f t" "orphan_loop g expected fs st t = (st', t')" "node_ok t"
  shows "node_ok t' \<and> is_dir t' = is_dir t \<and>
    (\<forall>q. (lookup_path q t' \<noteq> None) = (lookup_path q t \<noteq> None \<and> q \<notin> {f \<in> set fs. f \<notin> set expected \<and> g_unlink_ok g f})) \<and>
    (\<forall>q. has_file q t' = (has_file q t \<and> q \<notin> {f \<in> set fs. f \<notin> set expected \<and> g_unlink_ok g f}))"
  using assms
proof (induction fs arbitrary: st t)
  case (Cons f fs)
  show ?case
  proof (cases "f \<notin> set expected \<and> g_unlink_ok g f")
    case False
    then have "orphan_loop g expected fs st t = (st', t')" using Cons.prems(2) by (auto split: if_splits)
    with Cons.IH [OF _ this Cons.prems(3)] Cons.prems(1) False show ?thesis by auto
  next
    case True
    have f: "f \<noteq> []" "not_dir f t" using Cons.prems(1) by auto
    have run: "orphan_loop g expected fs (st\<lparr>orphan_files_removed := orphan_files_removed st + 1\<rparr>) (remove_path f t) = (st', t')"
      using Cons.prems(2) True by simp
    have "\<forall>f' \<in> set fs. f' \<noteq> [] \<and> not_dir f' (remove_path f t)"
      using Cons.prems(1) lookup_remove_other(3) [OF f(1)] by auto
    note ih = Cons.IH [OF this run node_ok_remove [OF Cons.prems(3)]]
    have ex: "(lookup_path q (remove_path f t) \<noteq> None) = (lookup_path q t \<noteq> None \<and> q \<noteq> f)" for q
      using lookup_remove_other(1) [OF f(1), of q t] not_dir_prefix [OF f(2), of q] by blast
    have hf: "has_file q (remove_path f t) = (has_file q t \<and> q \<noteq> f)" for q
      using lookup_remove_other(2) [OF f(1), of q t] not_dir_prefix [OF f(2), of q] has_file_lookup [of q t] by blast
    have eq: "{f' \<in> set (f # fs). f' \<notin> set expected \<and> g_unlink_ok g f'} =
        insert f {f' \<in> set fs. f' \<notin> set expected \<and> g_unlink_ok g f'}"
      using True by auto
    define G where "G = {f' \<in> set fs. f' \<notin> set expected \<and> g_unlink_ok g f'}"
    note ih = ih [folded G_def, unfolded ex hf is_dir_remove]
    show ?thesis unfolding eq G_def [symmetric]
    proof (intro conjI allI)
      show "node_ok t'" using ih by (elim conjE)
      show "is_dir t' = is_dir t" using ih by (elim conjE)
      show "(lookup_path q t' \<noteq> None) = (lookup_path q t \<noteq> None \<and> q \<notin> insert f G)" for q
        using ih by (elim conjE) simp
      show "has_file q t' = (has_file q t \<and> q \<notin> insert f G)" for q
        using ih by (elim conjE) simp
    qed
  qed
qed simp

lemma phantom_loop_spec:
  "phantom_loop pk rows t st db = (st', db') \<Longrightarrow>
   db' = db\<lparr>d_media := filter (\<lambda>r. \<not> (sm_pubkey r = pk \<and> (\<exists>r' \<in> set rows. sm_hash r' = sm_hash r \<and> \<not> live t r'))) (d_media db)\<rparr>"
proof (induction rows arbitrary: st db)
  case (Cons r rows)
  show ?case
  proof (cases "live t r")
    case True
    then show ?thesis using Cons.IH [of st db] Cons.prems by (auto simp: live_def intro!: db.equality filter_cong)
  next
    case False
    let ?db = "db\<lparr>d_media := filter (\<lambda>q. sm_key q \<noteq> (pk, sm_hash r)) (d_media db)\<rparr>"
    have "phantom_loop pk rows t (st\<lparr>phantom_rows_removed := phantom_rows_removed st + 1\<rparr>) ?db = (st', db')"
      using Cons.prems False by (simp add: live_def media_delete_step)
    from Cons.IH [OF this] False show ?thesis by (auto intro!: db.equality filter_cong)
  qed
qed simp

lemma unknown_dirs_spec:
  assumes "unknown_dirs_loop g known es st t = (st', t')" "node_ok t"
    and "\<forall>nm n. g_rmdir g nm = Some n \<longrightarrow> node_ok n"
  shows "node_ok t' \<and> is_dir t' = is_dir t \<and>
    (\<forall>nm q. nm \<in> set known \<longrightarrow> lookup_path (nm # q) t' = lookup_path (nm # q) t) \<and>
    ((\<forall>nm. g_rmdir g nm = None) \<longrightarrow>
      (\<forall>nm q. lookup_path (nm # q) t' =
        (if nm \<notin> set known \<and> (\<exists>n. (nm, n) \<in> set es \<and> is_dir n) then None else lookup_path (nm # q) t)))"
  using assms(1,2)
proof (induction es arbitrary: st t)
  case (Cons e es)
  obtain nm n where e: "e = (nm, n)" by (cases e)
  show ?case
  proof (cases "nm \<notin> set known \<and> is_dir n")
    case False
    then have "unknown_dirs_loop g known es st t = (st', t')" using Cons.prems(1) e by (auto split: if_splits)
    from Cons.IH [OF this Cons.prems(2)] False e show ?thesis by auto
  next
    case True
    have rm: "lookup_path (nm' # q) (remove_path [nm] t) = (if nm' = nm then None else lookup_path (nm' # q) t)" for nm' q
      by (auto simp: lookup_remove)
    show ?thesis
    proof (cases "g_rmdir g nm")
      case None
      then have "unknown_dirs_loop g known es (st\<lparr>unknown_owner_dirs_removed := unknown_owner_dirs_removed st + 1\<rparr>)
          (remove_path [nm] t) = (st', t')"
        using Cons.prems(1) e True by simp
      from Cons.IH [OF this node_ok_remove [OF Cons.prems(2)]] True e show ?thesis
        by (auto simp: rm)
    next
      case (Some left)
      then have run: "unknown_dirs_loop g known es st (put_child nm left t) = (st', t')"
        using Cons.prems(1) e True by simp
      have pc: "lookup_path (nm' # q) (put_child nm left t) = lookup_path (nm' # q) t" if "nm' \<noteq> nm" for nm' q
        using that by (cases t) (auto simp: update_conv')
      have "node_ok (put_child nm left t)"
        using Cons.prems(2) assms(3) Some
      proof (cases t)
        case (NDir ds)
        then show ?thesis using Cons.prems(2) assms(3) Some set_alist_update [of nm left ds]
          by (auto simp: distinct_update)
      qed simp
      note ih = Cons.IH [OF run this]
      have "is_dir (put_child nm left t) = is_dir t" by (cases t) auto
      moreover have "\<forall>nm' q. nm' \<in> set known \<longrightarrow> lookup_path (nm' # q) (put_child nm left t) = lookup_path (nm' # q) t"
        using pc True by metis
      moreover have "\<not> (\<forall>nm. g_rmdir g nm = None)" using Some by (metis option.distinct(1))
      ultimately show ?thesis using ih by metis
    qed
  qed
qed simp


lemma owner_files:
  assumes "node_ok t"
  shows "set (walk_files rd [hx] (lookup_path [hx] t)) \<subseteq> {hx # q |q. q \<noteq> [] \<and> has_file (hx # q) t}"
    "\<forall>p. rd p \<Longrightarrow> set (walk_files rd [hx] (lookup_path [hx] t)) = {hx # q |q. q \<noteq> [] \<and> has_file (hx # q) t}"
proof -
  have ok: "node_ok n" if "lookup_path [hx] t = Some n" for n
    using that assms by (cases t) (auto split: option.splits dest: map_of_SomeD)
  have u: "(case lookup_path [hx] t of None \<Rightarrow> {} | Some n \<Rightarrow> files_under ([hx], n)) = {hx # q |q. q \<noteq> [] \<and> has_file (hx # q) t}"
  proof (cases "lookup_path [hx] t")
    case None
    then have "lookup_path (hx # q) t = None" for q using lookup_append [of "[hx]" q t] by simp
    with None show ?thesis by (simp add: has_file_def)
  next
    case (Some n)
    then have "lookup_path (hx # q) t = lookup_path q n" for q using lookup_append [of "[hx]" q t] by simp
    with Some show ?thesis by (simp add: has_file_def files_under_def)
  qed
  show "set (walk_files rd [hx] (lookup_path [hx] t)) \<subseteq> {hx # q |q. q \<noteq> [] \<and> has_file (hx # q) t}"
    using walk_files_spec(1) [of "lookup_path [hx] t" rd "[hx]", OF ok] unfolding u .
  show "\<forall>p. rd p \<Longrightarrow> set (walk_files rd [hx] (lookup_path [hx] t)) = {hx # q |q. q \<noteq> [] \<and> has_file (hx # q) t}"
    using walk_files_spec(2) [of "lookup_path [hx] t" rd "[hx]", OF ok] unfolding u .
qed

lemma owners_loop_spec:
  assumes "owners_loop x g os st db t = (st', db', t')" "node_ok t" "rows_placed x db" "inj (x_hex_encode x)"
    "distinct (map po_pubkey os)"
  shows "db' = db\<lparr>d_media := filter (\<lambda>r. sm_pubkey r \<notin> po_pubkey ` set os \<or> live t r) (d_media db)\<rparr> \<and>
    (\<forall>r \<in> set (d_media db). live t' r = live t r) \<and> (\<forall>q. has_file q t' \<longrightarrow> has_file q t) \<and>
    (\<forall>q. lookup_path q t' \<noteq> None \<longrightarrow> lookup_path q t \<noteq> None) \<and>
    (\<forall>r \<in> set (d_media db). has_file (media_path r) t' = has_file (media_path r) t) \<and>
    ((\<forall>p. g_readable g p) \<and> (\<forall>p. g_unlink_ok g p) \<longrightarrow>
      (\<forall>k \<in> po_pubkey ` set os. \<forall>q. q \<noteq> [] \<and> has_file (x_hex_encode x k # q) t' \<longrightarrow>
        (\<exists>r \<in> set (d_media db). sm_pubkey r = k \<and> x_hex_encode x k # q = media_path r)))"
  using assms
proof (induction os arbitrary: st db t)
  case (Cons ow os)
  define pk where "pk = po_pubkey ow"
  define hx where "hx = x_hex_encode x pk"
  define rows where "rows = media_rows_for_owner pk db"
  define expected where "expected = map media_path rows"
  define fs where "fs = walk_files (g_readable g) [hx] (lookup_path [hx] t)"
  obtain st1 t1 where o: "orphan_loop g expected fs st t = (st1, t1)" by fastforce
  obtain st2 db1 where p: "phantom_loop pk rows t1 st1 db = (st2, db1)" by fastforce
  have run: "owners_loop x g os st2 db1 t1 = (st', db', t')"
    using Cons.prems(1) o p by (simp add: pk_def hx_def rows_def expected_def fs_def Let_def)
  have files: "\<forall>f \<in> set fs. \<exists>q. f = hx # q \<and> q \<noteq> [] \<and> has_file f t"
    using owner_files(1) [OF Cons.prems(2), of "g_readable g" hx] unfolding fs_def by blast
  then have nd: "\<forall>f \<in> set fs. f \<noteq> [] \<and> not_dir f t" using has_file_not_dir by blast
  define gone where "gone = {f \<in> set fs. f \<notin> set expected \<and> g_unlink_ok g f}"
  note os = orphan_loop_spec [OF nd o Cons.prems(2), folded gone_def]
  have rows_set: "set rows = {r \<in> set (d_media db). sm_pubkey r = pk}" by (auto simp: rows_def media_rows_for_owner_def)
  have keep: "media_path r \<notin> gone" if r: "r \<in> set (d_media db)" for r
  proof (cases "sm_pubkey r = pk")
    case True
    then show ?thesis using r by (auto simp: gone_def expected_def rows_set)
  next
    case False
    then have "hd (media_path r) \<noteq> hx"
      using rows_placed_path [OF Cons.prems(3) r] Cons.prems(4) by (auto simp: row_path_def hx_def inj_eq)
    then show ?thesis using files by (auto simp: gone_def)
  qed
  have live1: "live t1 r = live t r" and file1: "has_file (media_path r) t1 = has_file (media_path r) t"
    if "r \<in> set (d_media db)" for r
    using os keep [OF that] by (simp_all add: live_def)
  have db1: "db1 = db\<lparr>d_media := filter (\<lambda>r. sm_pubkey r \<noteq> pk \<or> live t r) (d_media db)\<rparr>"
  proof -
    have "(\<exists>r' \<in> set rows. sm_hash r' = sm_hash r \<and> \<not> live t1 r') = (\<not> live t r)"
      if r: "r \<in> set (d_media db)" "sm_pubkey r = pk" for r
    proof -
      have "live t1 r' = live t r" if "r' \<in> set rows" "sm_hash r' = sm_hash r" for r'
        using that r live1 rows_placed_path [OF Cons.prems(3)] by (auto simp: rows_set live_def)
      then show ?thesis using r by (auto simp: rows_set)
    qed
    then have "filter (\<lambda>r. \<not> (sm_pubkey r = pk \<and> (\<exists>r' \<in> set rows. sm_hash r' = sm_hash r \<and> \<not> live t1 r'))) (d_media db) =
        filter (\<lambda>r. sm_pubkey r \<noteq> pk \<or> live t r) (d_media db)"
      by (intro filter_cong refl) metis
    then show ?thesis using phantom_loop_spec [OF p] by metis
  qed
  have sub: "set (d_media db1) \<subseteq> set (d_media db)" by (auto simp: db1)
  then have placed: "rows_placed x db1" using Cons.prems(3) by (auto simp: rows_placed_def)
  note ih = Cons.IH [OF run conjunct1 [OF os] placed Cons.prems(4)]
  have pk_new: "pk \<notin> po_pubkey ` set os" and dist: "distinct (map po_pubkey os)"
    using Cons.prems(5) by (auto simp: pk_def)
  note ih = ih [OF dist]
  note mono1 = conjunct1 [OF conjunct2 [OF conjunct2 [OF os]]] and files1 = conjunct2 [OF conjunct2 [OF conjunct2 [OF os]]]
  have c1: "db' = db\<lparr>d_media := filter (\<lambda>r. sm_pubkey r \<notin> po_pubkey ` set (ow # os) \<or> live t r) (d_media db)\<rparr>"
  proof -
    have "filter (\<lambda>r. sm_pubkey r \<notin> po_pubkey ` set os \<or> live t1 r) (d_media db1) =
        filter (\<lambda>r. sm_pubkey r \<notin> po_pubkey ` set (ow # os) \<or> live t r) (d_media db)"
      using live1 pk_new by (auto simp: db1 pk_def intro!: filter_cong)
    then show ?thesis using conjunct1 [OF ih] by (simp add: db1)
  qed
  from ih have
    ih_live: "\<forall>r \<in> set (d_media db1). live t' r = live t1 r" and
    ih_sub: "\<forall>q. has_file q t' \<longrightarrow> has_file q t1" and
    ih_mono: "\<forall>q. lookup_path q t' \<noteq> None \<longrightarrow> lookup_path q t1 \<noteq> None" and
    ih_file: "\<forall>r \<in> set (d_media db1). has_file (media_path r) t' = has_file (media_path r) t1" and
    ih_orphan: "(\<forall>p. g_readable g p) \<and> (\<forall>p. g_unlink_ok g p) \<longrightarrow>
      (\<forall>k \<in> po_pubkey ` set os. \<forall>q. q \<noteq> [] \<and> has_file (x_hex_encode x k # q) t' \<longrightarrow>
        (\<exists>r \<in> set (d_media db1). sm_pubkey r = k \<and> x_hex_encode x k # q = media_path r))"
    by simp_all
  have mono: "\<forall>q. lookup_path q t' \<noteq> None \<longrightarrow> lookup_path q t \<noteq> None" using ih_mono mono1 by metis
  have sub_files: "\<forall>q. has_file q t' \<longrightarrow> has_file q t" using ih_sub files1 by metis
  have both: "live t' r = live t r \<and> has_file (media_path r) t' = has_file (media_path r) t" if r: "r \<in> set (d_media db)" for r
  proof (cases "r \<in> set (d_media db1)")
    case True
    then show ?thesis using ih_live ih_file live1 [OF r] file1 [OF r] by metis
  next
    case False
    then have "\<not> live t r" using r by (auto simp: db1)
    then have none: "lookup_path (media_path r) t = None" by (simp add: live_def)
    then have none': "lookup_path (media_path r) t' = None" using mono by metis
    show ?thesis using none none' by (simp add: live_def has_file_def)
  qed
  have orphan: "\<exists>r \<in> set (d_media db). sm_pubkey r = k \<and> x_hex_encode x k # q = media_path r"
    if nf: "\<forall>p. g_readable g p" "\<forall>p. g_unlink_ok g p" and k: "k \<in> po_pubkey ` set (ow # os)"
      and q: "q \<noteq> []" "has_file (x_hex_encode x k # q) t'" for k q
  proof (cases "k = pk")
    case True
    have "has_file (hx # q) t1" using ih_sub q(2) True by (simp add: hx_def)
    then have "has_file (hx # q) t" "hx # q \<notin> gone" using files1 by auto
    then have "hx # q \<in> set expected"
      using owner_files(2) [OF Cons.prems(2) nf(1), of hx] q(1) nf(2) by (auto simp: gone_def fs_def)
    then obtain r where "r \<in> set rows" "hx # q = media_path r" unfolding expected_def by auto
    then show ?thesis using True by (auto simp: rows_set hx_def)
  next
    case False
    then have "k \<in> po_pubkey ` set os" using k by (auto simp: pk_def)
    then obtain r where "r \<in> set (d_media db1)" "sm_pubkey r = k" "x_hex_encode x k # q = media_path r"
      using ih_orphan nf q by blast
    then show ?thesis using sub by blast
  qed
  show ?case
  proof (intro conjI ballI allI impI)
    show "db' = db\<lparr>d_media := filter (\<lambda>r. sm_pubkey r \<notin> po_pubkey ` set (ow # os) \<or> live t r) (d_media db)\<rparr>" by (rule c1)
  qed (use both sub_files mono orphan in \<open>blast+\<close>)
qed simp

section \<open>Properties\<close>

lemma media_row_owned:
  assumes "db_inv db" "r \<in> set (d_media db)"
  shows "sm_pubkey r \<in> po_pubkey ` set (owners_list db)"
proof -
  have "fk_ok db (sm_pubkey r)" using assms by (simp add: db_inv_def)
  then show ?thesis by (force simp: fk_ok_def tbl_find_def find_None_iff owners_list_def)
qed

lemma sweep_rows_live:
  assumes "db_inv db" "rows_placed x db" "node_ok t" "\<forall>nm n. g_rmdir g nm = Some n \<longrightarrow> node_ok n"
    and "unknown_dirs_loop g (map (\<lambda>r. x_hex_encode x (po_pubkey r)) (owners_list db)) es st t = (st1, t1)"
    and "r \<in> set (d_media db)"
  shows "lookup_path (media_path r) t1 = lookup_path (media_path r) t"
proof -
  have "x_hex_encode x (sm_pubkey r) \<in> set (map (\<lambda>r. x_hex_encode x (po_pubkey r)) (owners_list db))"
    using media_row_owned [OF assms(1,6)] by auto
  then show ?thesis
    using unknown_dirs_spec [OF assms(5,3,4)] rows_placed_path [OF assms(2,6)] unfolding row_path_def by metis
qed

text \<open>
  C19: The startup sweep reconciles rows and files and harms neither. Whatever unlinks and
  listings fail, exactly the rows whose file is missing are dropped, and no file of a row is
  touched. When nothing fails, every file left below an Owner's directory or any other
  directory is the file of a remaining row.
\<close>
theorem gc_sweep_correct:
  assumes "db_inv db" "rows_placed x db" "inj (x_hex_encode x)" "node_ok t" "g_pool_ok g"
    and "\<forall>nm n. g_rmdir g nm = Some n \<longrightarrow> node_ok n"
  shows "\<exists>stats db' t'. gc_sweep x g db t = (Inr stats, db', t') \<and>
    db' = db\<lparr>d_media := filter (live t) (d_media db)\<rparr> \<and>
    (\<forall>r \<in> set (d_media db). lookup_path (media_path r) t' \<noteq> None \<longleftrightarrow> live t r) \<and>
    (\<forall>r \<in> set (d_media db). has_file (media_path r) t' \<longleftrightarrow> has_file (media_path r) t) \<and>
    ((\<forall>p. g_readable g p) \<and> (\<forall>p. g_unlink_ok g p) \<and> (\<forall>nm. g_rmdir g nm = None) \<longrightarrow>
      (\<forall>q. 2 \<le> length q \<and> has_file q t' \<longrightarrow> (\<exists>r \<in> set (d_media db'). q = media_path r)))"
proof -
  define known where "known = map (\<lambda>r. x_hex_encode x (po_pubkey r)) (owners_list db)"
  define es where "es = read_dir_or_empty (g_readable g []) (Some t)"
  obtain st1 t1 where u: "unknown_dirs_loop g known es
      \<lparr>unknown_owner_dirs_removed = 0, orphan_files_removed = 0, phantom_rows_removed = 0\<rparr> t = (st1, t1)" by fastforce
  obtain st2 db' t' where o: "owners_loop x g (owners_list db) st1 db t1 = (st2, db', t')"
    by (metis prod_cases3)
  have run: "gc_sweep x g db t = (Inr st2, db', t')"
    using assms(5) u o by (simp add: gc_sweep_def known_def es_def Let_def)
  note us = unknown_dirs_spec [OF u assms(4,6)]
  have dist: "distinct (map po_pubkey (owners_list db))"
    using assms(1) by (auto simp: owners_list_def db_inv_def tbl_keys_def distinct_map)
  note os = owners_loop_spec [OF o conjunct1 [OF us] assms(2,3) dist]
  have same: "lookup_path (media_path r) t1 = lookup_path (media_path r) t" if "r \<in> set (d_media db)" for r
    using sweep_rows_live [OF assms(1,2,4,6) u [unfolded known_def] that] .
  then have live1: "live t1 r = live t r" if "r \<in> set (d_media db)" for r using that by (simp add: live_def)
  have owned: "sm_pubkey r \<in> po_pubkey ` set (owners_list db)" if "r \<in> set (d_media db)" for r
    using media_row_owned [OF assms(1) that] .
  have db': "db' = db\<lparr>d_media := filter (live t) (d_media db)\<rparr>"
  proof -
    have "filter (\<lambda>r. sm_pubkey r \<notin> po_pubkey ` set (owners_list db) \<or> live t1 r) (d_media db) = filter (live t) (d_media db)"
      using live1 owned by (intro filter_cong) auto
    then show ?thesis using conjunct1 [OF os] by simp
  qed
  have l': "\<forall>r \<in> set (d_media db). lookup_path (media_path r) t' \<noteq> None \<longleftrightarrow> live t r"
    using os live1 unfolding live_def by metis
  have f': "\<forall>r \<in> set (d_media db). has_file (media_path r) t' \<longleftrightarrow> has_file (media_path r) t"
    using os same unfolding has_file_def by metis
  have orphan: "\<exists>r \<in> set (d_media db'). q = media_path r"
    if nf: "\<forall>p. g_readable g p" "\<forall>p. g_unlink_ok g p" "\<forall>nm. g_rmdir g nm = None" and q: "2 \<le> length q" "has_file q t'" for q
  proof -
    obtain nm q' where c: "q = nm # q'" "q' \<noteq> []" using q(1) by (cases q; cases "tl q") auto
    have t1: "has_file q t1" using os q(2) by metis
    have known: "nm \<in> set known"
    proof (rule ccontr)
      assume nk: "nm \<notin> set known"
      have up: "lookup_path q t1 = (if \<exists>n. (nm, n) \<in> set es \<and> is_dir n then None else lookup_path q t)"
        using us nf(3) nk unfolding c(1) by simp
      have "lookup_path q t \<noteq> None" "\<not> (\<exists>n. (nm, n) \<in> set es \<and> is_dir n)"
        using has_file_lookup [OF t1] unfolding up by (auto split: if_splits)
      moreover have "\<exists>n. (nm, n) \<in> set es \<and> is_dir n" if e: "lookup_path q t \<noteq> None"
      proof (cases t)
        case (NFile b)
        then show ?thesis using e c by simp
      next
        case (NDir ds)
        then obtain n where n: "map_of ds nm = Some n" "lookup_path q' n \<noteq> None"
          using e c(1) by (auto split: option.splits)
        have "is_dir n" using n(2) c(2) lookup_NFile by (cases n) auto
        then show ?thesis using n(1) NDir nf(1) by (auto simp: es_def read_dir_or_empty_def dest: map_of_SomeD)
      qed
      ultimately show False by blast
    qed
    then obtain k where k: "k \<in> po_pubkey ` set (owners_list db)" "nm = x_hex_encode x k" unfolding known_def by auto
    have "\<exists>r \<in> set (d_media db). sm_pubkey r = k \<and> x_hex_encode x k # q' = media_path r"
      using os nf(1,2) k(1) c(2) q(2) unfolding c(1) k(2) by blast
    then obtain r where r: "r \<in> set (d_media db)" "q = media_path r" using c(1) k(2) by auto
    have "live t r" using l' r has_file_lookup [OF q(2)] by blast
    then show ?thesis using r by (auto simp: db')
  qed
  show ?thesis
    by (rule exI [of _ st2], rule exI [of _ db'], rule exI [of _ t'])
      (intro conjI run db' l' f' impI allI, elim conjE, rule orphan)
qed

definition ex_gc_env :: gc_env where
  "ex_gc_env = \<lparr>g_pool_ok = True, g_readable = (\<lambda>_. True), g_rmdir = (\<lambda>_. None), g_unlink_ok = (\<lambda>_. True)\<rparr>"

definition ex_tree :: node where
  "ex_tree = NDir [(''ghost'', NDir [(''f'', NFile [1])]),
     (x_hex_encode plain_ext ex_key, NDir [(''stray.tmp'', NFile [2])])]"

lemma gc_sweep_correct_witness:
  "\<exists>stats db' t'. gc_sweep ex_media_ext ex_gc_env ((w_db ex_world)\<lparr>d_media := [ex_media_row]\<rparr>) ex_tree = (Inr stats, db', t') \<and>
     d_media db' = [] \<and> (\<forall>q. 2 \<le> length q \<longrightarrow> \<not> has_file q t')"
proof -
  define db where "db = (w_db ex_world)\<lparr>d_media := [ex_media_row]\<rparr>"
  have x: "x_hex_encode ex_media_ext = map byte_char" "x_hex_encode plain_ext = map byte_char"
    by (simp_all add: ex_media_ext_def plain_ext_def)
  have "byte_char 1 = CHR 0x01" by code_simp
  then have k: "map byte_char ex_key = replicate 32 (CHR 0x01)" by (simp add: ex_key_def)
  have dn: "dir_name (map byte_char ex_key)"
    unfolding k by (simp add: dir_name_def) (simp add: numeral_eq_Suc)
  have inv: "db_inv db"
    by (simp add: db_def ex_media_row_def db_inv_def ex_world_def empty_db_def tbl_keys_def fk_ok_def tbl_find_def)
  have placed: "rows_placed ex_media_ext db"
    using dn by (simp add: rows_placed_def db_def ex_media_row_def ex_hash_valid x owner_shard_path_def)
  have nm: "map byte_char ex_key \<noteq> ''ghost''" unfolding k by (simp add: numeral_eq_Suc)
  have ok: "node_ok ex_tree" using nm by (auto simp: ex_tree_def x)
  have path: "media_path ex_media_row = row_path ex_media_ext ex_key ex_hash"
    using rows_placed_path [OF placed, of ex_media_row] by (simp add: db_def ex_media_row_def)
  have dead: "\<not> live ex_tree ex_media_row"
    using nm by (auto simp: live_def path row_path_def ex_tree_def x ex_hash_def numeral_eq_Suc)
  have g: "g_pool_ok ex_gc_env" "\<forall>nm n. g_rmdir ex_gc_env nm = Some n \<longrightarrow> node_ok n"
    "\<forall>p. g_readable ex_gc_env p" "\<forall>p. g_unlink_ok ex_gc_env p" "\<forall>nm. g_rmdir ex_gc_env nm = None"
    by (simp_all add: ex_gc_env_def)
  have "filter (live ex_tree) (d_media db) = []" using dead by (simp add: db_def)
  with gc_sweep_correct [OF inv placed ex_media_ext_hex ok g(1,2)] g(3-5)
  show ?thesis unfolding db_def [symmetric] by (auto simp del: One_nat_def)
qed

end
