(* ===== verification/Voice.thy ===== *)
theory Voice
  imports Http
begin

text \<open>
  The voice forwarder (\<open>starling-relay-voice/src\<close>): slot registry, calls, signalling
  sessions and the event loop that owns them. The WebRTC engine (\<open>str0m::Rtc\<close>) is a
  parameter: a type \<open>'r\<close> of engines, a type \<open>'p\<close> of pending offers and the operations the
  loop calls on them.

  Hash maps are association lists, whose order is the iteration order. A handler reads the
  clock once. A failed \<open>expect\<close> or index is the value \<open>V_panic\<close>. The address of the
  relay's own socket, the destination of every datagram, is part of the engine's operations.
\<close>

section \<open>\<open>ice.rs\<close>\<close>

text \<open>Addresses as their octets and segments.\<close>

datatype ip_addr = V4 byte byte byte byte | V6 "u16 list"

record socket_addr =
  sa_ip :: ip_addr
  sa_port :: u16
  sa_scope :: u32

definition sock_new :: "ip_addr \<Rightarrow> u16 \<Rightarrow> socket_addr" where
  "sock_new ip port = \<lparr>sa_ip = ip, sa_port = port, sa_scope = 0\<rparr>"

datatype advertised_addr = Full socket_addr | IpOnly ip_addr

fun is_unspecified :: "ip_addr \<Rightarrow> bool" where
  "is_unspecified (V4 a b c d) \<longleftrightarrow> a = 0 \<and> b = 0 \<and> c = 0 \<and> d = 0"
| "is_unspecified (V6 ss) \<longleftrightarrow> ss = replicate 8 0"

fun is_loopback :: "ip_addr \<Rightarrow> bool" where
  "is_loopback (V4 a b c d) \<longleftrightarrow> a = 127"
| "is_loopback (V6 ss) \<longleftrightarrow> ss = replicate 7 0 @ [1]"

fun usable :: "ip_addr \<Rightarrow> bool" where
  "usable (V4 a b c d) \<longleftrightarrow>
     \<not> is_loopback (V4 a b c d) \<and> \<not> is_unspecified (V4 a b c d) \<and> \<not> (a = 169 \<and> b = 254) \<and>
     \<not> (a = 255 \<and> b = 255 \<and> c = 255 \<and> d = 255)"
| "usable (V6 ss) \<longleftrightarrow>
     (let link_local = (and (hd ss) 0xffc0 = 0xfe80)
      in \<not> is_loopback (V6 ss) \<and> \<not> is_unspecified (V6 ss) \<and> \<not> link_local)"

definition push_addr :: "socket_addr \<Rightarrow> socket_addr list \<Rightarrow> socket_addr list" where
  "push_addr addr out = (if addr \<in> set out then out else out @ [addr])"

text \<open>\<open>ifaces\<close> is what the interface listing returns (empty when it fails).\<close>

definition candidate_addrs :: "ip_addr list \<Rightarrow> socket_addr \<Rightarrow> advertised_addr list \<Rightarrow> socket_addr list" where
  "candidate_addrs ifaces bound advertised =
     (let port = sa_port bound;
          out = (if is_unspecified (sa_ip bound)
                 then fold (\<lambda>ip out. if usable ip then push_addr (sock_new ip port) out else out) ifaces []
                 else push_addr bound [])
      in fold (\<lambda>a out. push_addr (case a of Full sa \<Rightarrow> sa | IpOnly ip \<Rightarrow> (sock_new ip port)) out)
           advertised out)"

section \<open>\<open>registry.rs\<close>, \<open>call.rs\<close>, \<open>session.rs\<close>\<close>

type_synonym call_key = "bytes \<times> bytes"

type_synonym registry = "(call_key \<times> u16 option) list"

fun registry_insert_all :: "bytes \<Rightarrow> voice_slot_entry list \<Rightarrow> registry \<Rightarrow> registry" where
  "registry_insert_all owner [] reg = reg"
| "registry_insert_all owner (e # es) reg =
     registry_insert_all owner es
       (if length (ve_token_hash e) = 32
        then AList.update (owner, ve_token_hash e) (ve_max_participants e) reg else reg)"

definition registry_drop_owner :: "bytes \<Rightarrow> registry \<Rightarrow> registry" where
  "registry_drop_owner owner reg = filter (\<lambda>((ow, _), _). ow \<noteq> owner) reg"

definition registry_replace_set :: "bytes \<Rightarrow> voice_slot_entry list \<Rightarrow> registry \<Rightarrow> registry" where
  "registry_replace_set owner es reg = registry_insert_all owner es (filter (\<lambda>((ow, _), _). ow \<noteq> owner) reg)"

definition registry_lookup :: "bytes \<Rightarrow> bytes \<Rightarrow> registry \<Rightarrow> u16 option option" where
  "registry_lookup owner token_hash reg = map_of reg (owner, token_hash)"

record call =
  ca_cap :: u32
  ca_participants :: "nat list"
  ca_empty_since :: "int option"

definition call_new :: "u32 \<Rightarrow> int \<Rightarrow> call" where
  "call_new cap now = \<lparr>ca_cap = cap, ca_participants = [], ca_empty_since = Some now\<rparr>"

definition is_live :: "call \<Rightarrow> bool" where
  "is_live c \<longleftrightarrow> ca_participants c \<noteq> []"

datatype session_state = AwaitingJoin | AwaitingOffer | Steady

record tx_slot =
  tx_mid :: str
  tx_ssrc :: u32
  tx_declared :: bool

text \<open>
  The channel to the client holds 64 frames: \<open>ss_room\<close> counts the free places and \<open>ss_gone\<close>
  tells that the receiver was dropped.
\<close>

record ('r, 'p) session =
  ss_owner :: bytes
  ss_sfu_id :: str
  ss_call_key :: "call_key option"
  ss_state :: session_state
  ss_rtc :: "'r option"
  ss_room :: nat
  ss_gone :: bool
  ss_next_timeout :: "int option"
  ss_tx_slots :: "(nat \<times> tx_slot) list"
  ss_queued :: "(nat \<times> str) list"
  ss_pending :: "'p option"
  ss_next_ssrc :: u32
  ss_opus_pt :: "nat option"

definition session_new :: "bytes \<Rightarrow> ('r, 'p) session" where
  "session_new owner =
     \<lparr>ss_owner = owner, ss_sfu_id = [], ss_call_key = None, ss_state = AwaitingJoin, ss_rtc = None,
      ss_room = 64, ss_gone = False, ss_next_timeout = None, ss_tx_slots = [], ss_queued = [],
      ss_pending = None, ss_next_ssrc = 0x53540000, ss_opus_pt = None\<rparr>"

definition alloc_ssrc :: "('r, 'p) session \<Rightarrow> u32 \<times> ('r, 'p) session" where
  "alloc_ssrc s = (let n = ss_next_ssrc s + 1 in (n, s\<lparr>ss_next_ssrc := n\<rparr>))"

section \<open>The engine's interface\<close>

record rtp_packet =
  rp_seq :: nat
  rp_timestamp :: nat
  rp_payload :: bytes
  rp_marker :: bool
  rp_ext :: bytes

record rtp_write =
  rw_pt :: nat
  rw_seq :: nat
  rw_timestamp :: nat
  rw_at :: int
  rw_payload :: bytes
  rw_marker :: bool
  rw_ext :: bytes

datatype rtc_input = In_timeout int | In_receive socket_addr bytes

datatype rtc_output = Out_timeout int | Out_transmit bytes | Out_rtp rtp_packet | Out_disconnected | Out_event | Out_error

record ('r, 'p) rtc_ops =
  rt_build :: "int \<Rightarrow> 'r"
  rt_add_local :: "str \<Rightarrow> 'r \<Rightarrow> 'r"
  rt_datagram :: "bytes \<Rightarrow> bool"
  rt_accepts :: "rtc_input \<Rightarrow> 'r \<Rightarrow> bool"
  rt_handle_input :: "rtc_input \<Rightarrow> 'r \<Rightarrow> bool \<times> 'r"
  rt_poll_output :: "'r \<Rightarrow> rtc_output \<times> 'r"
  rt_is_alive :: "'r \<Rightarrow> bool"
  rt_parse_offer :: "str \<Rightarrow> bool"
  rt_accept_offer :: "str \<Rightarrow> 'r \<Rightarrow> str option \<times> 'r"
  rt_opus_pt :: "'r \<Rightarrow> nat option"
  rt_parse_answer :: "str \<Rightarrow> bool"
  rt_accept_answer :: "'p \<Rightarrow> str \<Rightarrow> 'r \<Rightarrow> bool \<times> 'r"
  rt_add_media :: "'r \<Rightarrow> str \<times> 'r"
  rt_apply :: "'r \<Rightarrow> (str \<times> 'p) option \<times> 'r"
  rt_parse_candidate :: "str \<Rightarrow> bool"
  rt_add_remote :: "str \<Rightarrow> 'r \<Rightarrow> 'r"
  rt_stream_by_mid :: "str \<Rightarrow> 'r \<Rightarrow> u32 option"
  rt_declare_tx :: "u32 \<Rightarrow> str \<Rightarrow> 'r \<Rightarrow> 'r"
  rt_has_stream :: "u32 \<Rightarrow> 'r \<Rightarrow> bool"
  rt_write_rtp :: "u32 \<Rightarrow> rtp_write \<Rightarrow> 'r \<Rightarrow> 'r"

section \<open>\<open>server.rs\<close>\<close>

record voice_cfg =
  vg_max_participants :: u16
  vg_max_concurrent_calls :: nat
  vg_idle_reap :: int

text \<open>\<open>sv_sent\<close> records the frames the clients' channels took, in order.\<close>

record ('r, 'p) server =
  sv_cfg :: voice_cfg
  sv_candidates :: "str list"
  sv_registry :: registry
  sv_sessions :: "(nat \<times> ('r, 'p) session) list"
  sv_calls :: "(call_key \<times> call) list"
  sv_dirty :: "nat list"
  sv_next_sid :: nat
  sv_id_seed :: u64
  sv_id_counter :: u64
  sv_sent :: "(nat \<times> server_frame) list"

definition server_new :: "voice_cfg \<Rightarrow> str list \<Rightarrow> u64 \<Rightarrow> ('r, 'p) server" where
  "server_new cfg candidates id_seed =
     \<lparr>sv_cfg = cfg, sv_candidates = candidates, sv_registry = [], sv_sessions = [], sv_calls = [],
      sv_dirty = [], sv_next_sid = 1, sv_id_seed = id_seed, sv_id_counter = 0, sv_sent = []\<rparr>"

datatype vfail = V_panic str | V_fuel

type_synonym ('r, 'p) vres = "vfail + ('r, 'p) server"

definition vbind :: "('r, 'p) vres \<Rightarrow> (('r, 'p) server \<Rightarrow> ('r, 'p) vres) \<Rightarrow> ('r, 'p) vres" where
  "vbind r f = (case r of Inl e \<Rightarrow> Inl e | Inr sv \<Rightarrow> f sv)"

definition put_session :: "nat \<Rightarrow> ('r, 'p) session \<Rightarrow> ('r, 'p) server \<Rightarrow> ('r, 'p) server" where
  "put_session sid s sv = sv\<lparr>sv_sessions := AList.update sid s (sv_sessions sv)\<rparr>"

definition put_call :: "call_key \<Rightarrow> call \<Rightarrow> ('r, 'p) server \<Rightarrow> ('r, 'p) server" where
  "put_call key c sv = sv\<lparr>sv_calls := AList.update key c (sv_calls sv)\<rparr>"

definition push_dirty :: "nat \<Rightarrow> ('r, 'p) server \<Rightarrow> ('r, 'p) server" where
  "push_dirty sid sv = sv\<lparr>sv_dirty := sv_dirty sv @ [sid]\<rparr>"

text \<open>\<open>to_client.try_send\<close>: fails when the channel is full or closed.\<close>

definition try_send :: "nat \<Rightarrow> server_frame \<Rightarrow> ('r, 'p) server \<Rightarrow> bool \<times> ('r, 'p) server" where
  "try_send sid f sv =
     (case map_of (sv_sessions sv) sid of
        None \<Rightarrow> (False, sv)
      | Some s \<Rightarrow>
          if ss_gone s \<or> ss_room s = 0 then (False, sv)
          else (True, (put_session sid (s\<lparr>ss_room := ss_room s - 1\<rparr>) sv)\<lparr>sv_sent := sv_sent sv @ [(sid, f)]\<rparr>))"

definition notify_left :: "nat \<Rightarrow> str \<Rightarrow> nat \<Rightarrow> ('r, 'p) server \<Rightarrow> ('r, 'p) server" where
  "notify_left sid sfu_id p sv =
     (case map_of (sv_sessions sv) p of
        None \<Rightarrow> sv
      | Some ps \<Rightarrow>
          snd (try_send p (SF_PeerLeft sfu_id)
            (put_session p (ps\<lparr>ss_tx_slots := AList.delete sid (ss_tx_slots ps),
                               ss_queued := filter (\<lambda>(q, _). q \<noteq> sid) (ss_queued ps)\<rparr>) sv)))"

definition close_session :: "int \<Rightarrow> nat \<Rightarrow> server_frame option \<Rightarrow> ('r, 'p) server \<Rightarrow> ('r, 'p) server" where
  "close_session now sid final_frame sv =
     (case map_of (sv_sessions sv) sid of
        None \<Rightarrow> sv
      | Some s \<Rightarrow>
          let sv1 = (case final_frame of None \<Rightarrow> sv | Some f \<Rightarrow> snd (try_send sid f sv));
              sv2 = sv1\<lparr>sv_sessions := AList.delete sid (sv_sessions sv1)\<rparr>
          in case ss_call_key s of
               None \<Rightarrow> sv2
             | Some key \<Rightarrow>
                 (case map_of (sv_calls sv2) key of
                    None \<Rightarrow> sv2
                  | Some c \<Rightarrow>
                      let remaining = filter (\<lambda>p. p \<noteq> sid) (ca_participants c);
                          c1 = c\<lparr>ca_participants := remaining\<rparr>;
                          c2 = (if remaining = [] then c1\<lparr>ca_empty_since := Some now\<rparr> else c1)
                      in fold (notify_left sid (ss_sfu_id s)) remaining (put_call key c2 sv2)))"

definition fail :: "int \<Rightarrow> nat \<Rightarrow> str \<Rightarrow> str \<Rightarrow> ('r, 'p) server \<Rightarrow> ('r, 'p) server" where
  "fail now sid code message sv = close_session now sid (Some (SF_Error code message)) sv"

definition send :: "int \<Rightarrow> nat \<Rightarrow> server_frame \<Rightarrow> ('r, 'p) server \<Rightarrow> ('r, 'p) server" where
  "send now sid f sv =
     (case map_of (sv_sessions sv) sid of
        None \<Rightarrow> sv
      | Some s \<Rightarrow> (case try_send sid f sv of (ok, sv') \<Rightarrow> if ok then sv' else close_session now sid None sv'))"

definition mint_sfu_id :: "ext \<Rightarrow> ('r, 'p) server \<Rightarrow> str \<times> ('r, 'p) server" where
  "mint_sfu_id x sv =
     (let n = sv_id_counter sv + 1;
          input = be_bytes64 (uint (sv_id_seed sv)) @ be_bytes64 (uint n);
          hash = blake2b256 x input
      in (x_hex_encode x (take 8 hash), sv\<lparr>sv_id_counter := n\<rparr>))"

text \<open>
  \<open>maybe_negotiate\<close>: one audio m-line per fresh source of the queue, one offer in flight.
\<close>

fun add_medias :: "('r, 'p) rtc_ops \<Rightarrow> (nat \<times> str) list \<Rightarrow> 'r \<Rightarrow> (nat \<times> str \<times> str) list \<times> 'r" where
  "add_medias ops [] r = ([], r)"
| "add_medias ops ((src, sfu) # qs) r =
     (let (mid, r1) = rt_add_media ops r; (added, r2) = add_medias ops qs r1
      in ((src, sfu, mid) # added, r2))"

fun add_slots :: "(nat \<times> str \<times> str) list \<Rightarrow> ('r, 'p) session \<Rightarrow> ('r, 'p) session" where
  "add_slots [] s = s"
| "add_slots ((src, _, mid) # added) s =
     (let (ssrc, s1) = alloc_ssrc s
      in add_slots added (s1\<lparr>ss_tx_slots :=
           AList.update src \<lparr>tx_mid = mid, tx_ssrc = ssrc, tx_declared = False\<rparr> (ss_tx_slots s1)\<rparr>))"

definition maybe_negotiate :: "('r, 'p) rtc_ops \<Rightarrow> int \<Rightarrow> nat \<Rightarrow> ('r, 'p) server \<Rightarrow> ('r, 'p) vres" where
  "maybe_negotiate ops now sid sv =
     (case map_of (sv_sessions sv) sid of
        None \<Rightarrow> Inr sv
      | Some s \<Rightarrow>
          if ss_state s \<noteq> Steady \<or> ss_pending s \<noteq> None \<or> ss_queued s = [] then Inr sv
          else
            let call_participants =
                  (case Option.bind (ss_call_key s) (map_of (sv_calls sv)) of
                     None \<Rightarrow> [] | Some c \<Rightarrow> ca_participants c);
                queued = filter (\<lambda>(src, _). src \<in> set call_participants \<and> map_of (ss_tx_slots s) src = None) (ss_queued s);
                s1 = s\<lparr>ss_queued := []\<rparr>
            in if queued = [] then Inr (put_session sid s1 sv)
               else case ss_rtc s1 of
                      None \<Rightarrow> Inl (V_panic ''Steady implies rtc'')
                    | Some r \<Rightarrow>
                        let (added, r1) = add_medias ops queued r; (applied, r2) = rt_apply ops r1;
                            s2 = s1\<lparr>ss_rtc := Some r2\<rparr>
                        in case applied of
                             None \<Rightarrow> Inr (put_session sid s2 sv)
                           | Some (offer, pending) \<Rightarrow>
                               let s3 = add_slots added (s2\<lparr>ss_pending := Some pending\<rparr>);
                                   sv1 = push_dirty sid (put_session sid s3 sv);
                                   sv2 = send now sid (SF_Offer offer) sv1
                               in Inr (fold (\<lambda>(_, sfu, mid). send now sid (SF_PeerJoined sfu mid)) added sv2))"

text \<open>The roster of a call but for \<open>sid\<close>, with the sfu ids of the sessions that are there.\<close>

definition other_sources :: "nat \<Rightarrow> nat list \<Rightarrow> ('r, 'p) server \<Rightarrow> (nat \<times> str) list" where
  "other_sources sid ps sv =
     List.map_filter (\<lambda>p. map_option (\<lambda>s. (p, ss_sfu_id s)) (map_of (sv_sessions sv) p))
       (filter (\<lambda>p. p \<noteq> sid) ps)"

fun announce :: "('r, 'p) rtc_ops \<Rightarrow> int \<Rightarrow> nat \<Rightarrow> str \<Rightarrow> (nat \<times> str) list \<Rightarrow> ('r, 'p) server \<Rightarrow> ('r, 'p) vres" where
  "announce ops now sid new_sfu_id [] sv = Inr sv"
| "announce ops now sid new_sfu_id ((esid, _) # es) sv =
     (let sv1 = (case map_of (sv_sessions sv) esid of
                   None \<Rightarrow> sv
                 | Some s \<Rightarrow> put_session esid (s\<lparr>ss_queued := ss_queued s @ [(sid, new_sfu_id)]\<rparr>) sv)
      in vbind (maybe_negotiate ops now esid sv1) (announce ops now sid new_sfu_id es))"

definition join_cap :: "u16 option \<Rightarrow> u16 \<Rightarrow> u32" where
  "join_cap slot_max relay_max =
     ucast (max (min (case slot_max of None \<Rightarrow> relay_max | Some m \<Rightarrow> m) relay_max) 2)"

text \<open>The rest of \<open>handle_join\<close>, for a call with a free place.\<close>

definition admit ::
  "ext \<Rightarrow> ('r, 'p) rtc_ops \<Rightarrow> int \<Rightarrow> nat \<Rightarrow> ('r, 'p) session \<Rightarrow> call_key \<Rightarrow> call \<Rightarrow> ('r, 'p) server \<Rightarrow> ('r, 'p) vres" where
  "admit x ops now sid s key c sv =
     (let (sfu_id, sv2) = mint_sfu_id x sv;
          c1 = c\<lparr>ca_participants := ca_participants c @ [sid], ca_empty_since := None\<rparr>;
          sv3 = put_call key c1 sv2;
          existing = other_sources sid (ca_participants c1) sv3;
          r = fold (rt_add_local ops) (sv_candidates sv) (rt_build ops now);
          s1 = s\<lparr>ss_rtc := Some r, ss_state := AwaitingOffer, ss_sfu_id := sfu_id, ss_call_key := Some key\<rparr>;
          sv4 = push_dirty sid (put_session sid s1 sv3);
          sv5 = send now sid (SF_JoinAck sfu_id (sv_candidates sv) (ca_cap c1) (map snd existing)) sv4
      in case map_of (sv_sessions sv5) sid of
           None \<Rightarrow> Inl (V_panic ''sessions[&sid]'')
         | Some s2 \<Rightarrow> announce ops now sid (ss_sfu_id s2) existing sv5)"

definition handle_join ::
  "ext \<Rightarrow> ('r, 'p) rtc_ops \<Rightarrow> int \<Rightarrow> nat \<Rightarrow> bytes \<Rightarrow> ('r, 'p) server \<Rightarrow> ('r, 'p) vres" where
  "handle_join x ops now sid token sv =
     (case map_of (sv_sessions sv) sid of
        None \<Rightarrow> Inl (V_panic ''checked by handle_frame'')
      | Some s \<Rightarrow>
     if ss_state s \<noteq> AwaitingJoin then Inr (fail now sid ERR_PROTOCOL ''join out of order'' sv)
     else if length token \<noteq> 32 then Inr (fail now sid ERR_BAD_TOKEN ''token must be 32 bytes'' sv)
     else
       let owner = ss_owner s; token_hash = blake2b256 x token
       in case registry_lookup owner token_hash (sv_registry sv) of
            None \<Rightarrow> Inr (fail now sid ERR_BAD_TOKEN ''unknown room token'' sv)
          | Some slot \<Rightarrow>
              let key = (owner, token_hash); relay_max = vg_max_participants (sv_cfg sv);
                  live = length (filter (\<lambda>(_, c). is_live c) (sv_calls sv));
                  is_new = (map_of (sv_calls sv) key = None)
              in if is_new \<and> vg_max_concurrent_calls (sv_cfg sv) \<le> live
                 then Inr (fail now sid ERR_BUSY ''relay is at max concurrent calls'' sv)
                 else
                   let sv1 = (if is_new then put_call key (call_new (join_cap slot relay_max) now) sv else sv)
                   in case map_of (sv_calls sv1) key of
                        None \<Rightarrow> Inl (V_panic ''inserted above'')
                      | Some c \<Rightarrow>
                          if unat (ca_cap c) \<le> length (ca_participants c)
                          then Inr (close_session now sid None (snd (try_send sid SF_Full sv1)))
                          else
                            admit x ops now sid s key c sv1)"

definition handle_offer :: "('r, 'p) rtc_ops \<Rightarrow> int \<Rightarrow> nat \<Rightarrow> str \<Rightarrow> ('r, 'p) server \<Rightarrow> ('r, 'p) vres" where
  "handle_offer ops now sid sdp sv =
     (case map_of (sv_sessions sv) sid of
        None \<Rightarrow> Inl (V_panic ''checked by handle_frame'')
      | Some s \<Rightarrow>
     if ss_state s \<noteq> AwaitingOffer
     then Inr (fail now sid ERR_PROTOCOL ''unexpected offer (client offers exactly once)'' sv)
     else if \<not> rt_parse_offer ops sdp then Inr (fail now sid ERR_PROTOCOL ''unparseable SDP offer'' sv)
     else case ss_rtc s of
            None \<Rightarrow> Inl (V_panic ''AwaitingOffer implies rtc'')
          | Some r \<Rightarrow>
     (case rt_accept_offer ops sdp r of
        (None, r1) \<Rightarrow>
          Inr (fail now sid ERR_PROTOCOL ''offer rejected'' (put_session sid (s\<lparr>ss_rtc := Some r1\<rparr>) sv))
      | (Some answer, r1) \<Rightarrow>
          let s1 = s\<lparr>ss_rtc := Some r1, ss_opus_pt := rt_opus_pt ops r1, ss_state := Steady\<rparr>
          in case ss_call_key s1 of
               None \<Rightarrow> Inl (V_panic ''joined session has call key'')
             | Some call_key \<Rightarrow>
                 let sv1 = push_dirty sid (put_session sid s1 sv);
                     sv2 = send now sid (SF_Answer answer) sv1;
                     others = (case map_of (sv_calls sv2) call_key of
                                 None \<Rightarrow> [] | Some c \<Rightarrow> other_sources sid (ca_participants c) sv2);
                     sv3 = (case map_of (sv_sessions sv2) sid of
                              None \<Rightarrow> sv2 | Some s2 \<Rightarrow> put_session sid (s2\<lparr>ss_queued := others\<rparr>) sv2)
                 in maybe_negotiate ops now sid sv3))"

fun declare_slots :: "('r, 'p) rtc_ops \<Rightarrow> (nat \<times> tx_slot) list \<Rightarrow> 'r \<Rightarrow> (nat \<times> tx_slot) list \<times> 'r" where
  "declare_slots ops [] r = ([], r)"
| "declare_slots ops ((src, slot) # slots) r =
     (let (slot', r1) =
            (if tx_declared slot then (slot, r)
             else case rt_stream_by_mid ops (tx_mid slot) r of
                    Some ssrc \<Rightarrow> (slot\<lparr>tx_ssrc := ssrc, tx_declared := True\<rparr>, r)
                  | None \<Rightarrow> (slot\<lparr>tx_declared := True\<rparr>, rt_declare_tx ops (tx_ssrc slot) (tx_mid slot) r));
          (slots', r2) = declare_slots ops slots r1
      in ((src, slot') # slots', r2))"

definition handle_answer :: "('r, 'p) rtc_ops \<Rightarrow> int \<Rightarrow> nat \<Rightarrow> str \<Rightarrow> ('r, 'p) server \<Rightarrow> ('r, 'p) vres" where
  "handle_answer ops now sid sdp sv =
     (case map_of (sv_sessions sv) sid of
        None \<Rightarrow> Inl (V_panic ''checked by handle_frame'')
      | Some s \<Rightarrow>
     if ss_state s \<noteq> Steady then Inr (fail now sid ERR_PROTOCOL ''answer without pending offer'' sv)
     else case ss_pending s of
            None \<Rightarrow> Inr (fail now sid ERR_PROTOCOL ''answer without pending offer'' sv)
          | Some pending \<Rightarrow>
     if \<not> rt_parse_answer ops sdp then Inr (fail now sid ERR_PROTOCOL ''unparseable SDP answer'' sv)
     else
       let s1 = s\<lparr>ss_pending := None\<rparr>
       in case ss_rtc s1 of
            None \<Rightarrow> Inl (V_panic ''Steady implies rtc'')
          | Some r \<Rightarrow>
     (case rt_accept_answer ops pending sdp r of
        (ok, r1) \<Rightarrow>
          if \<not> ok
          then Inr (fail now sid ERR_INTERNAL ''answer rejected'' (put_session sid (s1\<lparr>ss_rtc := Some r1\<rparr>) sv))
          else
            let (slots, r2) = declare_slots ops (ss_tx_slots s1) r1;
                s2 = s1\<lparr>ss_rtc := Some r2, ss_tx_slots := slots\<rparr>
            in maybe_negotiate ops now sid (push_dirty sid (put_session sid s2 sv))))"

definition handle_ice :: "('r, 'p) rtc_ops \<Rightarrow> int \<Rightarrow> nat \<Rightarrow> str \<Rightarrow> ('r, 'p) server \<Rightarrow> ('r, 'p) vres" where
  "handle_ice ops now sid candidate sv =
     (case map_of (sv_sessions sv) sid of
        None \<Rightarrow> Inl (V_panic ''checked by handle_frame'')
      | Some s \<Rightarrow>
     (case ss_rtc s of
        None \<Rightarrow> Inr (fail now sid ERR_PROTOCOL ''ice before join'' sv)
      | Some r \<Rightarrow>
          if rt_parse_candidate ops candidate
          then Inr (push_dirty sid (put_session sid (s\<lparr>ss_rtc := Some (rt_add_remote ops candidate r)\<rparr>) sv))
          else Inr sv))"

section \<open>\<open>server.rs\<close>: media\<close>

text \<open>One target of a forwarded packet.\<close>

definition forward_to :: "('r, 'p) rtc_ops \<Rightarrow> int \<Rightarrow> nat \<Rightarrow> rtp_packet \<Rightarrow> nat \<Rightarrow> ('r, 'p) server \<Rightarrow> ('r, 'p) server" where
  "forward_to ops now source_sid packet tsid sv =
     (case map_of (sv_sessions sv) tsid of
        None \<Rightarrow> sv
      | Some target \<Rightarrow>
     (case map_of (ss_tx_slots target) source_sid of
        None \<Rightarrow> sv
      | Some slot \<Rightarrow>
     if \<not> tx_declared slot then sv
     else case ss_opus_pt target of
            None \<Rightarrow> sv
          | Some pt \<Rightarrow>
     (case ss_rtc target of
        None \<Rightarrow> sv
      | Some r \<Rightarrow>
          if \<not> rt_has_stream ops (tx_ssrc slot) r then sv
          else
            let w = \<lparr>rw_pt = pt, rw_seq = rp_seq packet, rw_timestamp = rp_timestamp packet, rw_at = now,
                     rw_payload = rp_payload packet, rw_marker = rp_marker packet, rw_ext = rp_ext packet\<rparr>
            in push_dirty tsid (put_session tsid
                 (target\<lparr>ss_rtc := Some (rt_write_rtp ops (tx_ssrc slot) w r)\<rparr>) sv))))"

definition forward_rtp :: "('r, 'p) rtc_ops \<Rightarrow> int \<Rightarrow> nat \<Rightarrow> rtp_packet \<Rightarrow> ('r, 'p) server \<Rightarrow> ('r, 'p) server" where
  "forward_rtp ops now source_sid packet sv =
     (case map_of (sv_sessions sv) source_sid of
        None \<Rightarrow> sv
      | Some source \<Rightarrow>
     (case ss_call_key source of
        None \<Rightarrow> sv
      | Some key \<Rightarrow>
     (case map_of (sv_calls sv) key of
        None \<Rightarrow> sv
      | Some c \<Rightarrow>
          let targets = filter (\<lambda>t. t \<noteq> source_sid) (ca_participants c)
          in fold (forward_to ops now source_sid packet) targets sv)))"

text \<open>
  The \<open>poll_output\<close> loop of one engine, with fuel: the packets it received, whether the
  session must be closed, and the next timeout if one was given.
\<close>

fun poll_loop ::
  "('r, 'p) rtc_ops \<Rightarrow> nat \<Rightarrow> rtp_packet list \<Rightarrow> bool \<Rightarrow> 'r \<Rightarrow> (rtp_packet list \<times> bool \<times> int option \<times> 'r) option" where
  "poll_loop ops 0 forwards close r = None"
| "poll_loop ops (Suc n) forwards close r =
     (case rt_poll_output ops r of
        (Out_timeout t, r1) \<Rightarrow> Some (forwards, close, Some t, r1)
      | (Out_transmit _, r1) \<Rightarrow> poll_loop ops n forwards close r1
      | (Out_rtp p, r1) \<Rightarrow> poll_loop ops n (forwards @ [p]) close r1
      | (Out_disconnected, r1) \<Rightarrow> poll_loop ops n forwards True r1
      | (Out_event, r1) \<Rightarrow> poll_loop ops n forwards close r1
      | (Out_error, r1) \<Rightarrow> Some (forwards, True, None, r1))"

definition drain_session :: "('r, 'p) rtc_ops \<Rightarrow> nat \<Rightarrow> int \<Rightarrow> nat \<Rightarrow> ('r, 'p) server \<Rightarrow> ('r, 'p) vres" where
  "drain_session ops fuel now sid sv =
     (case map_of (sv_sessions sv) sid of
        None \<Rightarrow> Inr sv
      | Some s \<Rightarrow>
     (case ss_rtc s of
        None \<Rightarrow> Inr sv
      | Some r \<Rightarrow>
          let (ok, r0) = rt_handle_input ops (In_timeout now) r
          in case poll_loop ops fuel [] (\<not> ok) r0 of
               None \<Rightarrow> Inl V_fuel
             | Some (forwards, close, timeout, r1) \<Rightarrow>
                 let s1 = s\<lparr>ss_rtc := Some r1,
                            ss_next_timeout := (case timeout of None \<Rightarrow> ss_next_timeout s | Some t \<Rightarrow> Some t)\<rparr>;
                     close1 = (close \<or> \<not> rt_is_alive ops r1);
                     sv1 = fold (forward_rtp ops now sid) forwards (put_session sid s1 sv)
                 in Inr (if close1 then close_session now sid None sv1 else sv1)))"

fun drain_ready :: "('r, 'p) rtc_ops \<Rightarrow> nat \<Rightarrow> nat \<Rightarrow> int \<Rightarrow> ('r, 'p) server \<Rightarrow> ('r, 'p) vres" where
  "drain_ready ops pf 0 now sv = (if sv_dirty sv = [] then Inr sv else Inl V_fuel)"
| "drain_ready ops pf (Suc n) now sv =
     (case sv_dirty sv of
        [] \<Rightarrow> Inr sv
      | sid # rest \<Rightarrow>
          vbind (drain_session ops pf now sid (sv\<lparr>sv_dirty := rest\<rparr>)) (drain_ready ops pf n now))"

section \<open>\<open>server.rs\<close>: commands, packets, time\<close>

text \<open>The fuel of the two media loops: polls of one engine, and drained sessions.\<close>

record fuel =
  fu_poll :: nat
  fu_drain :: nat

definition handle_frame ::
  "ext \<Rightarrow> ('r, 'p) rtc_ops \<Rightarrow> fuel \<Rightarrow> int \<Rightarrow> nat \<Rightarrow> client_frame \<Rightarrow> ('r, 'p) server \<Rightarrow> ('r, 'p) vres" where
  "handle_frame x ops fu now sid frame sv =
     (if map_of (sv_sessions sv) sid = None then Inr sv
      else
        vbind (case frame of
                 CF_Join token \<Rightarrow> handle_join x ops now sid token sv
               | CF_Offer sdp \<Rightarrow> handle_offer ops now sid sdp sv
               | CF_Answer sdp \<Rightarrow> handle_answer ops now sid sdp sv
               | CF_Ice candidate \<Rightarrow> handle_ice ops now sid candidate sv
               | CF_Bye \<Rightarrow> Inr (close_session now sid (Some SF_Bye) sv))
          (drain_ready ops (fu_poll fu) (fu_drain fu) now))"

definition drop_owner :: "int \<Rightarrow> bytes \<Rightarrow> ('r, 'p) server \<Rightarrow> ('r, 'p) server" where
  "drop_owner now owner sv =
     (let sv1 = sv\<lparr>sv_registry := registry_drop_owner owner (sv_registry sv)\<rparr>;
          sids = map fst (filter (\<lambda>(_, s). ss_owner s = owner) (sv_sessions sv1));
          sv2 = fold (\<lambda>sid. close_session now sid (Some SF_Bye)) sids sv1
      in sv2\<lparr>sv_calls := filter (\<lambda>((ow, _), _). ow \<noteq> owner) (sv_calls sv2)\<rparr>)"

text \<open>\<open>C_OpenSession\<close> carries whether the caller is still there for the reply.\<close>

datatype command =
    C_RegisterSlots bytes "voice_slot_entry list"
  | C_DropOwner bytes
  | C_OpenSession bytes bool
  | C_SessionFrame nat client_frame
  | C_SessionClosed nat
  | C_Overview

definition overview :: "('r, 'p) server \<Rightarrow> (bytes \<times> nat) list" where
  "overview sv =
     fold (\<lambda>((owner, _), c) out.
       if is_live c then AList.update owner (Suc (case map_of out owner of None \<Rightarrow> 0 | Some n \<Rightarrow> n)) out else out)
       (sv_calls sv) []"

definition handle_command ::
  "ext \<Rightarrow> ('r, 'p) rtc_ops \<Rightarrow> fuel \<Rightarrow> int \<Rightarrow> command \<Rightarrow> ('r, 'p) server \<Rightarrow> ('r, 'p) vres" where
  "handle_command x ops fu now cmd sv =
     (case cmd of
        C_RegisterSlots owner slots \<Rightarrow> Inr (sv\<lparr>sv_registry := registry_replace_set owner slots (sv_registry sv)\<rparr>)
      | C_DropOwner owner \<Rightarrow> Inr (drop_owner now owner sv)
      | C_OpenSession owner reply_ok \<Rightarrow>
          (let sid = sv_next_sid sv;
               sv1 = put_session sid (session_new owner) (sv\<lparr>sv_next_sid := sid + 1\<rparr>)
           in Inr (if reply_ok then sv1 else sv1\<lparr>sv_sessions := AList.delete sid (sv_sessions sv1)\<rparr>))
      | C_SessionFrame sid frame \<Rightarrow> handle_frame x ops fu now sid frame sv
      | C_SessionClosed sid \<Rightarrow> Inr (close_session now sid None sv)
      | C_Overview \<Rightarrow> Inr sv)"

definition handle_packet ::
  "('r, 'p) rtc_ops \<Rightarrow> int \<Rightarrow> bytes \<Rightarrow> socket_addr \<Rightarrow> ('r, 'p) server \<Rightarrow> ('r, 'p) vres" where
  "handle_packet ops now buf from_addr sv =
     (if \<not> rt_datagram ops buf then Inr sv
      else
        let input = In_receive from_addr buf
        in case find (\<lambda>(_, s). case ss_rtc s of None \<Rightarrow> False | Some r \<Rightarrow> rt_accepts ops input r) (sv_sessions sv) of
             None \<Rightarrow> Inr sv
           | Some (sid, _) \<Rightarrow>
               (case map_of (sv_sessions sv) sid of
                  None \<Rightarrow> Inl (V_panic ''sid from iteration'')
                | Some s \<Rightarrow>
                    (case ss_rtc s of
                       None \<Rightarrow> Inl (V_panic ''accepts() implies rtc'')
                     | Some r \<Rightarrow>
                         (case rt_handle_input ops input r of
                            (ok, r1) \<Rightarrow>
                              let sv1 = put_session sid (s\<lparr>ss_rtc := Some r1\<rparr>) sv
                              in Inr (if ok then push_dirty sid sv1 else close_session now sid None sv1)))))"

fun timeouts_loop :: "('r, 'p) rtc_ops \<Rightarrow> int \<Rightarrow> nat list \<Rightarrow> ('r, 'p) server \<Rightarrow> ('r, 'p) server" where
  "timeouts_loop ops now [] sv = sv"
| "timeouts_loop ops now (sid # sids) sv =
     timeouts_loop ops now sids
       (case map_of (sv_sessions sv) sid of
          None \<Rightarrow> sv
        | Some s \<Rightarrow>
            (case ss_rtc s of
               None \<Rightarrow> sv
             | Some r \<Rightarrow>
                 (case rt_handle_input ops (In_timeout now) r of
                    (ok, r1) \<Rightarrow>
                      let sv1 = put_session sid (s\<lparr>ss_next_timeout := None, ss_rtc := Some r1\<rparr>) sv
                      in if ok then push_dirty sid sv1 else close_session now sid None sv1)))"

definition reap_calls :: "int \<Rightarrow> ('r, 'p) server \<Rightarrow> ('r, 'p) server" where
  "reap_calls now sv =
     (let dead = map fst (filter (\<lambda>(_, c). \<not> is_live c \<and>
            (case ca_empty_since c of None \<Rightarrow> False | Some t \<Rightarrow> vg_idle_reap (sv_cfg sv) \<le> max 0 (now - t))) (sv_calls sv))
      in sv\<lparr>sv_calls := fold AList.delete dead (sv_calls sv)\<rparr>)"

definition handle_time :: "('r, 'p) rtc_ops \<Rightarrow> fuel \<Rightarrow> int \<Rightarrow> ('r, 'p) server \<Rightarrow> ('r, 'p) vres" where
  "handle_time ops fu now sv =
     (let due = map fst (filter (\<lambda>(_, s). ss_rtc s \<noteq> None \<and>
            (case ss_next_timeout s of None \<Rightarrow> False | Some t \<Rightarrow> t \<le> now)) (sv_sessions sv))
      in vbind (drain_ready ops (fu_poll fu) (fu_drain fu) now (timeouts_loop ops now due sv))
           (\<lambda>sv'. Inr (reap_calls now sv')))"

definition opt_min :: "int option \<Rightarrow> int option \<Rightarrow> int option" where
  "opt_min a b = (case (a, b) of (Some x, Some y) \<Rightarrow> Some (min x y) | (None, b) \<Rightarrow> b | (a, None) \<Rightarrow> a)"

definition next_deadline :: "('r, 'p) server \<Rightarrow> int option" where
  "next_deadline sv =
     (let rtc_next = foldr (\<lambda>(_, s). opt_min (ss_next_timeout s)) (sv_sessions sv) None;
          reap_next = foldr (\<lambda>(_, c). opt_min (map_option (\<lambda>t. t + vg_idle_reap (sv_cfg sv)) (ca_empty_since c)))
                        (sv_calls sv) None
      in opt_min rtc_next reap_next)"

text \<open>
  One turn of \<open>run\<close>: the branch \<open>select!\<close> took, then \<open>handle_time\<close>. Between turns a client's
  task may take frames off its channel or drop the receiver.
\<close>

datatype vevent = E_command command | E_packet bytes socket_addr | E_recv_error | E_timer
  | E_taken nat | E_dropped nat

definition run_event ::
  "ext \<Rightarrow> ('r, 'p) rtc_ops \<Rightarrow> fuel \<Rightarrow> int \<Rightarrow> vevent \<Rightarrow> ('r, 'p) server \<Rightarrow> ('r, 'p) vres" where
  "run_event x ops fu now ev sv =
     (case ev of
        E_command cmd \<Rightarrow> vbind (handle_command x ops fu now cmd sv) (handle_time ops fu now)
      | E_packet buf from_addr \<Rightarrow> vbind (handle_packet ops now buf from_addr sv) (handle_time ops fu now)
      | E_recv_error \<Rightarrow> handle_time ops fu now sv
      | E_timer \<Rightarrow> handle_time ops fu now sv
      | E_taken sid \<Rightarrow>
          Inr (case map_of (sv_sessions sv) sid of
                 None \<Rightarrow> sv
               | Some s \<Rightarrow> if ss_room s < 64 then put_session sid (s\<lparr>ss_room := ss_room s + 1\<rparr>) sv else sv)
      | E_dropped sid \<Rightarrow>
          Inr (case map_of (sv_sessions sv) sid of
                 None \<Rightarrow> sv | Some s \<Rightarrow> put_session sid (s\<lparr>ss_gone := True\<rparr>) sv))"

fun run_events ::
  "ext \<Rightarrow> ('r, 'p) rtc_ops \<Rightarrow> fuel \<Rightarrow> (int \<times> vevent) list \<Rightarrow> ('r, 'p) server \<Rightarrow> ('r, 'p) vres" where
  "run_events x ops fu [] sv = Inr sv"
| "run_events x ops fu ((now, ev) # evs) sv = vbind (run_event x ops fu now ev sv) (run_events x ops fu evs)"

end
