(* ===== verification/Config.thy ===== *)
theory Config
  imports Voice
begin

text \<open>
  Configuration (\<open>starling-relay/src/config.rs\<close>): the defaults, the overlay of the
  \<open>STARLING_RELAY_*\<close> variables and the validation, with the address parser of
  \<open>starling-relay-voice/src/lib.rs\<close>. Reading the file and parsing TOML into the struct are
  parameters; the address syntax is the standard library's and is written out.
\<close>

section \<open>Address syntax\<close>

definition to_digit :: "nat \<Rightarrow> char \<Rightarrow> nat option" where
  "to_digit radix c =
     (let n = of_char c :: nat;
          v = (if 48 \<le> n \<and> n \<le> 57 then n - 48
               else if 97 \<le> n \<and> n \<le> 122 then n - 87
               else if 65 \<le> n \<and> n \<le> 90 then n - 55 else radix)
      in if v < radix then Some v else None)"

fun read_digits :: "nat \<Rightarrow> str \<Rightarrow> nat list \<times> str" where
  "read_digits radix [] = ([], [])"
| "read_digits radix (c # cs) =
     (case to_digit radix c of
        None \<Rightarrow> ([], c # cs)
      | Some d \<Rightarrow> (let (ds, rest) = read_digits radix cs in (d # ds, rest)))"

definition read_number :: "nat \<Rightarrow> nat option \<Rightarrow> bool \<Rightarrow> int \<Rightarrow> str \<Rightarrow> (int \<times> str) option" where
  "read_number radix max_digits allow_zero_prefix bound s =
     (let (ds, rest) = read_digits radix s; v = foldl (\<lambda>acc d. acc * int radix + int d) 0 ds
      in if ds = [] \<or> bound < v \<or> (case max_digits of None \<Rightarrow> False | Some m \<Rightarrow> m < length ds) \<or>
            (\<not> allow_zero_prefix \<and> hd ds = 0 \<and> 1 < length ds)
         then None else Some (v, rest))"

definition read_char :: "char \<Rightarrow> str \<Rightarrow> str option" where
  "read_char c s = (case s of [] \<Rightarrow> None | d # ds \<Rightarrow> if d = c then Some ds else None)"

definition read_separator :: "char \<Rightarrow> bool \<Rightarrow> (str \<Rightarrow> ('a \<times> str) option) \<Rightarrow> str \<Rightarrow> ('a \<times> str) option" where
  "read_separator sep is_first p s = (if is_first then p s else Option.bind (read_char sep s) p)"

definition read_ipv4 :: "str \<Rightarrow> ((int \<times> int \<times> int \<times> int) \<times> str) option" where
  "read_ipv4 s = do {
     let octet = read_number 10 (Some 3) False 255;
     (a, s) \<leftarrow> read_separator (CHR ''.'') True octet s;
     (b, s) \<leftarrow> read_separator (CHR ''.'') False octet s;
     (c, s) \<leftarrow> read_separator (CHR ''.'') False octet s;
     (d, s) \<leftarrow> read_separator (CHR ''.'') False octet s;
     Some ((a, b, c, d), s) }"

text \<open>Up to \<open>n\<close> groups; the flag tells that the last two came from an embedded IPv4 address.\<close>

fun read_groups :: "nat \<Rightarrow> bool \<Rightarrow> str \<Rightarrow> int list \<times> bool \<times> str" where
  "read_groups 0 is_first s = ([], False, s)"
| "read_groups (Suc n) is_first s =
     (case (if 1 \<le> n then read_separator (CHR '':'') is_first read_ipv4 s else None) of
        Some ((a, b, c, d), s1) \<Rightarrow> ([a * 256 + b, c * 256 + d], True, s1)
      | None \<Rightarrow>
          (case read_separator (CHR '':'') is_first (read_number 16 (Some 4) True 65535) s of
             None \<Rightarrow> ([], False, s)
           | Some (g, s1) \<Rightarrow> (let (gs, v4, s2) = read_groups n False s1 in (g # gs, v4, s2))))"

definition read_ipv6 :: "str \<Rightarrow> (int list \<times> str) option" where
  "read_ipv6 s =
     (let (head, v4, s1) = read_groups 8 True s
      in if length head = 8 then Some (head, s1)
         else if v4 then None
         else Option.bind (read_char (CHR '':'') s1) (\<lambda>s2. Option.bind (read_char (CHR '':'') s2) (\<lambda>s3.
           let (tail, _, s4) = read_groups (8 - (length head + 1)) True s3
           in Some (head @ replicate (8 - length head - length tail) 0 @ tail, s4))))"

definition read_ip :: "str \<Rightarrow> (ip_addr \<times> str) option" where
  "read_ip s =
     (case read_ipv4 s of
        Some ((a, b, c, d), r) \<Rightarrow> Some (V4 (of_int a) (of_int b) (of_int c) (of_int d), r)
      | None \<Rightarrow> map_option (\<lambda>(gs, r). (V6 (map of_int gs), r)) (read_ipv6 s))"

definition read_port :: "str \<Rightarrow> (int \<times> str) option" where
  "read_port s = Option.bind (read_char (CHR '':'') s) (read_number 10 None True 65535)"

definition read_scope_id :: "str \<Rightarrow> (int \<times> str) option" where
  "read_scope_id s = Option.bind (read_char (CHR ''%'') s) (read_number 10 None True 4294967295)"

definition read_socket :: "str \<Rightarrow> (socket_addr \<times> str) option" where
  "read_socket s =
     (case Option.bind (read_ipv4 s) (\<lambda>(ip, r). map_option (\<lambda>(p, r'). (ip, p, r')) (read_port r)) of
        Some ((a, b, c, d), p, r) \<Rightarrow> Some (sock_new (V4 (of_int a) (of_int b) (of_int c) (of_int d)) (of_int p), r)
      | None \<Rightarrow> do {
          s \<leftarrow> read_char (CHR ''['') s;
          (gs, s) \<leftarrow> read_ipv6 s;
          let (scope, s) = (case read_scope_id s of None \<Rightarrow> (0, s) | Some r \<Rightarrow> r);
          s \<leftarrow> read_char (CHR '']'') s;
          (p, s) \<leftarrow> read_port s;
          Some (\<lparr>sa_ip = V6 (map of_int gs), sa_port = of_int p, sa_scope = of_int scope\<rparr>, s) })"

definition parse_all :: "(str \<Rightarrow> ('a \<times> str) option) \<Rightarrow> str \<Rightarrow> 'a option" where
  "parse_all p s = (case p s of Some (a, []) \<Rightarrow> Some a | _ \<Rightarrow> None)"

definition parse_advertised :: "str \<Rightarrow> advertised_addr option" where
  "parse_advertised s =
     (case parse_all read_socket s of
        Some sa \<Rightarrow> Some (Full sa)
      | None \<Rightarrow> (case parse_all read_ip s of Some ip \<Rightarrow> Some (IpOnly ip) | None \<Rightarrow> None))"

section \<open>The struct\<close>

record voice_config =
  vf_enabled :: bool
  vf_udp_port :: u16
  vf_advertised_addrs :: "str list"
  vf_max_participants :: u16
  vf_max_concurrent_calls :: u32

record config =
  cf_data_dir :: str
  cf_bind_admin :: str
  cf_disk_cap_bytes :: int
  cf_per_owner_default_cap_bytes :: int
  cf_log_level :: str
  cf_pairing_token_ttl_seconds :: int
  cf_local_port_range :: "u16 \<times> u16"
  cf_voice :: voice_config

definition voice_config_default :: voice_config where
  "voice_config_default =
     \<lparr>vf_enabled = False, vf_udp_port = 0, vf_advertised_addrs = [], vf_max_participants = 12,
      vf_max_concurrent_calls = 4\<rparr>"

definition config_default :: config where
  "config_default =
     \<lparr>cf_data_dir = ''/var/lib/starling-relay'', cf_bind_admin = ''127.0.0.1:8088'',
      cf_disk_cap_bytes = cp_disk_cap caps_default, cf_per_owner_default_cap_bytes = cp_per_owner_default caps_default,
      cf_log_level = ''info'', cf_pairing_token_ttl_seconds = 600, cf_local_port_range = (17000, 17999),
      cf_voice = voice_config_default\<rparr>"

section \<open>Loading\<close>

text \<open>The errors of \<open>load\<close>, by their cause; the texts are for the log.\<close>

datatype cfg_error =
    Cfg_read | Cfg_parse | Cfg_env str | Cfg_port_range | Cfg_disk_cap | Cfg_owner_cap | Cfg_ttl
  | Cfg_port_order | Cfg_participants | Cfg_calls | Cfg_advertised str

type_synonym 'a cres = "cfg_error + 'a"

definition cbind :: "'a cres \<Rightarrow> ('a \<Rightarrow> 'b cres) \<Rightarrow> 'b cres" where
  "cbind r f = (case r of Inl e \<Rightarrow> Inl e | Inr a \<Rightarrow> f a)"

text \<open>A variable that is unset or not Unicode is \<open>None\<close>.\<close>

type_synonym vars = "str \<Rightarrow> str option"

definition env_parse :: "(str \<Rightarrow> 'a option) \<Rightarrow> vars \<Rightarrow> str \<Rightarrow> 'a \<Rightarrow> 'a cres" where
  "env_parse parse env key dflt =
     (case env key of
        Some v \<Rightarrow> (case parse v of None \<Rightarrow> Inl (Cfg_env key) | Some a \<Rightarrow> Inr a)
      | None \<Rightarrow> Inr dflt)"

definition parse_port_range :: "str \<Rightarrow> (u16 \<times> u16) option" where
  "parse_port_range s = do {
     (lo, hi) \<leftarrow> split_once (CHR ''-'') (trim s);
     lo \<leftarrow> parse_u16 (trim lo);
     hi \<leftarrow> parse_u16 (trim hi);
     if lo \<le> hi then Some (lo, hi) else None }"

definition env_text :: "vars \<Rightarrow> str \<Rightarrow> str \<Rightarrow> str" where
  "env_text env key dflt = (case env key of None \<Rightarrow> dflt | Some v \<Rightarrow> v)"

definition env_port_range :: "vars \<Rightarrow> u16 \<times> u16 \<Rightarrow> (u16 \<times> u16) cres" where
  "env_port_range env dflt =
     (case env ''STARLING_RELAY_LOCAL_PORT_RANGE'' of
        None \<Rightarrow> Inr dflt
      | Some v \<Rightarrow> (case parse_port_range v of None \<Rightarrow> Inl Cfg_port_range | Some r \<Rightarrow> Inr r))"

definition env_addrs :: "vars \<Rightarrow> str list \<Rightarrow> str list" where
  "env_addrs env dflt =
     (case env ''STARLING_RELAY_VOICE_ADVERTISED_ADDRS'' of
        None \<Rightarrow> dflt
      | Some v \<Rightarrow> filter (\<lambda>s. s \<noteq> []) (map trim (split_at (CHR '','') v)))"

definition apply_env :: "vars \<Rightarrow> config \<Rightarrow> config cres" where
  "apply_env env c =
     (let v = cf_voice c
      in cbind (env_parse parse_i64 env ''STARLING_RELAY_DISK_CAP_BYTES'' (cf_disk_cap_bytes c)) (\<lambda>disk.
         cbind (env_parse parse_i64 env ''STARLING_RELAY_PER_OWNER_DEFAULT_CAP_BYTES'' (cf_per_owner_default_cap_bytes c)) (\<lambda>owner.
         cbind (env_parse parse_i64 env ''STARLING_RELAY_PAIRING_TOKEN_TTL_SECONDS'' (cf_pairing_token_ttl_seconds c)) (\<lambda>ttl.
         cbind (env_port_range env (cf_local_port_range c)) (\<lambda>ports.
         cbind (env_parse parse_bool env ''STARLING_RELAY_VOICE_ENABLED'' (vf_enabled v)) (\<lambda>enabled.
         cbind (env_parse parse_u16 env ''STARLING_RELAY_VOICE_UDP_PORT'' (vf_udp_port v)) (\<lambda>udp.
         cbind (env_parse parse_u16 env ''STARLING_RELAY_VOICE_MAX_PARTICIPANTS'' (vf_max_participants v)) (\<lambda>parts.
         cbind (env_parse parse_u32 env ''STARLING_RELAY_VOICE_MAX_CONCURRENT_CALLS'' (vf_max_concurrent_calls v)) (\<lambda>calls.
           Inr \<lparr>cf_data_dir = env_text env ''STARLING_RELAY_DATA_DIR'' (cf_data_dir c),
                cf_bind_admin = env_text env ''STARLING_RELAY_BIND_ADMIN'' (cf_bind_admin c),
                cf_disk_cap_bytes = disk, cf_per_owner_default_cap_bytes = owner,
                cf_log_level = env_text env ''STARLING_RELAY_LOG_LEVEL'' (cf_log_level c),
                cf_pairing_token_ttl_seconds = ttl, cf_local_port_range = ports,
                cf_voice = \<lparr>vf_enabled = enabled, vf_udp_port = udp,
                            vf_advertised_addrs = env_addrs env (vf_advertised_addrs v),
                            vf_max_participants = parts, vf_max_concurrent_calls = calls\<rparr>\<rparr>)))))))))"

fun validate_addrs :: "str list \<Rightarrow> unit cres" where
  "validate_addrs [] = Inr ()"
| "validate_addrs (a # as) = (if parse_advertised a = None then Inl (Cfg_advertised a) else validate_addrs as)"

definition validate :: "config \<Rightarrow> unit cres" where
  "validate c =
     (if cf_disk_cap_bytes c < 0 then Inl Cfg_disk_cap
      else if cf_per_owner_default_cap_bytes c < 0 then Inl Cfg_owner_cap
      else if cf_pairing_token_ttl_seconds c \<le> 0 then Inl Cfg_ttl
      else if snd (cf_local_port_range c) < fst (cf_local_port_range c) then Inl Cfg_port_order
      else if \<not> (2 \<le> vf_max_participants (cf_voice c) \<and> vf_max_participants (cf_voice c) \<le> 24) then Inl Cfg_participants
      else if vf_max_concurrent_calls (cf_voice c) < 1 then Inl Cfg_calls
      else validate_addrs (vf_advertised_addrs (cf_voice c)))"

definition config_load :: "(str \<Rightarrow> str option) \<Rightarrow> (str \<Rightarrow> config option) \<Rightarrow> vars \<Rightarrow> str option \<Rightarrow> config cres" where
  "config_load read_file toml env path =
     cbind (case path of
              None \<Rightarrow> Inr config_default
            | Some p \<Rightarrow>
                (case read_file p of
                   None \<Rightarrow> Inl Cfg_read
                 | Some txt \<Rightarrow> (case toml txt of None \<Rightarrow> Inl Cfg_parse | Some c \<Rightarrow> Inr c)))
       (\<lambda>c. cbind (apply_env env c) (\<lambda>c'. cbind (validate c') (\<lambda>_. Inr c')))"

text \<open>\<open>PathBuf::join\<close> with a relative name.\<close>

definition path_join :: "str \<Rightarrow> str \<Rightarrow> str" where
  "path_join dir name =
     (if dir = [] then name else if last dir = CHR ''/'' then dir @ name else dir @ CHR ''/'' # name)"

definition db_path :: "config \<Rightarrow> str" where "db_path c = path_join (cf_data_dir c) ''starling.db''"
definition media_dir :: "config \<Rightarrow> str" where "media_dir c = path_join (cf_data_dir c) ''media''"
definition arti_dir :: "config \<Rightarrow> str" where "arti_dir c = path_join (cf_data_dir c) ''arti''"
definition admin_sock :: "config \<Rightarrow> str" where "admin_sock c = path_join (cf_data_dir c) ''admin.sock''"

section \<open>What a loaded configuration satisfies\<close>

lemma cbind_Inr: "cbind r f = Inr b \<longleftrightarrow> (\<exists>a. r = Inr a \<and> f a = Inr b)"
  by (cases r) (auto simp: cbind_def)

text \<open>A field with a variable: the variable's value where it is set, the old value otherwise.\<close>

definition overlaid :: "(str \<Rightarrow> 'a option) \<Rightarrow> str option \<Rightarrow> 'a \<Rightarrow> 'a \<Rightarrow> bool" where
  "overlaid parse v old new \<longleftrightarrow> (case v of None \<Rightarrow> new = old | Some t \<Rightarrow> parse t = Some new)"

lemma env_parse_Inr: "env_parse parse env key dflt = Inr a \<longleftrightarrow> overlaid parse (env key) dflt a"
  by (auto simp: env_parse_def overlaid_def split: option.splits)

lemma env_port_range_Inr:
  "env_port_range env dflt = Inr r \<longleftrightarrow> overlaid parse_port_range (env ''STARLING_RELAY_LOCAL_PORT_RANGE'') dflt r"
  by (auto simp: env_port_range_def overlaid_def split: option.splits)

lemma validate_addrs_Inr: "validate_addrs as = Inr u \<longleftrightarrow> (\<forall>a \<in> set as. parse_advertised a \<noteq> None)"
  by (induction as) auto

lemma one_le_word: "(1 :: u32) \<le> w \<longleftrightarrow> w \<noteq> 0"
  by (simp add: word_le_nat_alt Suc_le_eq unat_gt_0)

lemma validate_Inr:
  assumes "validate c = Inr u"
  shows "0 \<le> cf_disk_cap_bytes c" "0 \<le> cf_per_owner_default_cap_bytes c" "0 < cf_pairing_token_ttl_seconds c"
    "fst (cf_local_port_range c) \<le> snd (cf_local_port_range c)"
    "2 \<le> vf_max_participants (cf_voice c)" "vf_max_participants (cf_voice c) \<le> 24" "1 \<le> vf_max_concurrent_calls (cf_voice c)"
    "\<forall>a \<in> set (vf_advertised_addrs (cf_voice c)). parse_advertised a \<noteq> None"
  using assms unfolding validate_def by (simp_all add: validate_addrs_Inr not_less one_le_word split: if_splits)

lemma apply_env_Inr:
  assumes "apply_env env b = Inr c"
  shows "env_parse parse_i64 env ''STARLING_RELAY_DISK_CAP_BYTES'' (cf_disk_cap_bytes b) = Inr (cf_disk_cap_bytes c)"
    "env_parse parse_i64 env ''STARLING_RELAY_PER_OWNER_DEFAULT_CAP_BYTES'' (cf_per_owner_default_cap_bytes b) = Inr (cf_per_owner_default_cap_bytes c)"
    "env_parse parse_i64 env ''STARLING_RELAY_PAIRING_TOKEN_TTL_SECONDS'' (cf_pairing_token_ttl_seconds b) = Inr (cf_pairing_token_ttl_seconds c)"
    "env_port_range env (cf_local_port_range b) = Inr (cf_local_port_range c)"
    "env_parse parse_bool env ''STARLING_RELAY_VOICE_ENABLED'' (vf_enabled (cf_voice b)) = Inr (vf_enabled (cf_voice c))"
    "env_parse parse_u16 env ''STARLING_RELAY_VOICE_UDP_PORT'' (vf_udp_port (cf_voice b)) = Inr (vf_udp_port (cf_voice c))"
    "env_parse parse_u16 env ''STARLING_RELAY_VOICE_MAX_PARTICIPANTS'' (vf_max_participants (cf_voice b)) = Inr (vf_max_participants (cf_voice c))"
    "env_parse parse_u32 env ''STARLING_RELAY_VOICE_MAX_CONCURRENT_CALLS'' (vf_max_concurrent_calls (cf_voice b)) = Inr (vf_max_concurrent_calls (cf_voice c))"
  using assms unfolding apply_env_def Let_def cbind_Inr by (elim exE conjE; clarsimp)+


definition ex_vars :: vars where
  "ex_vars k = (if k = ''STARLING_RELAY_LOCAL_PORT_RANGE'' then Some '' 1- 2 ''
                else if k = ''STARLING_RELAY_VOICE_ADVERTISED_ADDRS'' then Some ''203.0.113.7, 203.0.113.7:47000,2001:db8::1'' else None)"

definition ex_config :: "config option" where
  "ex_config = (case config_load (\<lambda>_. None) (\<lambda>_. None) ex_vars None of Inl _ \<Rightarrow> None | Inr c \<Rightarrow> Some c)"


end
