(* ===== verification/Supervisor.thy ===== *)
theory Supervisor
  imports Voice
begin

text \<open>
  The supervisor (\<open>starling-relay/src/supervisor.rs\<close>): one onion service and one serving task
  per paired Owner, pairing, unpairing, the restoration at boot, and the serving loop with
  its backoff.

  The pairing lock makes \<open>pair_owner\<close> and \<open>unpair_owner\<close> atomic with respect to each other,
  so each is a function on the state. Publishing an onion service is a parameter
  (\<open>sn_launch\<close>: nickname and port to the address); a loopback port can be bound when no
  other process and no serving task has it.
\<close>

section \<open>State\<close>

text \<open>Durations in milliseconds.\<close>

definition SERVE_BACKOFF_MIN :: nat where "SERVE_BACKOFF_MIN = 500"
definition SERVE_BACKOFF_MAX :: nat where "SERVE_BACKOFF_MAX = 30000"

text \<open>
  A serving task: it has a listener (\<open>Listening\<close>), sleeps before it rebinds (\<open>Rebinding\<close>), or
  has left its loop (\<open>Left\<close>).
\<close>

datatype serve_state = Listening | Rebinding | Left

record owner_task =
  ot_onion :: str
  ot_port :: u16
  ot_state :: serve_state
  ot_backoff :: nat

record sup_cfg =
  sg_caps :: caps
  sg_admin_onion :: str
  sg_port_range :: "u16 \<times> u16"
  sg_voice :: "u16 option"

text \<open>
  \<open>su_detached\<close>: tasks whose entry of the map was overwritten; they run on. \<open>su_commands\<close>: the
  commands sent to the voice loop. \<open>su_unpairs\<close>: the requests waiting for the dispatcher.
\<close>

record sup =
  su_db :: db
  su_fs :: fs
  su_owners :: "(bytes \<times> owner_task) list"
  su_detached :: "owner_task list"
  su_serving :: nat
  su_commands :: "command list"
  su_unpairs :: "bytes list"

text \<open>
  \<open>sn_get k\<close> tells whether the \<open>k\<close>-th use of the database in a call succeeds; \<open>sn_rmdir\<close> which
  files \<open>remove_dir_all\<close> manages to remove.
\<close>

record sup_env =
  sn_now :: int
  sn_get :: "nat \<Rightarrow> bool"
  sn_insert_ok :: bool
  sn_launch :: "str \<Rightarrow> u16 \<Rightarrow> str option"
  sn_port_free :: "u16 \<Rightarrow> bool"
  sn_rmdir :: "str \<Rightarrow> bool"
  sn_joined :: bool

definition supervisor_new :: "db \<Rightarrow> fs \<Rightarrow> sup" where
  "supervisor_new db fs =
     \<lparr>su_db = db, su_fs = fs, su_owners = [], su_detached = [], su_serving = 0, su_commands = [], su_unpairs = []\<rparr>"

section \<open>Launching and stopping\<close>

definition serving_guard_new :: "sup \<Rightarrow> sup" where
  "serving_guard_new s = s\<lparr>su_serving := su_serving s + 1\<rparr>"

definition serving_guard_drop :: "sup \<Rightarrow> sup" where
  "serving_guard_drop s = s\<lparr>su_serving := su_serving s - 1\<rparr>"

definition liveness :: "sup \<Rightarrow> nat \<times> nat" where
  "liveness s = (su_serving s, length (su_owners s))"

definition all_tasks :: "sup \<Rightarrow> owner_task list" where
  "all_tasks s = map snd (su_owners s) @ su_detached s"

definition port_held :: "u16 \<Rightarrow> sup \<Rightarrow> bool" where
  "port_held port s \<longleftrightarrow> (\<exists>t \<in> set (all_tasks s). ot_port t = port \<and> ot_state t = Listening)"

text \<open>The context of the Owner's router.\<close>

definition launch_ctx :: "sup_cfg \<Rightarrow> bytes \<Rightarrow> owner_ctx" where
  "launch_ctx cfg pubkey =
     \<lparr>cx_owner_pubkey = pubkey, cx_caps = sg_caps cfg, cx_unpair = True,
      cx_voice = map_option (\<lambda>m. \<lparr>vc_max_participants = m\<rparr>) (sg_voice cfg)\<rparr>"

definition put_task :: "bytes \<Rightarrow> owner_task \<Rightarrow> sup \<Rightarrow> sup" where
  "put_task pubkey t s =
     s\<lparr>su_owners := AList.update pubkey t (su_owners s),
       su_detached := (case map_of (su_owners s) pubkey of None \<Rightarrow> su_detached s | Some old \<Rightarrow> old # su_detached s)\<rparr>"

definition launch_owner :: "ext \<Rightarrow> sup_env \<Rightarrow> bytes \<Rightarrow> u16 \<Rightarrow> sup \<Rightarrow> str res \<times> sup" where
  "launch_owner x e pubkey port s =
     (let nickname = x_hex_encode x pubkey
      in case sn_launch e nickname port of
           None \<Rightarrow> (Inl (Other_fault ''launch onion''), s)
         | Some address \<Rightarrow>
             if \<not> sn_port_free e port \<or> port_held port s then (Inl Io_error, s)
             else (Inr address,
                   put_task pubkey
                     \<lparr>ot_onion = address, ot_port = port, ot_state = Listening, ot_backoff = SERVE_BACKOFF_MIN\<rparr>
                     (serving_guard_new s)))"

definition stop_owner :: "bytes \<Rightarrow> sup \<Rightarrow> sup" where
  "stop_owner pubkey s =
     (case map_of (su_owners s) pubkey of
        None \<Rightarrow> s
      | Some t \<Rightarrow>
          let s1 = s\<lparr>su_owners := AList.delete pubkey (su_owners s)\<rparr>
          in if ot_state t = Left then s1 else serving_guard_drop s1)"

definition shutdown_all :: "sup \<Rightarrow> sup" where
  "shutdown_all s = fold (\<lambda>(pk, _). stop_owner pk) (su_owners s) s"

section \<open>The serving loop\<close>

text \<open>
  What ends a wait of the loop: \<open>axum::serve\<close> returning, or the result of a bind after the
  sleep.
\<close>

datatype serve_event = Serve_returned bool | Bound bool

definition serve_step :: "serve_event \<Rightarrow> owner_task \<Rightarrow> owner_task" where
  "serve_step ev t =
     (case (ot_state t, ev) of
        (Listening, Serve_returned ok) \<Rightarrow>
          if ok then t\<lparr>ot_state := Left\<rparr>
          else t\<lparr>ot_state := Rebinding, ot_backoff := min (ot_backoff t * 2) SERVE_BACKOFF_MAX\<rparr>
      | (Rebinding, Bound ok) \<Rightarrow>
          if ok then t\<lparr>ot_state := Listening, ot_backoff := SERVE_BACKOFF_MIN\<rparr>
          else t\<lparr>ot_backoff := min (ot_backoff t * 2) SERVE_BACKOFF_MAX\<rparr>
      | _ \<Rightarrow> t)"

text \<open>The event happens to the task of \<open>pubkey\<close>; leaving the loop drops its guard.\<close>

definition serve_event_of :: "bytes \<Rightarrow> serve_event \<Rightarrow> sup \<Rightarrow> sup" where
  "serve_event_of pubkey ev s =
     (case map_of (su_owners s) pubkey of
        None \<Rightarrow> s
      | Some t \<Rightarrow>
          let t' = serve_step ev t; s1 = s\<lparr>su_owners := AList.update pubkey t' (su_owners s)\<rparr>
          in if ot_state t \<noteq> Left \<and> ot_state t' = Left then serving_guard_drop s1 else s1)"

section \<open>Pairing, unpairing, restoring\<close>

definition pair_owner ::
  "ext \<Rightarrow> sup_cfg \<Rightarrow> sup_env \<Rightarrow> bytes \<Rightarrow> str option \<Rightarrow> sup \<Rightarrow> (str \<times> str) res \<times> sup" where
  "pair_owner x cfg e owner_pubkey label s =
     (if \<not> sn_get e 0 then (Inl Pool_exhausted, s)
      else case owners_get owner_pubkey (su_db s) of
        Some existing \<Rightarrow>
          (let onion = po_relay_onion_address existing; rid = relay_id x owner_pubkey onion
           in if map_of (su_owners s) owner_pubkey \<noteq> None then (Inr (onion, rid), s)
              else case launch_owner x e owner_pubkey (po_local_port existing) s of
                     (Inl err, s1) \<Rightarrow> (Inl err, s1)
                   | (Inr relaunched, s1) \<Rightarrow> (Inr (onion, rid), s1))
      | None \<Rightarrow>
          if \<not> sn_get e 1 then (Inl Pool_exhausted, s)
          else case lowest_free_port (fst (sg_port_range cfg)) (snd (sg_port_range cfg)) (used_ports (su_db s)) of
                 None \<Rightarrow> (Inl (Other_fault ''no free loopback ports in range''), s)
               | Some port \<Rightarrow>
                   (case launch_owner x e owner_pubkey port s of
                      (Inl err, s1) \<Rightarrow> (Inl err, s1)
                    | (Inr relay_onion, s1) \<Rightarrow>
                        let rid = relay_id x owner_pubkey relay_onion;
                            row = \<lparr>po_pubkey = owner_pubkey, po_label = label, po_paired_at = sn_now e,
                                   po_relay_onion_address = relay_onion, po_local_port = port,
                                   po_storage_cap_bytes = None\<rparr>
                        in if \<not> sn_get e 2 then (Inl Pool_exhausted, s1)
                           else case (if sn_insert_ok e then owners_insert row (su_db s1) else Inl (Other_fault ''insert'')) of
                                  Inl err \<Rightarrow> (Inl err, stop_owner owner_pubkey s1)
                                | Inr db' \<Rightarrow> (Inr (relay_onion, rid), s1\<lparr>su_db := db'\<rparr>)))"

definition in_dir :: "str \<Rightarrow> str \<Rightarrow> bool" where
  "in_dir dir path \<longleftrightarrow> take (Suc (length dir)) path = dir @ ''/''"

definition unpair_owner :: "ext \<Rightarrow> sup_cfg \<Rightarrow> sup_env \<Rightarrow> bytes \<Rightarrow> sup \<Rightarrow> unit res \<times> sup" where
  "unpair_owner x cfg e owner_pubkey s =
     (let s1 = stop_owner owner_pubkey s;
          s2 = (if sg_voice cfg = None then s1 else s1\<lparr>su_commands := su_commands s1 @ [C_DropOwner owner_pubkey]\<rparr>)
      in if \<not> sn_get e 0 then (Inl Pool_exhausted, s2)
         else
           let s3 = s2\<lparr>su_db := snd (owners_delete owner_pubkey (su_db s2))\<rparr>;
               owner_dir = x_hex_encode x owner_pubkey
           in if \<not> sn_joined e then (Inl (Other_fault ''join''), s3)
              else (Inr (), s3\<lparr>su_fs := filter (\<lambda>(p, _). \<not> (in_dir owner_dir p \<and> sn_rmdir e p)) (su_fs s3)\<rparr>))"

definition to_pubkey :: "bytes \<Rightarrow> bytes option" where
  "to_pubkey bs = (if length bs = 32 then Some bs else None)"

fun restore_loop :: "ext \<Rightarrow> sup_env \<Rightarrow> paired_owner list \<Rightarrow> sup \<Rightarrow> sup" where
  "restore_loop x e [] s = s"
| "restore_loop x e (row # rows) s =
     restore_loop x e rows
       (case to_pubkey (po_pubkey row) of
          None \<Rightarrow> s
        | Some pubkey \<Rightarrow> snd (launch_owner x e pubkey (po_local_port row) s))"

definition restore_all :: "ext \<Rightarrow> sup_env \<Rightarrow> sup \<Rightarrow> unit res \<times> sup" where
  "restore_all x e s =
     (if \<not> sn_get e 0 then (Inl Pool_exhausted, s)
      else (Inr (), restore_loop x e (owners_list (su_db s)) s))"

text \<open>The hooks of the Owner's router, and one turn of the dispatcher.\<close>

definition unpair_hook :: "bytes \<Rightarrow> sup \<Rightarrow> sup" where
  "unpair_hook pubkey s = s\<lparr>su_unpairs := su_unpairs s @ [pubkey]\<rparr>"

definition registrar :: "sup_cfg \<Rightarrow> bytes \<Rightarrow> voice_slot_entry list \<Rightarrow> sup \<Rightarrow> sup" where
  "registrar cfg pubkey slots s =
     (if sg_voice cfg = None then s else s\<lparr>su_commands := su_commands s @ [C_RegisterSlots pubkey slots]\<rparr>)"

definition unpair_dispatch :: "ext \<Rightarrow> sup_cfg \<Rightarrow> sup_env \<Rightarrow> sup \<Rightarrow> sup" where
  "unpair_dispatch x cfg e s =
     (case su_unpairs s of
        [] \<Rightarrow> s
      | pubkey # rest \<Rightarrow> snd (unpair_owner x cfg e pubkey (s\<lparr>su_unpairs := rest\<rparr>)))"

definition voice_overview :: "sup_cfg \<Rightarrow> ('r, 'p) server \<Rightarrow> (bytes \<times> nat) list option" where
  "voice_overview cfg sv = (if sg_voice cfg = None then None else Some (overview sv))"

section \<open>The invariant\<close>

abbreviation task :: "sup \<Rightarrow> bytes \<Rightarrow> owner_task option" where
  "task s \<equiv> map_of (su_owners s)"

definition running :: "(bytes \<times> owner_task) list \<Rightarrow> nat" where
  "running ts = length (filter (\<lambda>(_, t). ot_state t \<noteq> Left) ts)"

definition sup_shape :: "sup \<Rightarrow> bool" where
  "sup_shape s \<longleftrightarrow>
     distinct (map fst (su_owners s)) \<and> su_detached s = [] \<and> su_serving s = running (su_owners s) \<and>
     (\<forall>pk t. task s pk = Some t \<longrightarrow> SERVE_BACKOFF_MIN \<le> ot_backoff t \<and> ot_backoff t \<le> SERVE_BACKOFF_MAX)"

definition sup_rows :: "sup \<Rightarrow> bool" where
  "sup_rows s \<longleftrightarrow>
     db_inv (su_db s) \<and>
     (\<forall>pk t. task s pk = Some t \<longrightarrow> (\<exists>row. owners_get pk (su_db s) = Some row \<and> po_local_port row = ot_port t))"

lemma backoff_bounds: "SERVE_BACKOFF_MIN \<le> SERVE_BACKOFF_MAX"
  by (simp add: SERVE_BACKOFF_MIN_def SERVE_BACKOFF_MAX_def)

lemma running_delete:
  assumes "distinct (map fst ts)" "map_of ts pk = Some t"
  shows "running ts = running (AList.delete pk ts) + (if ot_state t \<noteq> Left then 1 else 0)"
  using assms
proof (induction ts)
  case (Cons p ts)
  obtain k u where p: "p = (k, u)" by (cases p)
  show ?case
  proof (cases "k = pk")
    case True
    then have "AList.delete pk ts = ts" using Cons.prems(1) p by (force simp: AList.delete_eq filter_id_conv)
    then show ?thesis using Cons.prems(2) p True by (auto simp: running_def AList.delete_eq)
  next
    case False
    then show ?thesis using Cons p by (auto simp: running_def AList.delete_eq)
  qed
qed simp

lemma running_update:
  assumes "distinct (map fst ts)" "map_of ts pk = Some t"
  shows "running (AList.update pk t' ts) + (if ot_state t \<noteq> Left then 1 else 0) = running ts + (if ot_state t' \<noteq> Left then 1 else 0)"
proof -
  have "running (AList.update pk t' ts) = running (AList.delete pk (AList.update pk t' ts)) + (if ot_state t' \<noteq> Left then 1 else 0)"
    by (rule running_delete) (simp_all add: assms distinct_update update_conv')
  then show ?thesis using running_delete [OF assms] by (simp add: AList.delete_update_same)
qed

lemma update_fresh: "k \<notin> fst ` set xs \<Longrightarrow> AList.update k v xs = xs @ [(k, v)]"
  by (induction xs) auto

lemma fresh_task: "task s pk = None \<longleftrightarrow> pk \<notin> fst ` set (su_owners s)"
  by (rule map_of_eq_None_iff)

section \<open>Launching\<close>

lemma launch_cases:
  obtains (no) err where "launch_owner x e pk port s = (Inl err, s)"
  | (yes) address where "sn_launch e (x_hex_encode x pk) port = Some address" "sn_port_free e port" "\<not> port_held port s"
      "launch_owner x e pk port s = (Inr address, put_task pk
         \<lparr>ot_onion = address, ot_port = port, ot_state = Listening, ot_backoff = SERVE_BACKOFF_MIN\<rparr> (serving_guard_new s))"
proof (cases "sn_launch e (x_hex_encode x pk) port")
  case None
  then show thesis using no by (simp add: launch_owner_def)
next
  case (Some a)
  show thesis
  proof (cases "\<not> sn_port_free e port \<or> port_held port s")
    case True
    then show thesis using no Some by (auto simp: launch_owner_def)
  next
    case False
    then show thesis using yes [OF Some] Some by (simp add: launch_owner_def)
  qed
qed

lemma put_task_sel [simp]:
  "su_db (put_task pk t s) = su_db s" "su_fs (put_task pk t s) = su_fs s" "su_serving (put_task pk t s) = su_serving s"
  "task (put_task pk t s) = (task s)(pk \<mapsto> t)" "su_commands (put_task pk t s) = su_commands s"
  by (simp_all add: put_task_def update_conv')

lemma guard_sel [simp]:
  "su_db (serving_guard_new s) = su_db s" "su_owners (serving_guard_new s) = su_owners s" "su_fs (serving_guard_new s) = su_fs s"
  "su_detached (serving_guard_new s) = su_detached s" "su_serving (serving_guard_new s) = su_serving s + 1"
  "su_commands (serving_guard_new s) = su_commands s"
  "su_db (serving_guard_drop s) = su_db s" "su_owners (serving_guard_drop s) = su_owners s" "su_fs (serving_guard_drop s) = su_fs s"
  "su_detached (serving_guard_drop s) = su_detached s" "su_serving (serving_guard_drop s) = su_serving s - 1"
  "su_commands (serving_guard_drop s) = su_commands s"
  by (simp_all add: serving_guard_new_def serving_guard_drop_def)

lemma launch_shape:
  assumes "sup_shape s" "task s pk = None"
  shows "sup_shape (snd (launch_owner x e pk port s))"
proof (cases rule: launch_cases [where x = x and e = e and pk = pk and port = port and s = s])
  case (yes address)
  let ?t = "\<lparr>ot_onion = address, ot_port = port, ot_state = Listening, ot_backoff = SERVE_BACKOFF_MIN\<rparr>"
  define s' where "s' = put_task pk ?t (serving_guard_new s)"
  have f: "su_owners s' = su_owners s @ [(pk, ?t)]"
    using assms(2) update_fresh [of pk "su_owners s" ?t] unfolding fresh_task by (simp add: s'_def put_task_def)
  have "sup_shape s'" unfolding sup_shape_def
  proof (intro conjI)
    show "distinct (map fst (su_owners s'))" using f assms by (auto simp: sup_shape_def fresh_task)
    show "su_detached s' = []" using assms by (simp add: s'_def put_task_def sup_shape_def)
    show "su_serving s' = running (su_owners s')" using f assms(1) by (simp add: sup_shape_def running_def) (simp add: s'_def)
    have "task s' = (task s)(pk \<mapsto> ?t)" by (simp add: s'_def)
    then show "\<forall>q t. task s' q = Some t \<longrightarrow> SERVE_BACKOFF_MIN \<le> ot_backoff t \<and> ot_backoff t \<le> SERVE_BACKOFF_MAX"
      using assms(1) backoff_bounds by (auto simp: sup_shape_def)
  qed
  then show ?thesis using yes by (simp add: s'_def)
qed (use assms in simp)

lemma launch_sel:
  "su_db (snd (launch_owner x e pk port s)) = su_db s" "su_fs (snd (launch_owner x e pk port s)) = su_fs s"
  "su_commands (snd (launch_owner x e pk port s)) = su_commands s"
  "q \<noteq> pk \<Longrightarrow> task (snd (launch_owner x e pk port s)) q = task s q"
  "fst (launch_owner x e pk port s) = Inr a \<Longrightarrow> \<exists>t. task (snd (launch_owner x e pk port s)) pk = Some t \<and> ot_port t = port \<and>
     ot_onion t = a \<and> ot_state t = Listening"
  "task (snd (launch_owner x e pk port s)) pk = Some t \<Longrightarrow> task s pk = None \<Longrightarrow> ot_port t = port"
  "fst (launch_owner x e pk port s) = Inl err \<Longrightarrow> snd (launch_owner x e pk port s) = s"
  by (cases rule: launch_cases [where x = x and e = e and pk = pk and port = port and s = s]; auto)+

lemma stop_sel:
  "su_db (stop_owner pk s) = su_db s" "su_fs (stop_owner pk s) = su_fs s" "su_commands (stop_owner pk s) = su_commands s"
  "task (stop_owner pk s) = (task s)(pk := None)"
  by (auto simp: stop_owner_def Let_def delete_conv' split: option.splits)

lemma stop_shape: "sup_shape s \<Longrightarrow> sup_shape (stop_owner pk s)"
proof (cases "task s pk")
  case (Some t)
  assume s: "sup_shape s"
  have r: "running (su_owners s) = running (AList.delete pk (su_owners s)) + (if ot_state t \<noteq> Left then 1 else 0)"
    using s Some by (intro running_delete) (simp_all add: sup_shape_def)
  show ?thesis unfolding sup_shape_def
  proof (intro conjI)
    show "distinct (map fst (su_owners (stop_owner pk s)))" "su_detached (stop_owner pk s) = []"
      using s Some by (auto simp: stop_owner_def Let_def sup_shape_def distinct_delete)
    show "su_serving (stop_owner pk s) = running (su_owners (stop_owner pk s))"
      using s Some r by (auto simp: stop_owner_def Let_def sup_shape_def)
    show "\<forall>q t. task (stop_owner pk s) q = Some t \<longrightarrow> SERVE_BACKOFF_MIN \<le> ot_backoff t \<and> ot_backoff t \<le> SERVE_BACKOFF_MAX"
      using s unfolding stop_sel sup_shape_def by auto
  qed
qed (simp add: stop_owner_def)

lemma serve_step_backoff:
  "SERVE_BACKOFF_MIN \<le> ot_backoff t \<Longrightarrow> ot_backoff t \<le> SERVE_BACKOFF_MAX \<Longrightarrow>
   SERVE_BACKOFF_MIN \<le> ot_backoff (serve_step ev t) \<and> ot_backoff (serve_step ev t) \<le> SERVE_BACKOFF_MAX"
  using backoff_bounds by (auto simp: serve_step_def split: serve_state.splits serve_event.splits)

lemma serve_step_port [simp]: "ot_port (serve_step ev t) = ot_port t" "ot_onion (serve_step ev t) = ot_onion t"
  by (auto simp: serve_step_def split: serve_state.splits serve_event.splits)

lemma serve_step_left: "ot_state t = Left \<Longrightarrow> serve_step ev t = t"
  by (auto simp: serve_step_def split: serve_state.splits serve_event.splits)

lemma serve_event_sel:
  "su_db (serve_event_of pk ev s) = su_db s" "su_fs (serve_event_of pk ev s) = su_fs s"
  "task (serve_event_of pk ev s) = (task s)(pk := map_option (serve_step ev) (task s pk))"
  by (auto simp: serve_event_of_def Let_def update_conv' split: option.splits)

lemma serve_event_shape: "sup_shape s \<Longrightarrow> sup_shape (serve_event_of pk ev s)"
proof (cases "task s pk")
  case (Some t)
  assume s: "sup_shape s"
  have r: "running (AList.update pk (serve_step ev t) (su_owners s)) + (if ot_state t \<noteq> Left then 1 else 0) =
      running (su_owners s) + (if ot_state (serve_step ev t) \<noteq> Left then 1 else 0)"
    using s Some by (intro running_update) (simp_all add: sup_shape_def)
  have b: "SERVE_BACKOFF_MIN \<le> ot_backoff u \<and> ot_backoff u \<le> SERVE_BACKOFF_MAX"
    if "task (serve_event_of pk ev s) q = Some u" for q u
  proof -
    have "\<forall>q u. task s q = Some u \<longrightarrow> SERVE_BACKOFF_MIN \<le> ot_backoff u \<and> ot_backoff u \<le> SERVE_BACKOFF_MAX"
      using s by (simp add: sup_shape_def)
    then show ?thesis using that serve_step_backoff Some by (auto simp: serve_event_sel split: if_splits)
  qed
  have d: "distinct (map fst (AList.update pk (serve_step ev t) (su_owners s)))"
    using s by (simp add: sup_shape_def distinct_update)
  show ?thesis unfolding sup_shape_def
  proof (intro conjI)
    show "distinct (map fst (su_owners (serve_event_of pk ev s)))" "su_detached (serve_event_of pk ev s) = []"
      using d Some s by (auto simp: serve_event_of_def Let_def sup_shape_def)
    show "su_serving (serve_event_of pk ev s) = running (su_owners (serve_event_of pk ev s))"
      using r s Some serve_step_left [of t ev] by (auto simp: serve_event_of_def Let_def sup_shape_def split: if_splits)
  qed (use b in blast)
qed (simp add: serve_event_of_def)

section \<open>Pairing and unpairing keep the invariant\<close>

lemma rows_launch:
  assumes "sup_rows s" "task s pk = None" "owners_get pk (su_db s) = Some row" "po_local_port row = port"
  shows "sup_rows (snd (launch_owner x e pk port s))"
  unfolding sup_rows_def launch_sel
proof (intro conjI allI impI)
  show "db_inv (su_db s)" using assms(1) by (simp add: sup_rows_def)
  fix q t assume t: "task (snd (launch_owner x e pk port s)) q = Some t"
  show "\<exists>row. owners_get q (su_db s) = Some row \<and> po_local_port row = ot_port t"
  proof (cases "q = pk")
    case True
    then show ?thesis using launch_sel(6) [OF t [unfolded True] assms(2)] assms(3,4) by simp
  next
    case False
    then show ?thesis using t launch_sel(4) [OF False] assms(1) by (simp add: sup_rows_def)
  qed
qed

lemma rows_stop: "sup_rows s \<Longrightarrow> sup_rows (stop_owner pk s)"
  by (auto simp: sup_rows_def stop_sel)

lemma shape_other [simp]:
  "sup_shape (s\<lparr>su_db := d\<rparr>) = sup_shape s" "sup_shape (s\<lparr>su_fs := f\<rparr>) = sup_shape s"
  "sup_shape (s\<lparr>su_commands := c\<rparr>) = sup_shape s" "sup_shape (s\<lparr>su_unpairs := u\<rparr>) = sup_shape s"
  by (simp_all add: sup_shape_def)

lemma rows_other [simp]:
  "sup_rows (s\<lparr>su_fs := f\<rparr>) = sup_rows s" "sup_rows (s\<lparr>su_commands := c\<rparr>) = sup_rows s"
  "sup_rows (s\<lparr>su_unpairs := u\<rparr>) = sup_rows s"
  by (simp_all add: sup_rows_def)

lemma owners_insert_get:
  assumes "owners_insert row db = Inr db'"
  shows "owners_get q db' = (if q = po_pubkey row then Some row else owners_get q db)" "owners_get (po_pubkey row) db = None"
  using assms
  by (auto simp: owners_insert_def tbl_insert_def owners_get_def tbl_find_append tbl_find_def [of _ _ "[_]"] split: if_splits option.splits)

lemma owners_insert_ok:
  assumes "owners_get (po_pubkey row) db = None" "po_local_port row \<notin> set (used_ports db)"
  shows "owners_insert row db = Inr (db\<lparr>d_owners := d_owners db @ [row]\<rparr>)"
  using assms
  by (auto simp: owners_insert_def tbl_insert_def owners_get_def tbl_find_def used_ports_def find_None_iff image_iff)

text \<open>The outcomes of \<open>pair_owner\<close>.\<close>

lemma pair_owner_cases:
  obtains (kept) r where "pair_owner x cfg e pk label s = (r, s)"
      "\<And>a. r = Inr a \<Longrightarrow> \<exists>row. owners_get pk (su_db s) = Some row \<and> task s pk \<noteq> None \<and>
         a = (po_relay_onion_address row, relay_id x pk (po_relay_onion_address row))"
  | (relaunched) row a s1 where "owners_get pk (su_db s) = Some row" "task s pk = None"
      "launch_owner x e pk (po_local_port row) s = (Inr a, s1)"
      "pair_owner x cfg e pk label s = (Inr (po_relay_onion_address row, relay_id x pk (po_relay_onion_address row)), s1)"
  | (launched) port a s1 where "owners_get pk (su_db s) = None"
      "lowest_free_port (fst (sg_port_range cfg)) (snd (sg_port_range cfg)) (used_ports (su_db s)) = Some port"
      "launch_owner x e pk port s = (Inr a, s1)"
      "pair_owner x cfg e pk label s =
        (let row = \<lparr>po_pubkey = pk, po_label = label, po_paired_at = sn_now e, po_relay_onion_address = a,
                    po_local_port = port, po_storage_cap_bytes = None\<rparr>
         in if \<not> sn_get e 2 then (Inl Pool_exhausted, s1)
            else case (if sn_insert_ok e then owners_insert row (su_db s1) else Inl (Other_fault ''insert'')) of
                   Inl err \<Rightarrow> (Inl err, stop_owner pk s1)
                 | Inr db' \<Rightarrow> (Inr (a, relay_id x pk a), s1\<lparr>su_db := db'\<rparr>))"
proof (cases "sn_get e 0")
  case False
  then show ?thesis using kept [of "Inl Pool_exhausted"] by (simp add: pair_owner_def)
next
  case g: True
  show ?thesis
  proof (cases "owners_get pk (su_db s)")
    case (Some row)
    show ?thesis
    proof (cases "task s pk")
      case None
      obtain r s1 where l: "launch_owner x e pk (po_local_port row) s = (r, s1)" by fastforce
      show ?thesis
      proof (cases r)
        case (Inl err)
        have "s1 = s" using launch_sel(7) [of x e pk "po_local_port row" s err] l Inl by simp
        then show ?thesis using kept [of "Inl err"] g Some None l Inl by (simp add: pair_owner_def Let_def)
      next
        case (Inr a)
        then show ?thesis using relaunched [of row a s1] g Some None l by (simp add: pair_owner_def Let_def)
      qed
    next
      case t: (Some t)
      show ?thesis
        by (rule kept [of "Inr (po_relay_onion_address row, relay_id x pk (po_relay_onion_address row))"])
          (use g Some t in \<open>auto simp: pair_owner_def Let_def\<close>)
    qed
  next
    case None
    show ?thesis
    proof (cases "sn_get e 1")
      case False
      then show ?thesis using kept [of "Inl Pool_exhausted"] g None by (simp add: pair_owner_def)
    next
      case g1: True
      show ?thesis
      proof (cases "lowest_free_port (fst (sg_port_range cfg)) (snd (sg_port_range cfg)) (used_ports (su_db s))")
        case N: None
        then show ?thesis using kept [of "Inl (Other_fault ''no free loopback ports in range'')"] g g1 None by (simp add: pair_owner_def)
      next
        case (Some port)
        obtain r s1 where l: "launch_owner x e pk port s = (r, s1)" by fastforce
        show ?thesis
        proof (cases r)
          case (Inl err)
          have "s1 = s" using launch_sel(7) [of x e pk port s err] l Inl by simp
          then show ?thesis using kept [of "Inl err"] g g1 None Some l Inl by (simp add: pair_owner_def)
        next
          case (Inr a)
          then show ?thesis using launched [of port a s1] g g1 None Some l by (simp add: pair_owner_def Let_def)
        qed
      qed
    qed
  qed
qed

lemma lowest_free: "lowest_free_port lo hi used = Some p \<Longrightarrow> p \<notin> set used"
  by (auto simp: lowest_free_port_def find_Some_iff)

lemma pair_owner_ok:
  assumes "sup_shape s" "sup_rows s" "sn_get e 2"
  shows "sup_shape (snd (pair_owner x cfg e pk label s)) \<and> sup_rows (snd (pair_owner x cfg e pk label s))"
proof (cases rule: pair_owner_cases [where x = x and cfg = cfg and e = e and pk = pk and label = label and s = s])
  case (kept r)
  then show ?thesis using assms by simp
next
  case (relaunched row a s1)
  then show ?thesis
    using launch_shape [OF assms(1) relaunched(2), of x e "po_local_port row"] rows_launch [OF assms(2) relaunched(2,1) refl, of x e] by simp
next
  case (launched port a s1)
  define row where "row = \<lparr>po_pubkey = pk, po_label = label, po_paired_at = sn_now e, po_relay_onion_address = a,
                    po_local_port = port, po_storage_cap_bytes = None\<rparr>"
  have none: "task s pk = None" using assms(2) launched(1) unfolding sup_rows_def by (cases "task s pk") force+
  have sh: "sup_shape s1" using launch_shape [OF assms(1) none, of x e port] launched(3) by simp
  have sel: "su_db s1 = su_db s" "\<And>q. q \<noteq> pk \<Longrightarrow> task s1 q = task s q" "\<And>t. task s1 pk = Some t \<Longrightarrow> ot_port t = port"
    using launch_sel(1) [of x e pk port s] launch_sel(4,6) [where x = x and e = e and pk = pk and port = port and s = s]
      launched(3) none by auto
  have e: "pair_owner x cfg e pk label s =
      (case (if sn_insert_ok e then owners_insert row (su_db s1) else Inl (Other_fault ''insert'')) of
         Inl err \<Rightarrow> (Inl err, stop_owner pk s1)
       | Inr db' \<Rightarrow> (Inr (a, relay_id x pk a), s1\<lparr>su_db := db'\<rparr>))"
    using launched(4) assms(3) by (simp add: Let_def row_def)
  show ?thesis
  proof (cases "if sn_insert_ok e then owners_insert row (su_db s1) else Inl (Other_fault ''insert'')")
    case (Inl err)
    have "sup_rows (stop_owner pk s1)" using assms(2) sel by (auto simp: sup_rows_def stop_sel)
    then show ?thesis using e Inl stop_shape [OF sh] by simp
  next
    case (Inr db')
    then have i: "owners_insert row (su_db s) = Inr db'" by (simp add: sel split: if_splits)
    have "sup_rows (s1\<lparr>su_db := db'\<rparr>)" unfolding sup_rows_def
    proof (intro conjI allI impI)
      show "db_inv (su_db (s1\<lparr>su_db := db'\<rparr>))"
        using db_inv_owners_insert [OF _ i] assms(2) by (simp add: sup_rows_def)
      fix q t assume "task (s1\<lparr>su_db := db'\<rparr>) q = Some t"
      then have t: "task s1 q = Some t" by simp
      show "\<exists>r. owners_get q (su_db (s1\<lparr>su_db := db'\<rparr>)) = Some r \<and> po_local_port r = ot_port t"
      proof (cases "q = pk")
        case True
        then show ?thesis using sel(3) t owners_insert_get(1) [OF i, of pk] by (simp add: row_def)
      next
        case False
        then show ?thesis using sel(2) t owners_insert_get(1) [OF i, of q] assms(2) by (simp add: row_def sup_rows_def)
      qed
    qed
    moreover have "sup_shape (s1\<lparr>su_db := db'\<rparr>)" using sh by (simp add: sup_shape_def)
    ultimately show ?thesis using e Inr by simp
  qed
qed

lemma owners_delete_get:
  assumes "db_inv db"
  shows "owners_get q (snd (owners_delete pk db)) = (if q = pk then None else owners_get q db)"
  using owners_delete_cascade [OF assms prod.collapse [symmetric], of pk] by auto

lemma unpair_owner_ok:
  assumes "sup_shape s" "sup_rows s"
  shows "sup_shape (snd (unpair_owner x cfg e pk s)) \<and> sup_rows (snd (unpair_owner x cfg e pk s))"
proof -
  define s2 where "s2 = (if sg_voice cfg = None then stop_owner pk s
      else (stop_owner pk s)\<lparr>su_commands := su_commands (stop_owner pk s) @ [C_DropOwner pk]\<rparr>)"
  have s2: "sup_shape s2" "sup_rows s2" "task s2 pk = None" "su_db s2 = su_db s"
    using stop_shape [OF assms(1), of pk] rows_stop [OF assms(2), of pk]
    by (simp_all add: s2_def stop_sel)
  define s3 where "s3 = s2\<lparr>su_db := snd (owners_delete pk (su_db s2))\<rparr>"
  have inv: "db_inv (su_db s2)" using s2(2) by (simp add: sup_rows_def)
  have "sup_rows s3" unfolding sup_rows_def
  proof (intro conjI allI impI)
    show "db_inv (su_db s3)" using db_inv_owners_delete [OF inv] by (simp add: s3_def)
    fix q t assume t: "task s3 q = Some t"
    then have "q \<noteq> pk" using s2(3) by (auto simp: s3_def)
    then show "\<exists>row. owners_get q (su_db s3) = Some row \<and> po_local_port row = ot_port t"
      using t s2(2) owners_delete_get [OF inv, of q pk] by (simp add: s3_def sup_rows_def)
  qed
  moreover have "sup_shape s3" using s2(1) by (simp add: s3_def)
  moreover have "unpair_owner x cfg e pk s =
      (if \<not> sn_get e 0 then (Inl Pool_exhausted, s2)
       else if \<not> sn_joined e then (Inl (Other_fault ''join''), s3)
       else (Inr (), s3\<lparr>su_fs := filter (\<lambda>(p, _). \<not> (in_dir (x_hex_encode x pk) p \<and> sn_rmdir e p)) (su_fs s3)\<rparr>))"
    by (simp add: unpair_owner_def Let_def s2_def s3_def)
  ultimately show ?thesis using s2(1,2) by simp
qed

lemma restore_loop_ok:
  assumes "sup_shape s" "sup_rows s" "distinct (map po_pubkey rows)" "\<And>row. row \<in> set rows \<Longrightarrow> owners_get (po_pubkey row) (su_db s) = Some row"
    and "\<And>row. row \<in> set rows \<Longrightarrow> task s (po_pubkey row) = None"
  shows "sup_shape (restore_loop x e rows s) \<and> sup_rows (restore_loop x e rows s) \<and> su_db (restore_loop x e rows s) = su_db s"
  using assms
proof (induction rows arbitrary: s)
  case (Cons row rows)
  define s1 where "s1 = (case to_pubkey (po_pubkey row) of None \<Rightarrow> s | Some pubkey \<Rightarrow> snd (launch_owner x e pubkey (po_local_port row) s))"
  have r: "owners_get (po_pubkey row) (su_db s) = Some row" "task s (po_pubkey row) = None" using Cons.prems(4,5) by simp_all
  have s1: "sup_shape s1" "sup_rows s1" "su_db s1 = su_db s"
    using Cons.prems(1,2) launch_shape [OF Cons.prems(1) r(2)] rows_launch [OF Cons.prems(2) r(2,1) refl] launch_sel(1)
    by (auto simp: s1_def to_pubkey_def)
  have t: "task s1 (po_pubkey q) = None" if "q \<in> set rows" for q
  proof -
    have "po_pubkey q \<noteq> po_pubkey row" using that Cons.prems(3) by (auto simp: image_iff)
    then show ?thesis using Cons.prems(5) [of q] that launch_sel(4) by (auto simp: s1_def to_pubkey_def)
  qed
  have "sup_shape (restore_loop x e rows s1) \<and> sup_rows (restore_loop x e rows s1) \<and> su_db (restore_loop x e rows s1) = su_db s1"
    by (rule Cons.IH) (use s1 t Cons.prems(3,4) in auto)
  then show ?case using s1(3) by (simp add: s1_def)
qed simp

lemma owners_list_get:
  assumes "db_inv db"
  shows "distinct (map po_pubkey (owners_list db))" "row \<in> set (owners_list db) \<Longrightarrow> owners_get (po_pubkey row) db = Some row"
proof -
  have k: "distinct (map po_pubkey (d_owners db))" using assms by (simp add: db_inv_def tbl_keys_def)
  then show "distinct (map po_pubkey (owners_list db))" by (simp add: owners_list_def distinct_map inj_on_def)
  assume "row \<in> set (owners_list db)"
  then have "row \<in> set (d_owners db)" by (simp add: owners_list_def)
  then show "owners_get (po_pubkey row) db = Some row" using k by (simp add: owners_get_def tbl_find_Some tbl_keys_def)
qed

lemma restore_all_ok:
  assumes "sup_shape s" "sup_rows s" "su_owners s = []"
  shows "sup_shape (snd (restore_all x e s)) \<and> sup_rows (snd (restore_all x e s))"
proof -
  have d: "db_inv (su_db s)" using assms(2) by (simp add: sup_rows_def)
  show ?thesis
    using restore_loop_ok [OF assms(1,2) owners_list_get [OF d]] assms by (simp add: restore_all_def)
qed

text \<open>
  A step of the supervisor. \<open>sp_pair\<close> leaves out the failure of the third use of the database
  (see \<open>pair_owner_orphan\<close>); \<open>sp_data\<close> is any request of the routers, which leave the owners
  alone.
\<close>

inductive sup_step :: "ext \<Rightarrow> sup_cfg \<Rightarrow> sup \<Rightarrow> sup \<Rightarrow> bool" for x cfg where
  sp_pair: "sn_get e 2 \<Longrightarrow> sup_step x cfg s (snd (pair_owner x cfg e pk label s))"
| sp_unpair: "sup_step x cfg s (snd (unpair_owner x cfg e pk s))"
| sp_dispatch: "sup_step x cfg s (unpair_dispatch x cfg e s)"
| sp_serve: "sup_step x cfg s (serve_event_of pk ev s)"
| sp_hook: "sup_step x cfg s (unpair_hook pk s)"
| sp_register: "sup_step x cfg s (registrar cfg pk slots s)"
| sp_restore: "su_owners s = [] \<Longrightarrow> sup_step x cfg s (snd (restore_all x e s))"
| sp_shutdown: "sup_step x cfg s (shutdown_all s)"
| sp_data: "db_inv db' \<Longrightarrow> d_owners db' = d_owners (su_db s) \<Longrightarrow> sup_step x cfg s (s\<lparr>su_db := db', su_fs := fs'\<rparr>)"

lemma stop_all_ok:
  "sup_shape s \<Longrightarrow> sup_rows s \<Longrightarrow> sup_shape (fold (\<lambda>(pk, _). stop_owner pk) ts s) \<and> sup_rows (fold (\<lambda>(pk, _). stop_owner pk) ts s)"
  by (induction ts arbitrary: s) (auto simp: stop_shape rows_stop)

lemma sup_step_ok:
  assumes "sup_step x cfg s s'" "sup_shape s \<and> sup_rows s"
  shows "sup_shape s' \<and> sup_rows s'"
  using assms
proof cases
  case (sp_pair e pk label)
  then show ?thesis using pair_owner_ok assms(2) by simp
next
  case (sp_unpair e pk)
  then show ?thesis using unpair_owner_ok assms(2) by simp
next
  case (sp_dispatch e)
  then show ?thesis using unpair_owner_ok [of "s\<lparr>su_unpairs := tl (su_unpairs s)\<rparr>" x cfg e "hd (su_unpairs s)"] assms(2)
    by (auto simp: unpair_dispatch_def split: list.splits)
next
  case (sp_serve pk ev)
  have "sup_rows (serve_event_of pk ev s)"
    using assms(2) unfolding sup_rows_def serve_event_sel by auto
  then show ?thesis using sp_serve serve_event_shape assms(2) by simp
next
  case (sp_restore e)
  then show ?thesis using restore_all_ok assms(2) by simp
next
  case sp_shutdown
  then show ?thesis using stop_all_ok [of s "su_owners s"] assms(2) by (simp add: shutdown_all_def)
next
  case (sp_data db' fs')
  then show ?thesis using assms(2) by (simp add: sup_rows_def sup_shape_def owners_get_def)
qed (use assms(2) in \<open>auto simp: unpair_hook_def registrar_def\<close>)

lemma sup_reach_ok:
  assumes "(sup_step x cfg)\<^sup>*\<^sup>* (supervisor_new db fs) s" "db_inv db"
  shows "sup_shape s \<and> sup_rows s"
  using assms(1)
proof (induction rule: rtranclp_induct)
  case base
  then show ?case using assms(2) by (simp add: supervisor_new_def sup_shape_def sup_rows_def running_def)
next
  case (step s s')
  then show ?case using sup_step_ok by blast
qed


section \<open>What pairing, unpairing and restoring do\<close>


text \<open>
  A failed checkout after the launch leaves a task that no row accounts for: the onion is
  published and its listener holds the port that the allocator hands out next, so that every
  later pairing of a new Owner fails, whoever asks and whatever the environment does, until the
  task is stopped.
\<close>
theorem pair_owner_orphan:
  assumes "owners_get pk (su_db s) = None" "sn_get e 0" "sn_get e 1" "\<not> sn_get e 2"
    and "lowest_free_port (fst (sg_port_range cfg)) (snd (sg_port_range cfg)) (used_ports (su_db s)) = Some port"
    and "launch_owner x e pk port s = (Inr a, s1)" and "pair_owner x cfg e pk label s = (r, s')"
  shows "r = Inl Pool_exhausted \<and> task s' pk \<noteq> None \<and> owners_get pk (su_db s') = None \<and>
    (\<forall>e' q label'. owners_get q (su_db s') = None \<longrightarrow> (\<exists>err. pair_owner x cfg e' q label' s' = (Inl err, s')))"
proof -
  have s': "r = Inl Pool_exhausted" "s' = s1" using assms by (simp_all add: pair_owner_def Let_def)
  have sel: "su_db s1 = su_db s" using launch_sel(1) [of x e pk port s] assms(6) by simp
  obtain t where t: "task s1 pk = Some t" "ot_port t = port" "ot_state t = Listening"
    using launch_sel(5) [of x e pk port s a] assms(6) by auto
  have "port_held port s1" using t map_of_SomeD [OF t(1)] by (force simp: port_held_def all_tasks_def)
  then have held: "\<exists>err. launch_owner x e' q port s1 = (Inl err, s1)" for e' q
    by (auto simp: launch_owner_def Let_def split: option.splits)
  have "\<exists>err. pair_owner x cfg e' q label' s1 = (Inl err, s1)" if "owners_get q (su_db s1) = None" for e' q label'
  proof -
    obtain err where "launch_owner x e' q port s1 = (Inl err, s1)" using held by blast
    then show ?thesis using that assms(5) by (auto simp: pair_owner_def sel)
  qed
  then show ?thesis using s' t sel assms(1) by auto
qed

text \<open>
  C16: Unpairing that succeeds leaves nothing of the Owner: no row, no event, media row or voice
  slot, no task, no file under the Owner's directory that can be removed; the voice loop is told
  to drop the Owner. Everything of the other Owners is as before.
\<close>
theorem unpair_owner_complete:
  assumes "(sup_step x cfg)\<^sup>*\<^sup>* (supervisor_new db fs) s" "db_inv db" "unpair_owner x cfg e pk s = (Inr (), s')"
  shows "owners_get pk (su_db s') = None \<and> events_of pk (su_db s') = [] \<and> media_rows_for_owner pk (su_db s') = [] \<and>
    slots_for_owner pk (su_db s') = [] \<and> task s' pk = None \<and>
    (\<forall>p b. (p, b) \<in> set (su_fs s') \<longleftrightarrow> (p, b) \<in> set (su_fs s) \<and> \<not> (in_dir (x_hex_encode x pk) p \<and> sn_rmdir e p)) \<and>
    su_commands s' = su_commands s @ (if sg_voice cfg = None then [] else [C_DropOwner pk]) \<and>
    (\<forall>q. q \<noteq> pk \<longrightarrow> owners_get q (su_db s') = owners_get q (su_db s) \<and> events_of q (su_db s') = events_of q (su_db s) \<and>
       media_rows_for_owner q (su_db s') = media_rows_for_owner q (su_db s) \<and>
       slots_for_owner q (su_db s') = slots_for_owner q (su_db s) \<and> task s' q = task s q)"
proof -
  have inv: "db_inv (su_db s)" using sup_reach_ok [OF assms(1,2)] by (simp add: sup_rows_def)
  have e: "su_db s' = snd (owners_delete pk (su_db s))" "task s' = (task s)(pk := None)"
    "su_commands s' = su_commands s @ (if sg_voice cfg = None then [] else [C_DropOwner pk])"
    "su_fs s' = filter (\<lambda>(p, _). \<not> (in_dir (x_hex_encode x pk) p \<and> sn_rmdir e p)) (su_fs s)"
    using assms(3) by (auto simp: unpair_owner_def Let_def stop_sel split: if_splits)
  show ?thesis
    using owners_delete_cascade [OF inv prod.collapse [symmetric], of pk] e by auto
qed

text \<open>Restoring launches every row that can be launched.\<close>

lemma launch_all_tasks:
  assumes "task s pk = None"
  shows "su_detached (snd (launch_owner x e pk port s)) = su_detached s \<and>
    (\<forall>t \<in> set (all_tasks (snd (launch_owner x e pk port s))). t \<in> set (all_tasks s) \<or> ot_port t = port)"
proof (cases rule: launch_cases [where x = x and e = e and pk = pk and port = port and s = s])
  case (yes address)
  then show ?thesis
    using assms update_fresh [OF assms [unfolded fresh_task]] by (auto simp: put_task_def all_tasks_def)
qed simp

lemma restore_loop_launches:
  assumes "\<And>t. t \<in> set (all_tasks s) \<Longrightarrow> ot_port t \<notin> po_local_port ` set rows" "distinct (map po_local_port rows)"
    and "row \<in> set rows" "length (po_pubkey row) = 32" "distinct (map po_pubkey rows)" "su_detached s = []"
    and "\<And>r. r \<in> set rows \<Longrightarrow> task s (po_pubkey r) = None"
    and "sn_launch e (x_hex_encode x (po_pubkey row)) (po_local_port row) = Some a" "sn_port_free e (po_local_port row)"
  shows "\<exists>t. task (restore_loop x e rows s) (po_pubkey row) = Some t \<and> ot_port t = po_local_port row \<and> ot_onion t = a \<and> ot_state t = Listening"
  using assms(1-7)
proof (induction rows arbitrary: s)
  case (Cons r rows)
  define s1 where "s1 = (case to_pubkey (po_pubkey r) of None \<Rightarrow> s | Some pubkey \<Rightarrow> snd (launch_owner x e pubkey (po_local_port r) s))"
  have other: "task s1 q = task s q" if "q \<noteq> po_pubkey r" for q using that launch_sel(4) by (auto simp: s1_def to_pubkey_def)
  have kept: "task (restore_loop x e rows s2) q = task s2 q" if "q \<notin> po_pubkey ` set rows" for s2 q
    using that launch_sel(4) by (induction rows arbitrary: s2) (auto simp: to_pubkey_def)
  show ?case
  proof (cases "row = r")
    case True
    have "\<not> port_held (po_local_port r) s"
      using Cons.prems(1) by (auto simp: port_held_def)
    then have "task s1 (po_pubkey r) = Some \<lparr>ot_onion = a, ot_port = po_local_port r, ot_state = Listening, ot_backoff = SERVE_BACKOFF_MIN\<rparr>"
      using True assms(8,9) Cons.prems(4) by (simp add: s1_def to_pubkey_def launch_owner_def Let_def)
    moreover have "po_pubkey r \<notin> po_pubkey ` set rows" using Cons.prems(5) by simp
    ultimately show ?thesis using kept [of "po_pubkey r" s1] True by (simp add: s1_def)
  next
    case False
    have none: "task s (po_pubkey r) = None" using Cons.prems(7) by simp
    have "\<exists>t. task (restore_loop x e rows s1) (po_pubkey row) = Some t \<and> ot_port t = po_local_port row \<and> ot_onion t = a \<and> ot_state t = Listening"
    proof (rule Cons.IH)
      show "row \<in> set rows" "length (po_pubkey row) = 32" "distinct (map po_local_port rows)" "distinct (map po_pubkey rows)"
        using Cons.prems False by auto
      show "su_detached s1 = []"
        using launch_all_tasks [OF none, of x e "po_local_port r"] Cons.prems(6) by (auto simp: s1_def to_pubkey_def)
      show "ot_port t \<notin> po_local_port ` set rows" if t: "t \<in> set (all_tasks s1)" for t
      proof -
        have "t \<in> set (all_tasks s) \<or> ot_port t = po_local_port r"
          using launch_all_tasks [OF none, of x e "po_local_port r"] t by (auto simp: s1_def to_pubkey_def split: if_splits)
        then show ?thesis using Cons.prems(1) [of t] Cons.prems(2) by auto
      qed
      show "task s1 (po_pubkey q) = None" if "q \<in> set rows" for q
      proof -
        have "po_pubkey q \<noteq> po_pubkey r" using that Cons.prems(5) by (auto simp: image_iff)
        then show ?thesis using other Cons.prems(7) that by simp
      qed
    qed
    then show ?thesis by (simp add: s1_def)
  qed
qed simp

text \<open>
  C18: After a restart every paired Owner whose onion launches and whose port is free is served
  again on its port; a malformed row or an Owner that fails to launch does not keep the others
  from being served.
\<close>
theorem restore_all_serves:
  assumes "db_inv db" "sn_get e 0" "row \<in> set (d_owners db)" "length (po_pubkey row) = 32"
    and "sn_launch e (x_hex_encode x (po_pubkey row)) (po_local_port row) = Some a" "sn_port_free e (po_local_port row)"
  shows "\<exists>s'. restore_all x e (supervisor_new db fs) = (Inr (), s') \<and>
    (\<exists>t. task s' (po_pubkey row) = Some t \<and> ot_port t = po_local_port row \<and> ot_onion t = a \<and> ot_state t = Listening)"
proof -
  have d: "distinct (map po_local_port (owners_list db))" "distinct (map po_pubkey (owners_list db))"
    using assms(1) owners_list_get(1) [OF assms(1)]
    by (simp_all add: db_inv_def tbl_keys_def owners_list_def distinct_map inj_on_def)
  have m: "row \<in> set (owners_list db)" using assms(3) by (simp add: owners_list_def)
  have "\<exists>t. task (restore_loop x e (owners_list db) (supervisor_new db fs)) (po_pubkey row) = Some t \<and>
      ot_port t = po_local_port row \<and> ot_onion t = a \<and> ot_state t = Listening"
    by (rule restore_loop_launches [OF _ d(1) m assms(4) d(2) _ _ assms(5,6)]) (simp_all add: supervisor_new_def all_tasks_def)
  then show ?thesis using assms(2) by (simp add: restore_all_def) (simp add: supervisor_new_def)
qed

section \<open>Examples\<close>

definition ex_sup_env :: sup_env where
  "ex_sup_env = \<lparr>sn_now = 7, sn_get = (\<lambda>_. True), sn_insert_ok = True, sn_launch = (\<lambda>_ _. Some ''abc.onion''),
     sn_port_free = (\<lambda>_. True), sn_rmdir = (\<lambda>_. True), sn_joined = True\<rparr>"

definition ex_sup_cfg :: sup_cfg where
  "ex_sup_cfg = \<lparr>sg_caps = caps_default, sg_admin_onion = ''adm.onion'', sg_port_range = (17000, 17001), sg_voice = Some 8\<rparr>"

definition ex_owner_row :: paired_owner where
  "ex_owner_row = \<lparr>po_pubkey = ex_key, po_label = None, po_paired_at = 7, po_relay_onion_address = ''abc.onion'',
     po_local_port = 17000, po_storage_cap_bytes = None\<rparr>"

definition ex_task :: owner_task where
  "ex_task = \<lparr>ot_onion = ''abc.onion'', ot_port = 17000, ot_state = Listening, ot_backoff = 500\<rparr>"

definition ex_paired :: sup where
  "ex_paired = (supervisor_new (empty_db\<lparr>d_owners := [ex_owner_row]\<rparr>) [])\<lparr>su_owners := [(ex_key, ex_task)], su_serving := 1\<rparr>"

lemmas sup_eval = pair_owner_def launch_owner_def ex_sup_env_def ex_sup_cfg_def supervisor_new_def empty_db_def owners_get_def
  tbl_find_def used_ports_def port_held_def all_tasks_def put_task_def serving_guard_new_def SERVE_BACKOFF_MIN_def Let_def
  owners_insert_def tbl_insert_def ex_paired_def ex_owner_row_def ex_task_def

lemma ex_port: "lowest_free_port 17000 17001 [] = Some 17000"
  by (simp add: lowest_free_port_def port_range_def upt_rec)

lemma ex_pair:
  "pair_owner plain_ext ex_sup_cfg ex_sup_env ex_key None (supervisor_new empty_db []) =
     (Inr (''abc.onion'', relay_id plain_ext ex_key ''abc.onion''), ex_paired)"
  using ex_port by (simp add: sup_eval)

lemma empty_db_inv: "db_inv empty_db"
  by (simp add: db_inv_def empty_db_def tbl_keys_def)

lemma ex_paired_reach: "(sup_step plain_ext ex_sup_cfg)\<^sup>*\<^sup>* (supervisor_new empty_db []) ex_paired"
  using sp_pair [of ex_sup_env plain_ext ex_sup_cfg "supervisor_new empty_db []" ex_key None] ex_pair
  by (simp add: ex_sup_env_def)



definition ex_fail_env :: sup_env where
  "ex_fail_env = ex_sup_env\<lparr>sn_get := (\<lambda>k. k < 2)\<rparr>"

definition ex_orphan :: sup where
  "ex_orphan = (supervisor_new empty_db [])\<lparr>su_owners := [(ex_key, ex_task)], su_serving := 1\<rparr>"

theorem pair_owner_orphan_witness:
  "pair_owner plain_ext ex_sup_cfg ex_fail_env ex_key None (supervisor_new empty_db []) = (Inl Pool_exhausted, ex_orphan) \<and>
   task ex_orphan ex_key \<noteq> None \<and> (\<exists>err. pair_owner plain_ext ex_sup_cfg ex_sup_env [2] None ex_orphan = (Inl err, ex_orphan))"
proof -
  have p: "pair_owner plain_ext ex_sup_cfg ex_fail_env ex_key None (supervisor_new empty_db []) = (Inl Pool_exhausted, ex_orphan)"
    using ex_port by (simp add: sup_eval ex_fail_env_def ex_orphan_def)
  have l: "launch_owner plain_ext ex_fail_env ex_key 17000 (supervisor_new empty_db []) = (Inr ''abc.onion'', ex_orphan)"
    by (simp add: sup_eval ex_fail_env_def ex_orphan_def)
  have "owners_get ex_key (su_db (supervisor_new empty_db [])) = None" "sn_get ex_fail_env 0" "sn_get ex_fail_env 1" "\<not> sn_get ex_fail_env 2"
    "lowest_free_port (fst (sg_port_range ex_sup_cfg)) (snd (sg_port_range ex_sup_cfg)) (used_ports (su_db (supervisor_new empty_db []))) = Some 17000"
    using ex_port by (simp_all add: sup_eval ex_fail_env_def)
  note orph = pair_owner_orphan [OF this l p]
  have "owners_get [2] (su_db ex_orphan) = None" by (simp add: ex_orphan_def sup_eval)
  then show ?thesis using p orph by blast
qed

theorem unpair_owner_complete_witness:
  "\<exists>s'. unpair_owner plain_ext ex_sup_cfg ex_sup_env ex_key ex_paired = (Inr (), s') \<and>
     owners_get ex_key (su_db s') = None \<and> task s' ex_key = None \<and> su_commands s' = [C_DropOwner ex_key]"
proof -
  obtain s' where s': "unpair_owner plain_ext ex_sup_cfg ex_sup_env ex_key ex_paired = (Inr (), s')"
    by (simp add: unpair_owner_def ex_sup_env_def Let_def)
  have "su_commands ex_paired = []" "sg_voice ex_sup_cfg \<noteq> None" by (simp_all add: ex_paired_def supervisor_new_def ex_sup_cfg_def)
  then show ?thesis using unpair_owner_complete [OF ex_paired_reach empty_db_inv s'] s' by auto
qed

theorem restore_all_serves_witness:
  "\<exists>s' t. restore_all plain_ext ex_sup_env (supervisor_new (empty_db\<lparr>d_owners := [ex_owner_row]\<rparr>) []) = (Inr (), s') \<and>
     task s' ex_key = Some t \<and> ot_port t = 17000 \<and> ot_state t = Listening"
proof -
  have "db_inv (empty_db\<lparr>d_owners := [ex_owner_row]\<rparr>)" by (simp add: db_inv_def empty_db_def tbl_keys_def)
  moreover have "sn_get ex_sup_env 0" "sn_launch ex_sup_env (x_hex_encode plain_ext (po_pubkey ex_owner_row)) (po_local_port ex_owner_row) = Some ''abc.onion''"
    "sn_port_free ex_sup_env (po_local_port ex_owner_row)" by (simp_all add: ex_sup_env_def)
  moreover have "ex_owner_row \<in> set (d_owners (empty_db\<lparr>d_owners := [ex_owner_row]\<rparr>))" "length (po_pubkey ex_owner_row) = 32"
    by (simp_all add: ex_owner_row_def ex_key_def)
  ultimately have "\<exists>s'. restore_all plain_ext ex_sup_env (supervisor_new (empty_db\<lparr>d_owners := [ex_owner_row]\<rparr>) []) = (Inr (), s') \<and>
    (\<exists>t. task s' (po_pubkey ex_owner_row) = Some t \<and> ot_port t = po_local_port ex_owner_row \<and> ot_onion t = ''abc.onion'' \<and> ot_state t = Listening)"
    by (intro restore_all_serves)
  moreover have "po_pubkey ex_owner_row = ex_key" "po_local_port ex_owner_row = 17000" by (simp_all add: ex_owner_row_def)
  ultimately show ?thesis by metis
qed

end
