(* ===== verification/Admin.thy ===== *)
theory Admin
  imports Supervisor
begin

text \<open>
  The admin crate (\<open>starling-relay-admin/src/lib.rs\<close>) and the control socket
  (\<open>starling-relay/src/admin_sock.rs\<close>): minting of pairing tokens, the admin pages with their
  password check, the onion-facing \<open>POST /pair\<close>.

  The crate reaches the supervisor through the trait \<open>RelayControl\<close>, here the record
  \<open>control\<close> over a state \<open>'s\<close> that also holds the shared database. Argon2, the QR encoder, the
  URL-safe base64 encoder, JSON and the template engine are parameters; a page is given by
  the fields its template is rendered with.
\<close>

section \<open>Parameters\<close>

record 's control =
  ct_admin_onion :: str
  ct_pair_owner :: "bytes \<Rightarrow> str option \<Rightarrow> 's \<Rightarrow> (str \<times> str) res \<times> 's"
  ct_unpair_owner :: "bytes \<Rightarrow> 's \<Rightarrow> unit res \<times> 's"
  ct_liveness :: "'s \<Rightarrow> (nat \<times> nat) option"
  ct_voice_overview :: "'s \<Rightarrow> (bytes \<times> nat) list option"
  ct_db :: "'s \<Rightarrow> db"
  ct_put_db :: "db \<Rightarrow> 's \<Rightarrow> 's"

record adm_ext =
  ax_phc :: "str \<Rightarrow> bool"
  ax_argon2 :: "str \<Rightarrow> str \<Rightarrow> bool"
  ax_b64url :: "bytes \<Rightarrow> str"
  ax_qr :: "str \<Rightarrow> str option"
  ax_render_ok :: bool

text \<open>
  The clock, the random token, and which steps succeed: \<open>ae_creds_pool\<close> is the checkout of the
  password check, \<open>ae_pool\<close> the one of the handler.
\<close>

record admin_env =
  ae_now :: int
  ae_instant :: rat
  ae_token :: bytes
  ae_creds_pool :: bool
  ae_pool :: bool
  ae_prune_ok :: bool
  ae_commit_ok :: bool
  ae_join_ok :: bool

record admin_cfg =
  ag_relay_version :: str
  ag_pairing_ttl_secs :: int

section \<open>Minting\<close>

record minted_token =
  mt_token :: bytes
  mt_pair_url :: str
  mt_expires_at :: int

definition mint_pairing_token ::
  "ext \<Rightarrow> adm_ext \<Rightarrow> admin_env \<Rightarrow> str \<Rightarrow> str \<Rightarrow> str option \<Rightarrow> int \<Rightarrow> str \<Rightarrow> db \<Rightarrow> (minted_token \<times> db) res" where
  "mint_pairing_token x ax e admin_onion relay_version label ttl_secs created_by db =
     (let token = ae_token e; now = ae_now e; expires_at = i64_wrap (now + ttl_secs);
          db1 = (if ae_prune_ok e then snd (prune_expired now db) else db);
          db2 = snd (consume_all_unconsumed now db1);
          row = \<lparr>pp_token = token, pp_created_at = now, pp_expires_at = expires_at, pp_consumed_at = None,
                 pp_created_by = created_by, pp_label = label\<rparr>
      in res_bind (pairings_insert row db2) (\<lambda>db3.
           if \<not> ae_commit_ok e then Inl (Other_fault ''commit'')
           else
             let card = \<lparr>qr_relay_onion = admin_onion, qr_pairing_token = token, qr_relay_version = relay_version\<rparr>;
                 b64 = ax_b64url ax (x_into_writer x (relay_qr_card_to_cbor card))
             in Inr (\<lparr>mt_token = token, mt_pair_url = ''starling-relay://pair?card='' @ b64, mt_expires_at = expires_at\<rparr>, db3)))"

section \<open>Passwords\<close>

text \<open>\<open>String::from_utf8\<close>: the well-formed byte sequences of UTF-8.\<close>

definition cont :: "nat \<Rightarrow> bool" where
  "cont b \<longleftrightarrow> 0x80 \<le> b \<and> b \<le> 0xBF"

fun utf8_ok :: "nat list \<Rightarrow> bool" where
  "utf8_ok [] = True"
| "utf8_ok (a # bs) =
     (if a < 0x80 then utf8_ok bs
      else case bs of
        [] \<Rightarrow> False
      | b # cs \<Rightarrow>
          if 0xC2 \<le> a \<and> a \<le> 0xDF then cont b \<and> utf8_ok cs
          else case cs of
            [] \<Rightarrow> False
          | c # ds \<Rightarrow>
              if 0xE0 \<le> a \<and> a \<le> 0xEF
              then cont b \<and> (a = 0xE0 \<longrightarrow> 0xA0 \<le> b) \<and> (a = 0xED \<longrightarrow> b \<le> 0x9F) \<and> cont c \<and> utf8_ok ds
              else case ds of
                [] \<Rightarrow> False
              | d # es \<Rightarrow>
                  0xF0 \<le> a \<and> a \<le> 0xF4 \<and> cont b \<and> (a = 0xF0 \<longrightarrow> 0x90 \<le> b) \<and> (a = 0xF4 \<longrightarrow> b \<le> 0x8F) \<and>
                  cont c \<and> cont d \<and> utf8_ok es)"

definition from_utf8 :: "bytes \<Rightarrow> str option" where
  "from_utf8 bs = (if utf8_ok (map unat bs) then Some (map byte_char bs) else None)"

definition verify_password :: "adm_ext \<Rightarrow> str \<Rightarrow> str \<Rightarrow> bool" where
  "verify_password ax password stored_hash = (ax_phc ax stored_hash \<and> ax_argon2 ax password stored_hash)"

definition ascii_lower :: "char \<Rightarrow> char" where
  "ascii_lower c = (if CHR ''A'' \<le> c \<and> c \<le> CHR ''Z'' then char_of ((of_char c :: nat) + 32) else c)"

definition cross_site :: "headers \<Rightarrow> bool" where
  "cross_site hs =
     (case header_str hs ''sec-fetch-site'' of None \<Rightarrow> False | Some v \<Rightarrow> map ascii_lower v = ''cross-site'')"

definition csrf_ok :: "headers \<Rightarrow> bool" where
  "csrf_ok hs \<longleftrightarrow> map_of hs ''x-starling-csrf'' \<noteq> None \<and> \<not> cross_site hs"

type_synonym auth_cache = "(str \<times> bytes) option"

definition verify_with_cache :: "ext \<Rightarrow> adm_ext \<Rightarrow> admin_env \<Rightarrow> str \<Rightarrow> str \<Rightarrow> auth_cache \<Rightarrow> bool \<times> auth_cache" where
  "verify_with_cache x ax e password stored_hash cache =
     (let digest = blake2b256 x (as_bytes password);
          hit = (case cache of None \<Rightarrow> False | Some (phc, cached) \<Rightarrow> phc = stored_hash \<and> digest = cached)
      in if hit then (True, cache)
         else
           let ok = (ae_join_ok e \<and> verify_password ax password stored_hash)
           in (ok, if ok then Some (stored_hash, digest) else cache))"

definition strip_prefix :: "str \<Rightarrow> str \<Rightarrow> str option" where
  "strip_prefix p s = (if take (length p) s = p then Some (drop (length p) s) else None)"

definition supplied_password :: "ext \<Rightarrow> headers \<Rightarrow> str option" where
  "supplied_password x hs = do {
     v \<leftarrow> header_str hs ''authorization'';
     b64 \<leftarrow> strip_prefix ''Basic '' v;
     raw \<leftarrow> x_b64_decode x b64;
     pair \<leftarrow> from_utf8 raw;
     map_option snd (split_once (CHR '':'') pair) }"

section \<open>Replies\<close>

record owner_view =
  ov_pubkey_short :: str
  ov_label :: str
  ov_onion :: str
  ov_event_count :: int
  ov_media_used :: int
  ov_voice :: str
  ov_pubkey_hex :: str

datatype admin_reply =
    AP response
  | AP_index "owner_view list" str
  | AP_pair str str int nat
  | AP_health str nat "(nat \<times> bool) option"
  | AP_owners "(str \<times> str option \<times> str \<times> int) list"

fun reply_status :: "admin_reply \<Rightarrow> nat" where
  "reply_status (AP r) = rs_status r"
| "reply_status _ = 200"

text \<open>The state of the admin routers: the control's state, the password cache, the limiter.\<close>

record 's admin =
  am_state :: 's
  am_cache :: auth_cache
  am_bucket :: bucket

definition unauthorized :: response where
  "unauthorized =
     \<lparr>rs_status = 401, rs_headers = [(''www-authenticate'', ''Basic realm=\"Starling Relay\"'')],
      rs_body = B_text ''authentication required''\<rparr>"

definition basic_auth_mw ::
  "ext \<Rightarrow> adm_ext \<Rightarrow> admin_env \<Rightarrow> 's control \<Rightarrow> headers \<Rightarrow> ('s admin \<Rightarrow> admin_reply \<times> 's admin) \<Rightarrow>
   's admin \<Rightarrow> admin_reply \<times> 's admin" where
  "basic_auth_mw x ax e ct hs next_run st =
     (let stored = (if ae_creds_pool e then creds_get (ct_db ct (am_state st)) else None)
      in case stored of
           None \<Rightarrow> next_run st
         | Some creds \<Rightarrow>
             (case (case supplied_password x hs of
                      Some password \<Rightarrow> verify_with_cache x ax e password (ac_password_hash creds) (am_cache st)
                    | None \<Rightarrow> (False, am_cache st)) of
                (verified, cache') \<Rightarrow>
                  let st' = st\<lparr>am_cache := cache'\<rparr>
                  in if verified then next_run st' else (AP unauthorized, st')))"

section \<open>Handlers\<close>

definition res_or :: "'a \<Rightarrow> 'a res \<Rightarrow> 'a" where
  "res_or d r = (case r of Inl _ \<Rightarrow> d | Inr a \<Rightarrow> a)"

definition voice_cell :: "(bytes \<times> nat) list option \<Rightarrow> bytes \<Rightarrow> db \<Rightarrow> str" where
  "voice_cell voice_calls pubkey db =
     (case voice_calls of
        None \<Rightarrow> ''off''
      | Some calls \<Rightarrow>
          (let slots = slots_count_for_owner pubkey db;
               active = (case Option.bind (to_pubkey pubkey) (map_of calls) of None \<Rightarrow> 0 | Some n \<Rightarrow> n)
           in ''on ('' @ show_int slots @ '' slots, '' @ show_nat active @ '' active calls)''))"

definition load_owner_views :: "ext \<Rightarrow> (bytes \<times> nat) list option \<Rightarrow> db \<Rightarrow> owner_view list" where
  "load_owner_views x voice_calls db =
     map (\<lambda>ow.
       let pk32 = crockford_base32_encode (po_pubkey ow);
           short = rev (take 8 (rev pk32))
       in \<lparr>ov_pubkey_short = [CHR 0xE2, CHR 0x80, CHR 0xA6] @ short,
           ov_label = (case po_label ow of None \<Rightarrow> [] | Some l \<Rightarrow> l), ov_onion = po_relay_onion_address ow,
           ov_event_count = events_count (po_pubkey ow) db,
           ov_media_used = res_or 0 (media_total_bytes (po_pubkey ow) db),
           ov_voice = voice_cell voice_calls (po_pubkey ow) db, ov_pubkey_hex = x_hex_encode x (po_pubkey ow)\<rparr>)
       (owners_list db)"

definition index_page ::
  "ext \<Rightarrow> adm_ext \<Rightarrow> admin_env \<Rightarrow> admin_cfg \<Rightarrow> 's control \<Rightarrow> 's admin \<Rightarrow> admin_reply \<times> 's admin" where
  "index_page x ax e cfg ct st =
     (let voice_calls = ct_voice_overview ct (am_state st)
      in if \<not> ae_pool e then (AP (internal Pool_exhausted), st)
         else if \<not> ax_render_ok ax then (AP (internal (Other_fault ''render'')), st)
         else (AP_index (load_owner_views x voice_calls (ct_db ct (am_state st))) (ag_relay_version cfg), st))"

definition pair_page ::
  "ext \<Rightarrow> adm_ext \<Rightarrow> admin_env \<Rightarrow> admin_cfg \<Rightarrow> 's control \<Rightarrow> headers \<Rightarrow> 's admin \<Rightarrow> admin_reply \<times> 's admin" where
  "pair_page x ax e cfg ct hs st =
     (if cross_site hs then (AP (plain 403 ''cross-site request rejected''), st)
      else
        case db_run (ae_pool e)
               (\<lambda>db. res_bind (mint_pairing_token x ax e (ct_admin_onion ct) (ag_relay_version cfg) None
                       (ag_pairing_ttl_secs cfg) ''web'' db)
                     (\<lambda>(minted, db'). Inr ((minted, length (owners_list db')), db')))
               (ct_db ct (am_state st)) of
          (Inl err, _) \<Rightarrow> (AP (internal err), st)
        | (Inr (minted, owner_count), db') \<Rightarrow>
            let st' = st\<lparr>am_state := ct_put_db ct db' (am_state st)\<rparr>
            in case ax_qr ax (mt_pair_url minted) of
                 None \<Rightarrow> (AP (internal (Other_fault ''qr encode'')), st')
               | Some qr_svg \<Rightarrow>
                   if \<not> ax_render_ok ax then (AP (internal (Other_fault ''render'')), st')
                   else (AP_pair qr_svg (mt_pair_url minted) (ag_pairing_ttl_secs cfg) owner_count, st'))"

definition health :: "admin_env \<Rightarrow> admin_cfg \<Rightarrow> 's control \<Rightarrow> 's admin \<Rightarrow> admin_reply \<times> 's admin" where
  "health e cfg ct st =
     (let owner_count = (if ae_pool e then length (owners_list (ct_db ct (am_state st))) else 0)
      in (AP_health (ag_relay_version cfg) owner_count
            (map_option (\<lambda>(serving, total). (serving, serving < total)) (ct_liveness ct (am_state st))), st))"

definition api_owners :: "admin_env \<Rightarrow> 's control \<Rightarrow> 's admin \<Rightarrow> admin_reply \<times> 's admin" where
  "api_owners e ct st =
     (if \<not> ae_pool e then (AP (internal Pool_exhausted), st)
      else
        let db = ct_db ct (am_state st)
        in (AP_owners (map (\<lambda>ow. (crockford_base32_encode (po_pubkey ow), po_label ow, po_relay_onion_address ow,
                                  events_count (po_pubkey ow) db)) (owners_list db)), st))"

definition decode_hex32 :: "ext \<Rightarrow> str \<Rightarrow> bytes option" where
  "decode_hex32 x s = Option.bind (x_hex_decode x s) to_pubkey"

definition api_unpair :: "ext \<Rightarrow> 's control \<Rightarrow> str \<Rightarrow> headers \<Rightarrow> 's admin \<Rightarrow> admin_reply \<times> 's admin" where
  "api_unpair x ct pubkey_hex hs st =
     (if \<not> csrf_ok hs then (AP (plain 403 ''csrf check failed''), st)
      else case decode_hex32 x pubkey_hex of
             None \<Rightarrow> (AP (plain 400 ''bad pubkey''), st)
           | Some pk \<Rightarrow>
               (case ct_unpair_owner ct pk (am_state st) of
                  (Inr _, s') \<Rightarrow> (AP (status_only 204), st\<lparr>am_state := s'\<rparr>)
                | (Inl err, s') \<Rightarrow> (AP (internal err), st\<lparr>am_state := s'\<rparr>)))"

datatype token_outcome = Proceed "str option" | Reject nat str

definition claim_token :: "admin_env \<Rightarrow> bytes \<Rightarrow> bytes \<Rightarrow> db \<Rightarrow> (token_outcome \<times> db) res" where
  "claim_token e pubkey token db =
     (if owners_get pubkey db \<noteq> None then Inr (Proceed None, db)
      else case pairings_get token db of
             None \<Rightarrow> Inr (Reject 401 ''unknown token'', db)
           | Some pending \<Rightarrow>
               if pp_expires_at pending < ae_now e then Inr (Reject 410 ''token expired'', db)
               else
                 let (n, db') = mark_consumed token (ae_now e) db
                 in if n = 1 then Inr (Proceed (pp_label pending), db')
                    else Inr (Reject 409 ''token already used'', db'))"

definition pair_post ::
  "ext \<Rightarrow> admin_env \<Rightarrow> 's control \<Rightarrow> bytes \<Rightarrow> 's admin \<Rightarrow> admin_reply \<times> 's admin" where
  "pair_post x e ct body st =
     (case Option.bind (x_from_reader x body) (pairing_claim_from_cbor (x_leaf x)) of
        None \<Rightarrow> (AP (plain 400 ''malformed claim cbor''), st)
      | Some claim \<Rightarrow>
     (case x_b64_decode x (pc_owner_pubkey claim) of
        None \<Rightarrow> (AP (plain 400 ''bad owner_pubkey base64''), st)
      | Some raw \<Rightarrow>
     (case to_pubkey raw of
        None \<Rightarrow> (AP (plain 400 ''owner_pubkey not 32 bytes''), st)
      | Some pubkey \<Rightarrow>
          let digest = compute_pair_claim x pubkey (ct_admin_onion ct) (pc_pairing_token claim)
          in if \<not> verify_ed25519 x pubkey digest (pc_sig claim) then (AP (plain 401 ''invalid signature''), st)
             else
               case db_run (ae_pool e) (claim_token e pubkey (pc_pairing_token claim)) (ct_db ct (am_state st)) of
                 (Inl err, _) \<Rightarrow> (AP (internal err), st)
               | (Inr (Reject code msg), db') \<Rightarrow> (AP (plain code msg), st\<lparr>am_state := ct_put_db ct db' (am_state st)\<rparr>)
               | (Inr (Proceed label), db') \<Rightarrow>
                   (case ct_pair_owner ct pubkey label (ct_put_db ct db' (am_state st)) of
                      (Inr (relay_onion, rid), s') \<Rightarrow>
                        (AP (cbor_ok (x_into_writer x (pair_response_to_cbor \<lparr>pr_relay_onion = relay_onion, pr_relay_id = rid\<rparr>))),
                         st\<lparr>am_state := s'\<rparr>)
                    | (Inl err, s') \<Rightarrow> (AP (plain 504 ''could not launch onion''), st\<lparr>am_state := s'\<rparr>)))))"

section \<open>Routers\<close>

datatype admin_route = A_index | A_pair_page | A_health | A_owners | A_unpair str | A_bad_method

definition unpair_segment :: "str \<Rightarrow> str option" where
  "unpair_segment path =
     (case strip_prefix ''/api/unpair/'' path of
        None \<Rightarrow> None
      | Some seg \<Rightarrow> if seg \<noteq> [] \<and> CHR ''/'' \<notin> set seg then Some seg else None)"

definition admin_route :: "str \<Rightarrow> str \<Rightarrow> admin_route option" where
  "admin_route method path =
     (let get = (method = ''GET'' \<or> method = ''HEAD'')
      in if path = ''/'' then Some (if get then A_index else A_bad_method)
         else if path = ''/pair'' then Some (if get then A_pair_page else A_bad_method)
         else if path = ''/health'' then Some (if get then A_health else A_bad_method)
         else if path = ''/api/owners'' then Some (if get then A_owners else A_bad_method)
         else map_option (\<lambda>seg. if method = ''POST'' then A_unpair seg else A_bad_method) (unpair_segment path))"

definition admin_dispatch ::
  "ext \<Rightarrow> adm_ext \<Rightarrow> admin_env \<Rightarrow> admin_cfg \<Rightarrow> 's control \<Rightarrow> request \<Rightarrow> admin_route \<Rightarrow> 's admin \<Rightarrow> admin_reply \<times> 's admin" where
  "admin_dispatch x ax e cfg ct rq r st =
     (case r of
        A_index \<Rightarrow> index_page x ax e cfg ct st
      | A_pair_page \<Rightarrow> pair_page x ax e cfg ct (rq_headers rq) st
      | A_health \<Rightarrow> health e cfg ct st
      | A_owners \<Rightarrow> api_owners e ct st
      | A_unpair seg \<Rightarrow>
          (case rq_param rq seg of
             None \<Rightarrow> (AP (plain 400 ''Invalid URL''), st)
           | Some hex \<Rightarrow> api_unpair x ct hex (rq_headers rq) st)
      | A_bad_method \<Rightarrow> (AP (status_only 405), st))"

definition limited :: "admin_env \<Rightarrow> ('s admin \<Rightarrow> admin_reply \<times> 's admin) \<Rightarrow> 's admin \<Rightarrow> admin_reply \<times> 's admin" where
  "limited e k st =
     (case try_acquire_at (ae_instant e) (am_bucket st) of
        (None, b) \<Rightarrow> k (st\<lparr>am_bucket := b\<rparr>)
      | (Some retry_after, b) \<Rightarrow>
          (AP \<lparr>rs_status = 429, rs_headers = [(''retry-after'', show_nat retry_after)], rs_body = B_text ''rate limited''\<rparr>,
           st\<lparr>am_bucket := b\<rparr>))"

definition admin_ui_new :: "rat \<Rightarrow> 's \<Rightarrow> 's admin" where
  "admin_ui_new now s = \<lparr>am_state = s, am_cache = None, am_bucket = per_minute 120 30 now\<rparr>"

definition admin_ui_router ::
  "ext \<Rightarrow> adm_ext \<Rightarrow> admin_env \<Rightarrow> admin_cfg \<Rightarrow> 's control \<Rightarrow> request \<Rightarrow> 's admin \<Rightarrow> admin_reply \<times> 's admin" where
  "admin_ui_router x ax e cfg ct rq =
     limited e (\<lambda>st.
       case admin_route (rq_method rq) (rq_path rq) of
         None \<Rightarrow> (AP (status_only 404), st)
       | Some r \<Rightarrow> basic_auth_mw x ax e ct (rq_headers rq) (admin_dispatch x ax e cfg ct rq r) st)"

definition PAIR_BODY_LIMIT :: nat where "PAIR_BODY_LIMIT = 2097152"

definition pair_router_new :: "rat \<Rightarrow> 's \<Rightarrow> 's admin" where
  "pair_router_new now s = \<lparr>am_state = s, am_cache = None, am_bucket = per_minute 10 5 now\<rparr>"

definition pair_router :: "ext \<Rightarrow> admin_env \<Rightarrow> 's control \<Rightarrow> request \<Rightarrow> 's admin \<Rightarrow> admin_reply \<times> 's admin" where
  "pair_router x e ct rq =
     limited e (\<lambda>st.
       if rq_path rq \<noteq> ''/pair'' then (AP (status_only 404), st)
       else if rq_method rq \<noteq> ''POST'' then (AP (status_only 405), st)
       else if PAIR_BODY_LIMIT < length (rq_body rq) then (AP (plain 413 ''length limit exceeded''), st)
       else pair_post x e ct (rq_body rq) st)"

section \<open>\<open>admin_sock.rs\<close>\<close>

datatype sock_request = Sock_Pair "str option"

datatype sock_response = Sock_Ok str int | Sock_Error fault

text \<open>One connection: \<open>parse\<close> is the JSON parser for a request line.\<close>

definition handle_conn ::
  "ext \<Rightarrow> adm_ext \<Rightarrow> admin_env \<Rightarrow> (str \<Rightarrow> sock_request option) \<Rightarrow> str \<Rightarrow> str \<Rightarrow> int \<Rightarrow> str \<Rightarrow> db \<Rightarrow> sock_response \<times> db" where
  "handle_conn x ax e parse admin_onion relay_version ttl_secs line db =
     (case parse (trim line) of
        Some (Sock_Pair label) \<Rightarrow>
          (case db_run (ae_pool e) (mint_pairing_token x ax e admin_onion relay_version label ttl_secs ''cli'') db of
             (Inr m, db') \<Rightarrow> (Sock_Ok (mt_pair_url m) (mt_expires_at m), db')
           | (Inl err, db') \<Rightarrow> (Sock_Error err, db'))
      | None \<Rightarrow> (Sock_Error (Other_fault ''bad request''), db))"

section \<open>The supervisor as the control\<close>

definition supervisor_control ::
  "ext \<Rightarrow> sup_cfg \<Rightarrow> sup_env \<Rightarrow> (bytes \<times> nat) list \<Rightarrow> sup control" where
  "supervisor_control x cfg e calls =
     \<lparr>ct_admin_onion = sg_admin_onion cfg, ct_pair_owner = pair_owner x cfg e, ct_unpair_owner = unpair_owner x cfg e,
      ct_liveness = (\<lambda>s. Some (liveness s)),
      ct_voice_overview = (\<lambda>s. if sg_voice cfg = None then None else Some calls),
      ct_db = su_db, ct_put_db = (\<lambda>db s. s\<lparr>su_db := db\<rparr>)\<rparr>"

end
