(* ===== verification/VoiceInv.thy ===== *)
theory VoiceInv
  imports Voice
begin

text \<open>
  The invariant of the voice loop (\<open>sv_ok\<close>: rosters and sessions agree, calls keep within
  their caps, m-lines and queues name participants of the same call), and that every handler
  of \<open>Voice\<close> keeps it and does not panic, a join to a closed channel apart.
\<close>

section \<open>The invariant\<close>

abbreviation sess :: "('r, 'p) server \<Rightarrow> nat \<Rightarrow> ('r, 'p) session option" where
  "sess sv \<equiv> map_of (sv_sessions sv)"

abbreviation callm :: "('r, 'p) server \<Rightarrow> call_key \<Rightarrow> call option" where
  "callm sv \<equiv> map_of (sv_calls sv)"

text \<open>
  The sources a session may know: the other participants of its call.
\<close>

definition peers :: "(call_key \<Rightarrow> call option) \<Rightarrow> nat \<Rightarrow> ('r, 'p) session \<Rightarrow> nat set" where
  "peers cs sid s =
     (case Option.bind (ss_call_key s) cs of None \<Rightarrow> {} | Some c \<Rightarrow> set (ca_participants c) - {sid})"

definition sess_ok :: "(call_key \<Rightarrow> call option) \<Rightarrow> nat \<Rightarrow> ('r, 'p) session \<Rightarrow> bool" where
  "sess_ok cs sid s \<longleftrightarrow>
     (ss_call_key s = None \<longleftrightarrow> ss_state s = AwaitingJoin) \<and>
     (ss_call_key s \<noteq> None \<longrightarrow> ss_rtc s \<noteq> None) \<and>
     (\<forall>key. ss_call_key s = Some key \<longrightarrow> fst key = ss_owner s \<and> (\<exists>c. cs key = Some c \<and> sid \<in> set (ca_participants c))) \<and>
     (ss_pending s \<noteq> None \<longrightarrow> ss_state s = Steady) \<and>
     distinct (map fst (ss_tx_slots s)) \<and> fst ` set (ss_tx_slots s) \<subseteq> peers cs sid s \<and>
     fst ` set (ss_queued s) \<subseteq> peers cs sid s \<and>
     (\<forall>(_, slot) \<in> set (ss_tx_slots s). \<not> tx_declared slot \<longrightarrow> ss_pending s \<noteq> None)"

definition call_ok :: "voice_cfg \<Rightarrow> (nat \<Rightarrow> ('r, 'p) session option) \<Rightarrow> call_key \<Rightarrow> call \<Rightarrow> bool" where
  "call_ok cfg ss key c \<longleftrightarrow>
     distinct (ca_participants c) \<and>
     (\<forall>p \<in> set (ca_participants c). \<exists>s. ss p = Some s \<and> ss_call_key s = Some key) \<and>
     (ca_empty_since c = None \<longleftrightarrow> ca_participants c \<noteq> []) \<and>
     length (ca_participants c) \<le> unat (ca_cap c) \<and>
     2 \<le> unat (ca_cap c) \<and> unat (ca_cap c) \<le> max 2 (unat (vg_max_participants cfg))"

definition sv_ok :: "('r, 'p) server \<Rightarrow> bool" where
  "sv_ok sv \<longleftrightarrow>
     distinct (map fst (sv_sessions sv)) \<and> distinct (map fst (sv_calls sv)) \<and>
     (\<forall>sid s. sess sv sid = Some s \<longrightarrow> sid < sv_next_sid sv \<and> sess_ok (callm sv) sid s) \<and>
     (\<forall>key c. callm sv key = Some c \<longrightarrow> call_ok (sv_cfg sv) (sess sv) key c)"

lemmas put_defs = put_session_def put_call_def push_dirty_def

lemma sess_put [simp]:
  "sess (put_session sid s sv) = (sess sv)(sid \<mapsto> s)" "callm (put_session sid s sv) = callm sv"
  "sess (put_call key c sv) = sess sv" "callm (put_call key c sv) = (callm sv)(key \<mapsto> c)"
  "sess (push_dirty sid sv) = sess sv" "callm (push_dirty sid sv) = callm sv"
  by (simp_all add: put_defs update_conv')

lemma put_sel [simp]:
  "sv_next_sid (put_session sid s sv) = sv_next_sid sv" "sv_next_sid (put_call key c sv) = sv_next_sid sv"
  "sv_next_sid (push_dirty sid sv) = sv_next_sid sv"
  "sv_cfg (put_session sid s sv) = sv_cfg sv" "sv_cfg (put_call key c sv) = sv_cfg sv" "sv_cfg (push_dirty sid sv) = sv_cfg sv"
  "sv_registry (put_session sid s sv) = sv_registry sv" "sv_registry (put_call key c sv) = sv_registry sv"
  "sv_registry (push_dirty sid sv) = sv_registry sv"
  "sv_candidates (put_session sid s sv) = sv_candidates sv" "sv_candidates (put_call key c sv) = sv_candidates sv"
  by (simp_all add: put_defs)

lemma put_distinct [simp]:
  "distinct (map fst (sv_sessions sv)) \<Longrightarrow> distinct (map fst (sv_sessions (put_session sid s sv)))"
  "sv_calls (put_session sid s sv) = sv_calls sv" "sv_sessions (put_call key c sv) = sv_sessions sv"
  "distinct (map fst (sv_calls sv)) \<Longrightarrow> distinct (map fst (sv_calls (put_call key c sv)))"
  "sv_sessions (push_dirty sid sv) = sv_sessions sv" "sv_calls (push_dirty sid sv) = sv_calls sv"
  by (simp_all add: put_defs distinct_update)

lemma sv_okD:
  assumes "sv_ok sv"
  shows "distinct (map fst (sv_sessions sv))" "distinct (map fst (sv_calls sv))"
    "sess sv sid = Some s \<Longrightarrow> sid < sv_next_sid sv" "sess sv sid = Some s \<Longrightarrow> sess_ok (callm sv) sid s"
    "callm sv key = Some c \<Longrightarrow> call_ok (sv_cfg sv) (sess sv) key c"
  using assms unfolding sv_ok_def by blast+

lemma sv_okI:
  assumes "distinct (map fst (sv_sessions sv))" "distinct (map fst (sv_calls sv))"
    "\<And>sid s. sess sv sid = Some s \<Longrightarrow> sid < sv_next_sid sv \<and> sess_ok (callm sv) sid s"
    "\<And>key c. callm sv key = Some c \<Longrightarrow> call_ok (sv_cfg sv) (sess sv) key c"
  shows "sv_ok sv"
  using assms by (simp add: sv_ok_def)

lemma sv_ok_dirty [simp]: "sv_ok (push_dirty sid sv) = sv_ok sv" "sv_ok (sv\<lparr>sv_dirty := d\<rparr>) = sv_ok sv"
  "sv_ok (sv\<lparr>sv_sent := l\<rparr>) = sv_ok sv" "sv_ok (sv\<lparr>sv_registry := reg\<rparr>) = sv_ok sv"
  "sv_ok (sv\<lparr>sv_id_counter := n\<rparr>) = sv_ok sv"
  by (simp_all add: sv_ok_def push_dirty_def)

text \<open>Calls depend on a session only through its call key.\<close>

lemma call_ok_cong:
  assumes "call_ok cfg ss key c" "ss sid = Some s" "ss_call_key s' = ss_call_key s"
  shows "call_ok cfg (ss(sid \<mapsto> s')) key c"
  using assms by (auto simp: call_ok_def)

lemma put_session_ok:
  assumes "sv_ok sv" "sess sv sid = Some s" "ss_call_key s' = ss_call_key s" "sess_ok (callm sv) sid s'"
  shows "sv_ok (put_session sid s' sv)"
proof (rule sv_okI)
  fix i t assume "sess (put_session sid s' sv) i = Some t"
  then show "i < sv_next_sid (put_session sid s' sv) \<and> sess_ok (callm (put_session sid s' sv)) i t"
    using assms sv_okD(3,4) [OF assms(1)] by (auto split: if_splits)
next
  fix key c assume "callm (put_session sid s' sv) key = Some c"
  then show "call_ok (sv_cfg (put_session sid s' sv)) (sess (put_session sid s' sv)) key c"
    using call_ok_cong [OF sv_okD(5) [OF assms(1)] assms(2,3)] by simp
qed (use sv_okD(1,2) [OF assms(1)] in simp_all)

text \<open>A change of the channel, the clock, the engine or the id keeps a session in order.\<close>

lemma sess_ok_room [simp]:
  "sess_ok cs sid (s\<lparr>ss_room := n\<rparr>) = sess_ok cs sid s" "sess_ok cs sid (s\<lparr>ss_gone := b\<rparr>) = sess_ok cs sid s"
  "sess_ok cs sid (s\<lparr>ss_next_timeout := t\<rparr>) = sess_ok cs sid s"
  "sess_ok cs sid s \<Longrightarrow> sess_ok cs sid (s\<lparr>ss_rtc := Some r\<rparr>)"
  "sess_ok cs sid (s\<lparr>ss_opus_pt := pt\<rparr>) = sess_ok cs sid s"
  "sess_ok cs sid (s\<lparr>ss_next_ssrc := w\<rparr>) = sess_ok cs sid s"
  by (simp_all add: sess_ok_def peers_def)

lemma peers_sel [simp]:
  "peers cs sid (s\<lparr>ss_room := n\<rparr>) = peers cs sid s" "peers cs sid (s\<lparr>ss_queued := q\<rparr>) = peers cs sid s"
  "peers cs sid (s\<lparr>ss_tx_slots := ts\<rparr>) = peers cs sid s" "peers cs sid (s\<lparr>ss_rtc := r\<rparr>) = peers cs sid s"
  "peers cs sid (s\<lparr>ss_pending := pd\<rparr>) = peers cs sid s" "peers cs sid (s\<lparr>ss_next_ssrc := w\<rparr>) = peers cs sid s"
  "peers cs sid (s\<lparr>ss_state := st\<rparr>) = peers cs sid s" "peers cs sid (s\<lparr>ss_opus_pt := pt\<rparr>) = peers cs sid s"
  by (simp_all add: peers_def)

section \<open>Sending and closing\<close>

lemma try_send_cases:
  obtains (no) "try_send sid f sv = (False, sv)" "\<And>s. sess sv sid = Some s \<Longrightarrow> ss_gone s \<or> ss_room s = 0"
  | (yes) s where "sess sv sid = Some s" "\<not> ss_gone s" "ss_room s \<noteq> 0"
      "try_send sid f sv = (True, (put_session sid (s\<lparr>ss_room := ss_room s - 1\<rparr>) sv)\<lparr>sv_sent := sv_sent sv @ [(sid, f)]\<rparr>)"
  by (cases "sess sv sid") (auto simp: try_send_def split: if_splits)

text \<open>
  What sending and closing leave alone: \<open>rm\<close> maps each session to its session afterwards,
  the same up to the free room of its channel.
\<close>

definition same_room :: "('r, 'p) session \<Rightarrow> ('r, 'p) session \<Rightarrow> bool" where
  "same_room s t \<longleftrightarrow> (\<exists>n. t = s\<lparr>ss_room := n\<rparr>)"

lemma same_roomI [simp]: "same_room s s" "same_room s (s\<lparr>ss_room := n\<rparr>)"
  by (auto simp: same_room_def intro: exI [of _ "ss_room s"])

lemma same_room_trans: "same_room s t \<Longrightarrow> same_room t u \<Longrightarrow> same_room s u"
  by (auto simp: same_room_def)

lemma try_send_frame:
  assumes "try_send sid f sv = (ok, sv')"
  shows "rel_option same_room (sess sv i) (sess sv' i)" "sv_calls sv' = sv_calls sv" "sv_next_sid sv' = sv_next_sid sv"
    "sv_cfg sv' = sv_cfg sv" "sv_registry sv' = sv_registry sv" "sv_dirty sv' = sv_dirty sv"
    "distinct (map fst (sv_sessions sv)) \<Longrightarrow> distinct (map fst (sv_sessions sv'))"
proof -
  have "rel_option same_room (sess sv i) (sess sv i)" by (cases "sess sv i") auto
  then show "rel_option same_room (sess sv i) (sess sv' i)"
    using assms by (cases rule: try_send_cases [where sv = sv and sid = sid and f = f]) auto
  show "sv_calls sv' = sv_calls sv" "sv_next_sid sv' = sv_next_sid sv"
    "sv_cfg sv' = sv_cfg sv" "sv_registry sv' = sv_registry sv" "sv_dirty sv' = sv_dirty sv"
    "distinct (map fst (sv_sessions sv)) \<Longrightarrow> distinct (map fst (sv_sessions sv'))"
    using assms by (cases rule: try_send_cases [where sv = sv and sid = sid and f = f]; auto simp: put_session_def distinct_update)+
qed

definition forget :: "nat \<Rightarrow> ('r, 'p) session \<Rightarrow> ('r, 'p) session" where
  "forget sid s = s\<lparr>ss_tx_slots := AList.delete sid (ss_tx_slots s), ss_queued := filter (\<lambda>(q, _). q \<noteq> sid) (ss_queued s)\<rparr>"

lemma notify_left_frame:
  assumes "sv' = notify_left sid sfu p sv"
  shows "(i \<noteq> p \<longrightarrow> sess sv' i = sess sv i) \<and>
    rel_option (\<lambda>s t. same_room (forget sid s) t) (sess sv p) (sess sv' p) \<and>
    sv_calls sv' = sv_calls sv \<and> sv_next_sid sv' = sv_next_sid sv \<and>
    sv_cfg sv' = sv_cfg sv \<and> sv_registry sv' = sv_registry sv \<and> sv_dirty sv' = sv_dirty sv \<and>
    (distinct (map fst (sv_sessions sv)) \<longrightarrow> distinct (map fst (sv_sessions sv')))"
proof (cases "sess sv p")
  case None
  then show ?thesis using assms by (auto simp: notify_left_def)
next
  case (Some ps)
  let ?sv = "put_session p (forget sid ps) sv"
  obtain ok where t: "try_send p (SF_PeerLeft sfu) ?sv = (ok, sv')"
    using assms Some by (cases "try_send p (SF_PeerLeft sfu) ?sv") (simp add: notify_left_def forget_def)
  have "sess sv' j = sess ?sv j" if "j \<noteq> p" for j
    using t that by (cases rule: try_send_cases [where sv = ?sv and sid = p and f = "SF_PeerLeft sfu"]) auto
  then show ?thesis
    using try_send_frame(1) [OF t, of p] try_send_frame(2-7) [OF t] Some
    by (auto simp: put_session_def update_conv' distinct_update option_rel_Some1)
qed

lemma notify_all_frame:
  assumes "sv' = fold (notify_left sid sfu) ps sv" "distinct ps"
  shows "rel_option (\<lambda>s t. same_room (if i \<in> set ps then forget sid s else s) t) (sess sv i) (sess sv' i) \<and>
    sv_calls sv' = sv_calls sv \<and> sv_next_sid sv' = sv_next_sid sv \<and>
    sv_cfg sv' = sv_cfg sv \<and> sv_registry sv' = sv_registry sv \<and> sv_dirty sv' = sv_dirty sv \<and>
    (distinct (map fst (sv_sessions sv)) \<longrightarrow> distinct (map fst (sv_sessions sv')))"
  using assms
proof (induction ps arbitrary: sv)
  case Nil
  then show ?case by (cases "sess sv i") auto
next
  case (Cons p ps)
  define sv1 where "sv1 = notify_left sid sfu p sv"
  note n = notify_left_frame [OF sv1_def, of i]
  have "sv' = fold (notify_left sid sfu) ps sv1" using Cons.prems(1) by (simp add: sv1_def)
  note ih = Cons.IH [OF this]
  show ?case
  proof (cases "i = p")
    case True
    then have "i \<notin> set ps" using Cons.prems(2) by simp
    then show ?thesis using ih Cons.prems(2) n True
      by (auto simp: rel_option_iff split: option.splits dest: same_room_trans)
  next
    case False
    then show ?thesis using ih Cons.prems(2) n by auto
  qed
qed

definition leave :: "int \<Rightarrow> nat \<Rightarrow> call \<Rightarrow> call" where
  "leave now sid c =
     (let remaining = filter (\<lambda>p. p \<noteq> sid) (ca_participants c); c1 = c\<lparr>ca_participants := remaining\<rparr>
      in if remaining = [] then c1\<lparr>ca_empty_since := Some now\<rparr> else c1)"

lemma leave_sel: "ca_participants (leave now sid c) = filter (\<lambda>p. p \<noteq> sid) (ca_participants c)"
  "ca_cap (leave now sid c) = ca_cap c"
  by (simp_all add: leave_def Let_def)

lemma forget_sel [simp]:
  "ss_owner (forget sid s) = ss_owner s" "ss_call_key (forget sid s) = ss_call_key s" "ss_state (forget sid s) = ss_state s"
  "ss_rtc (forget sid s) = ss_rtc s" "ss_pending (forget sid s) = ss_pending s"
  "ss_tx_slots (forget sid s) = AList.delete sid (ss_tx_slots s)"
  "ss_queued (forget sid s) = filter (\<lambda>(q, _). q \<noteq> sid) (ss_queued s)"
  "ss_gone (forget sid s) = ss_gone s" "ss_sfu_id (forget sid s) = ss_sfu_id s"
  by (simp_all add: forget_def)

lemma peersE:
  assumes "j \<in> peers cs i q"
  obtains key c where "ss_call_key q = Some key" "cs key = Some c" "j \<in> set (ca_participants c)" "j \<noteq> i"
  using assms by (cases "ss_call_key q") (auto simp: peers_def split: option.splits)

lemma forget_id:
  assumes "sess_ok cs i q" "sid \<notin> peers cs i q"
  shows "forget sid q = q"
proof -
  have "sid \<notin> fst ` set (ss_tx_slots q)" "sid \<notin> fst ` set (ss_queued q)"
    using assms by (auto simp: sess_ok_def)
  then have "AList.delete sid (ss_tx_slots q) = ss_tx_slots q" "filter (\<lambda>(j, _). j \<noteq> sid) (ss_queued q) = ss_queued q"
    by (force simp: AList.delete_eq filter_id_conv)+
  then show ?thesis by (simp add: forget_def)
qed

lemma same_room_sel:
  assumes "same_room s t"
  shows "ss_owner t = ss_owner s" "ss_call_key t = ss_call_key s" "ss_state t = ss_state s" "ss_rtc t = ss_rtc s"
    "ss_pending t = ss_pending s" "ss_tx_slots t = ss_tx_slots s" "ss_queued t = ss_queued s" "ss_gone t = ss_gone s"
    "sess_ok cs sid t = sess_ok cs sid s" "ss_sfu_id t = ss_sfu_id s"
  using assms by (auto simp: same_room_def)

lemmas try_send_snd = try_send_frame [OF prod.collapse [symmetric]]

text \<open>The effect of closing a session, session by session.\<close>

lemma close_frame:
  assumes "sv_ok sv" "sess sv sid = Some s" and sv'_def: "sv' = close_session now sid f sv"
  shows "sess sv' sid = None \<and>
    (\<forall>i. i \<noteq> sid \<longrightarrow> rel_option (\<lambda>q t. same_room (forget sid q) t) (sess sv i) (sess sv' i)) \<and>
    callm sv' = (case ss_call_key s of None \<Rightarrow> callm sv | Some key \<Rightarrow> (callm sv)(key := map_option (leave now sid) (callm sv key))) \<and>
    sv_next_sid sv' = sv_next_sid sv \<and> sv_cfg sv' = sv_cfg sv \<and> sv_registry sv' = sv_registry sv \<and> sv_dirty sv' = sv_dirty sv \<and>
    distinct (map fst (sv_sessions sv')) \<and> distinct (map fst (sv_calls sv'))"
proof -
  define sv1 where "sv1 = (case f of None \<Rightarrow> sv | Some fr \<Rightarrow> snd (try_send sid fr sv))"
  define sv2 where "sv2 = sv1\<lparr>sv_sessions := AList.delete sid (sv_sessions sv1)\<rparr>"
  have refl: "rel_option same_room (sess sv j) (sess sv j)" for j by (cases "sess sv j") auto
  have r1: "rel_option same_room (sess sv j) (sess sv1 j)" for j
    using try_send_snd(1) refl by (cases f) (auto simp: sv1_def)
  have f1: "sv_calls sv1 = sv_calls sv \<and> sv_next_sid sv1 = sv_next_sid sv \<and> sv_cfg sv1 = sv_cfg sv \<and>
      sv_registry sv1 = sv_registry sv \<and> sv_dirty sv1 = sv_dirty sv \<and> distinct (map fst (sv_sessions sv1))"
    using try_send_snd(2-7) sv_okD(1) [OF assms(1)] by (cases f) (auto simp: sv1_def)
  have s2: "sess sv2 j = (if j = sid then None else sess sv1 j)" for j
    by (simp add: sv2_def delete_conv')
  have d2: "distinct (map fst (sv_sessions sv2))" using f1 by (simp add: sv2_def distinct_delete)
  note ok = sv_okD [OF assms(1)]
  have unrel: "rel_option (\<lambda>q t. same_room (forget sid q) t) (sess sv i) (sess sv1 i)"
    if "\<And>q. sess sv i = Some q \<Longrightarrow> sid \<notin> peers (callm sv) i q" for i
    using r1 [of i] forget_id [OF ok(4)] that by (auto simp: rel_option_iff split: option.splits)
  show ?thesis
  proof (cases "ss_call_key s")
    case None
    have "sid \<notin> peers (callm sv) i q" if "sess sv i = Some q" for i q
    proof
      assume "sid \<in> peers (callm sv) i q"
      then obtain key c where "callm sv key = Some c" "sid \<in> set (ca_participants c)"
        by (rule peersE)
      with ok(5) [of key c] assms(2) None show False by (auto simp: call_ok_def)
    qed
    note u = unrel [OF this]
    have "sv' = sv2" using assms(2) None by (simp add: sv'_def close_session_def sv1_def sv2_def Let_def)
    then show ?thesis using None u s2 d2 f1 ok(2) by (simp add: sv2_def)
  next
    case (Some key)
    obtain c where c: "callm sv key = Some c" "sid \<in> set (ca_participants c)"
      using ok(4) [OF assms(2)] Some by (auto simp: sess_ok_def)
    define rs where "rs = filter (\<lambda>p. p \<noteq> sid) (ca_participants c)"
    have e: "sv' = fold (notify_left sid (ss_sfu_id s)) rs (put_call key (leave now sid c) sv2)"
      using assms(2) Some c f1
      by (simp add: sv'_def close_session_def sv1_def [symmetric] sv2_def [symmetric] Let_def leave_def rs_def)
    have "distinct rs" using ok(5) [OF c(1)] by (simp add: rs_def call_ok_def)
    note n = notify_all_frame [OF e this]
    then have n1: "rel_option (\<lambda>s t. same_room (if i \<in> set rs then forget sid s else s) t) (sess sv2 i) (sess sv' i)" for i
      by simp
    have mem: "sid \<notin> peers (callm sv) i q" if "sess sv i = Some q" "i \<notin> set rs" "i \<noteq> sid" for i q
    proof
      assume "sid \<in> peers (callm sv) i q"
      then obtain k d where kd: "ss_call_key q = Some k" "callm sv k = Some d" "sid \<in> set (ca_participants d)"
        by (rule peersE)
      then have "k = key" using ok(5) [OF kd(2)] assms(2) Some by (auto simp: call_ok_def)
      then have "i \<in> set (ca_participants c)" using ok(4) [OF that(1)] kd c by (auto simp: sess_ok_def)
      then show False using that(2,3) by (simp add: rs_def)
    qed
    have rest: "rel_option (\<lambda>q t. same_room (forget sid q) t) (sess sv i) (sess sv' i)" if i: "i \<noteq> sid" for i
    proof (cases "i \<in> set rs")
      case True
      then show ?thesis using n1 [of i] r1 [of i] i
        by (auto simp: s2 rel_option_iff same_room_def forget_def split: option.splits)
    next
      case False
      have "rel_option (\<lambda>q t. same_room (forget sid q) t) (sess sv i) (sess sv1 i)"
        by (rule unrel) (rule mem [OF _ False i])
      then show ?thesis using n1 [of i] i False
        by (auto simp: s2 rel_option_iff split: option.splits dest: same_room_trans)
    qed
    have "sess sv' sid = None" using n1 [of sid] by (auto simp: s2)
    moreover have "callm sv' = (callm sv)(key \<mapsto> leave now sid c)"
      using n f1 by (simp add: sv2_def put_call_def update_conv')
    moreover have "distinct (map fst (sv_calls sv'))"
      using n f1 ok(2) by (simp add: sv2_def put_call_def distinct_update)
    moreover have "sv_next_sid sv' = sv_next_sid sv \<and> sv_cfg sv' = sv_cfg sv \<and> sv_registry sv' = sv_registry sv \<and>
        sv_dirty sv' = sv_dirty sv \<and> distinct (map fst (sv_sessions sv'))"
      using n f1 d2 by (simp add: put_call_def) (simp add: sv2_def)
    ultimately show ?thesis using rest Some c by simp
  qed
qed

lemma close_absent: "sess sv sid = None \<Longrightarrow> close_session now sid f sv = sv"
  by (simp add: close_session_def)

section \<open>Preservation\<close>

lemma sess_okD:
  assumes "sess_ok cs sid s"
  shows "ss_call_key s = None \<longleftrightarrow> ss_state s = AwaitingJoin" "ss_call_key s \<noteq> None \<Longrightarrow> ss_rtc s \<noteq> None"
    "ss_pending s \<noteq> None \<Longrightarrow> ss_state s = Steady" "distinct (map fst (ss_tx_slots s))"
    "fst ` set (ss_tx_slots s) \<subseteq> peers cs sid s" "fst ` set (ss_queued s) \<subseteq> peers cs sid s"
    "(src, slot) \<in> set (ss_tx_slots s) \<Longrightarrow> \<not> tx_declared slot \<Longrightarrow> ss_pending s \<noteq> None"
    "ss_call_key s = Some key \<Longrightarrow> fst key = ss_owner s \<and> (\<exists>c. cs key = Some c \<and> sid \<in> set (ca_participants c))"
  using assms unfolding sess_ok_def by (blast | fastforce)+

lemma sess_ok_forget:
  assumes "sess_ok cs i q" "cs' = cs \<or> (\<exists>key c. cs key = Some c \<and> cs' = cs(key \<mapsto> leave now sid c))" "i \<noteq> sid"
  shows "sess_ok cs' i (forget sid q)"
proof -
  have peers: "peers cs i q - {sid} \<subseteq> peers cs' i q"
  proof
    fix j assume "j \<in> peers cs i q - {sid}"
    then obtain key c where "ss_call_key q = Some key" "cs key = Some c" "j \<in> set (ca_participants c)" "j \<noteq> i" "j \<noteq> sid"
      by (auto elim: peersE)
    then show "j \<in> peers cs' i q" using assms(2) by (auto simp: peers_def leave_sel)
  qed
  have pf: "peers cs' i (forget sid q) = peers cs' i q" by (simp add: forget_def)
  have f1: "distinct (map fst (AList.delete sid (ss_tx_slots q)))" by (rule distinct_delete [OF sess_okD(4) [OF assms(1)]])
  have "fst ` set (AList.delete sid (ss_tx_slots q)) \<subseteq> fst ` set (ss_tx_slots q) - {sid}"
    "fst ` set (filter (\<lambda>(j, _). j \<noteq> sid) (ss_queued q)) \<subseteq> fst ` set (ss_queued q) - {sid}"
    by (auto simp: AList.delete_eq)
  then have f2: "fst ` set (AList.delete sid (ss_tx_slots q)) \<subseteq> peers cs' i q"
    and f3: "fst ` set (filter (\<lambda>(j, _). j \<noteq> sid) (ss_queued q)) \<subseteq> peers cs' i q"
    using sess_okD(5,6) [OF assms(1)] peers by blast+
  have f4: "\<forall>(_, slot) \<in> set (AList.delete sid (ss_tx_slots q)). \<not> tx_declared slot \<longrightarrow> ss_pending q \<noteq> None"
    using sess_okD(7) [OF assms(1)] by (auto simp: AList.delete_eq)
  have f5: "\<forall>key. ss_call_key q = Some key \<longrightarrow> fst key = ss_owner q \<and> (\<exists>c. cs' key = Some c \<and> i \<in> set (ca_participants c))"
  proof (intro allI impI)
    fix key assume k: "ss_call_key q = Some key"
    obtain c where "cs key = Some c" "i \<in> set (ca_participants c)" using sess_okD(8) [OF assms(1) k] by blast
    then show "fst key = ss_owner q \<and> (\<exists>c. cs' key = Some c \<and> i \<in> set (ca_participants c))"
      using sess_okD(8) [OF assms(1) k] assms(2,3) by (auto simp: leave_sel)
  qed
  show ?thesis
    unfolding sess_ok_def forget_sel pf
    using sess_okD(1,2,3) [OF assms(1)] f1 f2 f3 f4 f5 by (intro conjI impI) assumption+
qed

lemma call_ok_leave:
  assumes "call_ok cfg ss key c" "\<And>p s. p \<noteq> sid \<Longrightarrow> ss p = Some s \<Longrightarrow> \<exists>t. ss' p = Some t \<and> ss_call_key t = ss_call_key s"
  shows "sid \<notin> set (ca_participants c) \<Longrightarrow> call_ok cfg ss' key c" "sid \<in> set (ca_participants c) \<Longrightarrow> call_ok cfg ss' key (leave now sid c)"
proof -
  have part: "\<exists>s. ss' p = Some s \<and> ss_call_key s = Some key" if "p \<in> set (ca_participants c)" "p \<noteq> sid" for p
  proof -
    obtain s where "ss p = Some s" "ss_call_key s = Some key" using assms(1) \<open>p \<in> _\<close> by (auto simp: call_ok_def)
    with assms(2) [OF \<open>p \<noteq> sid\<close>] show ?thesis by fastforce
  qed
  show "sid \<notin> set (ca_participants c) \<Longrightarrow> call_ok cfg ss' key c"
    using assms(1) part by (auto simp: call_ok_def)
  assume s: "sid \<in> set (ca_participants c)"
  then have "ca_empty_since c = None" using assms(1) by (auto simp: call_ok_def)
  moreover have "length (filter (\<lambda>p. p \<noteq> sid) (ca_participants c)) \<le> unat (ca_cap c)"
    using assms(1) by (auto simp: call_ok_def intro: order_trans [OF length_filter_le])
  ultimately show "call_ok cfg ss' key (leave now sid c)"
    using assms(1) part by (auto simp: call_ok_def leave_def Let_def)
qed

lemma close_ok: "sv_ok sv \<Longrightarrow> sv_ok (close_session now sid f sv)"
proof (cases "sess sv sid")
  case None
  then show "sv_ok sv \<Longrightarrow> ?thesis" by (simp add: close_absent)
next
  case (Some s)
  assume ok: "sv_ok sv"
  define sv' where "sv' = close_session now sid f sv"
  note c = close_frame [OF ok Some sv'_def]
  have rel: "rel_option (\<lambda>q t. same_room (forget sid q) t) (sess sv i) (sess sv' i)" if "i \<noteq> sid" for i
    using c that by blast
  have cm: "callm sv' = (case ss_call_key s of None \<Rightarrow> callm sv | Some key \<Rightarrow> (callm sv)(key := map_option (leave now sid) (callm sv key)))"
    using c by blast
  have own: "\<exists>d. callm sv key = Some d \<and> sid \<in> set (ca_participants d)" if "ss_call_key s = Some key" for key
    using sv_okD(4) [OF ok Some] that by (auto simp: sess_ok_def)
  have upd: "callm sv' = callm sv \<or> (\<exists>key d. callm sv key = Some d \<and> callm sv' = (callm sv)(key \<mapsto> leave now sid d))"
  proof (cases "ss_call_key s")
    case (Some key)
    then obtain d where "callm sv key = Some d" using own by blast
    with Some show ?thesis by (intro disjI2 exI [of _ key] exI [of _ d]) (simp add: cm)
  qed (simp add: cm)
  show ?thesis unfolding sv'_def [symmetric]
  proof (rule sv_okI)
    fix i t assume t: "sess sv' i = Some t"
    then have i: "i \<noteq> sid" using c by auto
    then obtain q where q: "sess sv i = Some q" "same_room (forget sid q) t" using rel [OF i] t by (auto simp: option_rel_Some2)
    show "i < sv_next_sid sv' \<and> sess_ok (callm sv') i t"
      using sv_okD(3,4) [OF ok q(1)] sess_ok_forget [OF _ upd i] c same_room_sel(9) [OF q(2)] by auto
  next
    fix key d' assume d': "callm sv' key = Some d'"
    have keep: "\<exists>t. sess sv' p = Some t \<and> ss_call_key t = ss_call_key q" if "p \<noteq> sid" "sess sv p = Some q" for p q
      using rel [OF that(1)] that(2) by (auto simp: option_rel_Some1 same_room_sel)
    show "call_ok (sv_cfg sv') (sess sv') key d'"
    proof (cases "ss_call_key s = Some key")
      case True
      then obtain d where d: "callm sv key = Some d" "sid \<in> set (ca_participants d)" using own by blast
      then have "d' = leave now sid d" using d' True by (simp add: cm)
      then show ?thesis using call_ok_leave(2) [OF sv_okD(5) [OF ok d(1)] keep d(2)] c by simp
    next
      case False
      then have d: "callm sv key = Some d'" using d' by (auto simp: cm split: option.splits if_splits)
      have "sid \<notin> set (ca_participants d')"
        using sv_okD(5) [OF ok d] Some False by (auto simp: call_ok_def)
      then show ?thesis using call_ok_leave(1) [OF sv_okD(5) [OF ok d] keep] c by simp
    qed
  qed (use c in simp_all)
qed

lemma try_send_ok: "sv_ok sv \<Longrightarrow> sv_ok (snd (try_send sid f sv))"
proof (cases rule: try_send_cases [where sv = sv and sid = sid and f = f])
  case (yes s)
  assume ok: "sv_ok sv"
  show ?thesis using put_session_ok [OF ok yes(1), of "s\<lparr>ss_room := ss_room s - 1\<rparr>"] sv_okD(4) [OF ok yes(1)] yes(4) by simp
qed simp

lemma send_ok: "sv_ok sv \<Longrightarrow> sv_ok (send now sid f sv)"
  using try_send_ok [of sv sid f] close_ok
  by (auto simp: send_def split: option.splits prod.splits)

lemma fail_ok: "sv_ok sv \<Longrightarrow> sv_ok (fail now sid code m sv)"
  by (simp add: fail_def close_ok)

lemma send_all_ok: "sv_ok sv \<Longrightarrow> sv_ok (fold (\<lambda>(a, b, c). send now sid (g a b c)) xs sv)"
  by (induction xs arbitrary: sv) (auto simp: send_ok)

lemma add_slots_sel:
  "ss_call_key (add_slots added s) = ss_call_key s" "ss_state (add_slots added s) = ss_state s"
  "ss_rtc (add_slots added s) = ss_rtc s" "ss_pending (add_slots added s) = ss_pending s"
  "ss_queued (add_slots added s) = ss_queued s" "ss_owner (add_slots added s) = ss_owner s"
  "peers cs sid (add_slots added s) = peers cs sid s"
  by (induction added s rule: add_slots.induct) (auto simp: alloc_ssrc_def Let_def)

lemma fst_set_update: "fst ` set (AList.update k v xs) = insert k (fst ` set xs)"
  by (simp flip: dom_map_of_conv_image_fst add: update_conv')

lemma add_slots_keys:
  "distinct (map fst (ss_tx_slots s)) \<Longrightarrow> distinct (map fst (ss_tx_slots (add_slots added s)))"
  "fst ` set (ss_tx_slots (add_slots added s)) = fst ` set (ss_tx_slots s) \<union> fst ` set added"
  by (induction added s rule: add_slots.induct)
    (simp_all add: alloc_ssrc_def Let_def distinct_update fst_set_update)

lemma fst_add_medias: "map (\<lambda>(src, sfu, _). (src, sfu)) (fst (add_medias ops qs r)) = qs"
  by (induction ops qs r rule: add_medias.induct) (auto split: prod.splits)

lemma sess_ok_add_slots:
  assumes "sess_ok cs sid s" "fst ` set added \<subseteq> peers cs sid s" "ss_pending s \<noteq> None"
  shows "sess_ok cs sid (add_slots added s)"
proof -
  have "fst ` set (ss_tx_slots (add_slots added s)) \<subseteq> peers cs sid s"
    using add_slots_keys(2) [of added s] sess_okD(5) [OF assms(1)] assms(2) by blast
  then show ?thesis
    using assms(1,3) add_slots_keys(1) [of s added]
    by (auto simp: sess_ok_def add_slots_sel(1-7))
qed

text \<open>
  An operation on session \<open>sid\<close> keeps the others: none disappears, and no session changes
  its call or appears.
\<close>

definition keeps :: "nat \<Rightarrow> ('r, 'p) server \<Rightarrow> ('r, 'p) server \<Rightarrow> bool" where
  "keeps sid sv sv' \<longleftrightarrow>
     (\<forall>p q'. sess sv' p = Some q' \<longrightarrow> (\<exists>q. sess sv p = Some q \<and> ss_call_key q' = ss_call_key q \<and> ss_owner q' = ss_owner q)) \<and>
     (\<forall>p. p \<noteq> sid \<and> sess sv p \<noteq> None \<longrightarrow> sess sv' p \<noteq> None)"

lemma keeps_refl [simp]: "keeps sid sv sv"
  by (simp add: keeps_def)

lemma keeps_trans: "keeps sid sv sv' \<Longrightarrow> keeps sid sv' sv'' \<Longrightarrow> keeps sid sv sv''"
  unfolding keeps_def
proof (elim conjE, intro conjI allI impI)
  assume a: "\<forall>p q'. sess sv' p = Some q' \<longrightarrow> (\<exists>q. sess sv p = Some q \<and> ss_call_key q' = ss_call_key q \<and> ss_owner q' = ss_owner q)"
    and b: "\<forall>p q'. sess sv'' p = Some q' \<longrightarrow> (\<exists>q. sess sv' p = Some q \<and> ss_call_key q' = ss_call_key q \<and> ss_owner q' = ss_owner q)"
  fix p q'' assume "sess sv'' p = Some q''"
  then obtain q' where q': "sess sv' p = Some q'" "ss_call_key q'' = ss_call_key q'" "ss_owner q'' = ss_owner q'" using b by blast
  then obtain q where "sess sv p = Some q" "ss_call_key q' = ss_call_key q" "ss_owner q' = ss_owner q" using a by blast
  then show "\<exists>q. sess sv p = Some q \<and> ss_call_key q'' = ss_call_key q \<and> ss_owner q'' = ss_owner q" using q' by auto
qed blast

lemma keeps_key: "keeps sid sv sv' \<Longrightarrow> sess sv' p = Some q' \<Longrightarrow> \<exists>q. sess sv p = Some q \<and> ss_call_key q' = ss_call_key q"
  unfolding keeps_def by blast

lemma keeps_there: "keeps sid sv sv' \<Longrightarrow> p \<noteq> sid \<Longrightarrow> sess sv p \<noteq> None \<Longrightarrow> sess sv' p \<noteq> None"
  unfolding keeps_def by blast

lemma keeps_put:
  "sess sv i = Some s \<Longrightarrow> ss_call_key s' = ss_call_key s \<Longrightarrow> ss_owner s' = ss_owner s \<Longrightarrow> keeps sid sv (put_session i s' sv)"
  by (auto simp: keeps_def)

lemma keeps_dirty [simp]: "keeps sid sv (push_dirty i sv') = keeps sid sv sv'" "keeps sid (push_dirty i sv) sv' = keeps sid sv sv'"
  by (simp_all add: keeps_def)

lemma keeps_try_send: "keeps sid sv (snd (try_send i f sv))"
proof (cases rule: try_send_cases [where sv = sv and sid = i and f = f])
  case (yes s)
  then show ?thesis using keeps_put [OF yes(1), of "s\<lparr>ss_room := ss_room s - 1\<rparr>" sid] by (simp add: keeps_def)
qed simp

lemma keeps_close: "sv_ok sv \<Longrightarrow> keeps sid sv (close_session now sid f sv)"
proof (cases "sess sv sid")
  case None
  then show ?thesis by (simp add: close_absent)
next
  case (Some s)
  assume ok: "sv_ok sv"
  define sv' where "sv' = close_session now sid f sv"
  note c = close_frame [OF ok Some sv'_def]
  have n: "sess sv' sid = None" using c by (rule conjunct1)
  have r: "rel_option (\<lambda>q t. same_room (forget sid q) t) (sess sv i) (sess sv' i)" if "i \<noteq> sid" for i
    using conjunct1 [OF conjunct2 [OF c]] that by simp
  show ?thesis unfolding sv'_def [symmetric] keeps_def
  proof (intro conjI allI impI)
    fix p q' assume q': "sess sv' p = Some q'"
    then have "p \<noteq> sid" using n by auto
    from r [OF this] q' show "\<exists>q. sess sv p = Some q \<and> ss_call_key q' = ss_call_key q \<and> ss_owner q' = ss_owner q"
      by (auto simp: option_rel_Some2 same_room_sel)
  next
    fix p assume p: "p \<noteq> sid \<and> sess sv p \<noteq> None"
    then show "sess sv' p \<noteq> None" using r [of p] by (auto simp: option_rel_Some1)
  qed
qed

lemma keeps_send: "sv_ok sv \<Longrightarrow> keeps sid sv (send now sid f sv)"
  using keeps_try_send [of sid sv sid f] keeps_close [of "snd (try_send sid f sv)" sid now None] try_send_ok [of sv sid f]
  by (auto simp: send_def split: option.splits prod.splits intro: keeps_trans)

lemma keeps_send_all: "sv_ok sv \<Longrightarrow> keeps sid sv (fold (\<lambda>(a, b, c). send now sid (g a b c)) xs sv)"
proof (induction xs arbitrary: sv)
  case (Cons t xs)
  obtain a b c where t: "t = (a, b, c)" by (cases t)
  show ?case using Cons.IH [OF send_ok [OF Cons.prems]] keeps_send [OF Cons.prems, of sid now "g a b c"]
    by (auto simp: t intro: keeps_trans)
qed simp

section \<open>Negotiation\<close>

lemma sess_ok_no_queue: "sess_ok cs sid s \<Longrightarrow> sess_ok cs sid (s\<lparr>ss_queued := []\<rparr>)"
  by (auto simp: sess_ok_def)

lemma sess_ok_queue: "sess_ok cs sid s \<Longrightarrow> fst ` set q \<subseteq> peers cs sid s \<Longrightarrow> sess_ok cs sid (s\<lparr>ss_queued := q\<rparr>)"
  by (auto simp: sess_ok_def)

lemma sess_ok_pending: "sess_ok cs sid s \<Longrightarrow> ss_state s = Steady \<Longrightarrow> sess_ok cs sid (s\<lparr>ss_pending := Some pd\<rparr>)"
  by (auto simp: sess_ok_def)

lemma fst_added: "fst ` set (fst (add_medias ops qs r)) = fst ` set qs"
proof -
  have "map fst (fst (add_medias ops qs r)) = map fst qs"
    using arg_cong [OF fst_add_medias [of ops qs r], of "map fst"] by (simp add: case_prod_beta comp_def)
  then show ?thesis by (metis set_map)
qed

lemma maybe_negotiate_ok:
  assumes "sv_ok sv"
  shows "\<exists>sv'. maybe_negotiate ops now sid sv = Inr sv' \<and> sv_ok sv' \<and> keeps sid sv sv'"
proof (cases "sess sv sid")
  case None
  then show ?thesis using assms by (auto simp: maybe_negotiate_def)
next
  case (Some s)
  note so = sv_okD(4) [OF assms Some]
  show ?thesis
  proof (cases "ss_state s \<noteq> Steady \<or> ss_pending s \<noteq> None \<or> ss_queued s = []")
    case True
    then show ?thesis using assms Some by (auto simp: maybe_negotiate_def)
  next
    case False
    define cp where "cp = (case Option.bind (ss_call_key s) (callm sv) of None \<Rightarrow> [] | Some c \<Rightarrow> ca_participants c)"
    define qd where "qd = filter (\<lambda>(src, _). src \<in> set cp \<and> map_of (ss_tx_slots s) src = None) (ss_queued s)"
    define s1 where "s1 = s\<lparr>ss_queued := []\<rparr>"
    have s1: "sess_ok (callm sv) sid s1" unfolding s1_def by (rule sess_ok_no_queue [OF so])
    have sel: "ss_call_key s1 = ss_call_key s" "ss_owner s1 = ss_owner s" "ss_state s1 = Steady"
      using False by (simp_all add: s1_def)
    obtain r where r: "ss_rtc s1 = Some r"
      using sess_okD(1,2) [OF s1] sel by auto
    obtain added r1 where a: "add_medias ops qd r = (added, r1)" by fastforce
    obtain ap r2 where ap: "rt_apply ops r1 = (ap, r2)" by fastforce
    define s2 where "s2 = s1\<lparr>ss_rtc := Some r2\<rparr>"
    have s2: "sess_ok (callm sv) sid s2" "ss_call_key s2 = ss_call_key s" "ss_owner s2 = ss_owner s" "ss_state s2 = Steady"
      using s1 sel by (simp_all add: s2_def)
    have e: "maybe_negotiate ops now sid sv =
      (if qd = [] then Inr (put_session sid s1 sv)
       else case ap of
              None \<Rightarrow> Inr (put_session sid s2 sv)
            | Some (offer, pending) \<Rightarrow>
                Inr (fold (\<lambda>(_, sfu, mid). send now sid (SF_PeerJoined sfu mid)) added
                  (send now sid (SF_Offer offer)
                    (push_dirty sid (put_session sid (add_slots added (s2\<lparr>ss_pending := Some pending\<rparr>)) sv)))))"
      using False Some r a ap
      unfolding s2_def
      by (cases ap)
        (auto simp: maybe_negotiate_def cp_def [symmetric] qd_def [symmetric] s1_def [symmetric] Let_def)
    have p1: "sv_ok (put_session sid s1 sv)" "keeps sid sv (put_session sid s1 sv)"
      using put_session_ok [OF assms Some sel(1) s1] keeps_put [OF Some sel(1,2)] by auto
    have p2: "sv_ok (put_session sid s2 sv)" "keeps sid sv (put_session sid s2 sv)"
      using put_session_ok [OF assms Some s2(2,1)] keeps_put [OF Some s2(2,3)] by auto
    have p3: "\<exists>sv'. Inr (fold (\<lambda>(_, sfu, mid). send now sid (SF_PeerJoined sfu mid)) added
                  (send now sid (SF_Offer offer)
                    (push_dirty sid (put_session sid (add_slots added (s2\<lparr>ss_pending := Some pending\<rparr>)) sv)))) = Inr sv' \<and>
        sv_ok sv' \<and> keeps sid sv sv'" for offer pending
    proof -
      let ?s3 = "add_slots added (s2\<lparr>ss_pending := Some pending\<rparr>)"
      have "fst ` set added = fst ` set qd" using fst_added [of ops qd r] a by simp
      also have "\<dots> \<subseteq> peers (callm sv) sid (s2\<lparr>ss_pending := Some pending\<rparr>)"
        using sess_okD(6) [OF so] by (auto simp: qd_def s2_def s1_def)
      finally have "sess_ok (callm sv) sid ?s3"
        by (intro sess_ok_add_slots sess_ok_pending s2(1,4)) auto
      then have ok: "sv_ok (push_dirty sid (put_session sid ?s3 sv))" "keeps sid sv (push_dirty sid (put_session sid ?s3 sv))"
        using put_session_ok [OF assms Some, of ?s3] keeps_put [OF Some, of ?s3] s2 by (auto simp: add_slots_sel)
      let ?sv1 = "push_dirty sid (put_session sid ?s3 sv)" and ?g = "\<lambda>(_ :: nat) sfu mid. SF_PeerJoined sfu mid"
      have "sv_ok (send now sid (SF_Offer offer) ?sv1)" by (rule send_ok [OF ok(1)])
      from send_all_ok [OF this, of now sid ?g added] keeps_send_all [OF this, of sid now ?g added]
        keeps_trans [OF ok(2) keeps_send [OF ok(1), of sid now "SF_Offer offer"]]
      show ?thesis by (auto intro: keeps_trans)
    qed
    show ?thesis unfolding e using p1 p2 p3 by (auto split: option.splits)
  qed
qed

section \<open>Joining\<close>

lemma sess_ok_grow:
  assumes "sess_ok cs i q" "cs key = Some c" "set (ca_participants c) \<subseteq> set (ca_participants c')"
  shows "sess_ok (cs(key \<mapsto> c')) i q"
proof -
  have "peers cs i q \<subseteq> peers (cs(key \<mapsto> c')) i q"
  proof
    fix j assume "j \<in> peers cs i q"
    then show "j \<in> peers (cs(key \<mapsto> c')) i q" using assms(2,3)
      by (auto simp: peers_def split: option.splits bind_splits if_splits)
  qed
  then show ?thesis
    using sess_okD(1-6) [OF assms(1)] sess_okD(7) [OF assms(1)] sess_okD(8) [OF assms(1)] assms(2,3)
    unfolding sess_ok_def by (auto 0 3)
qed

lemma sess_ok_new_call:
  assumes "sess_ok cs i q" "cs key = None"
  shows "sess_ok (cs(key \<mapsto> c')) i q"
proof -
  have "ss_call_key q \<noteq> Some key" using sess_okD(8) [OF assms(1), of key] assms(2) by auto
  then have "peers (cs(key \<mapsto> c')) i q = peers cs i q"
    by (cases "ss_call_key q") (auto simp: peers_def)
  then show ?thesis
    using sess_okD(1-6) [OF assms(1)] sess_okD(7) [OF assms(1)] sess_okD(8) [OF assms(1)] assms(2)
    unfolding sess_ok_def by (auto 0 3)
qed

lemma put_new_call_ok:
  assumes "sv_ok sv" "callm sv key = None" "2 \<le> unat cap" "unat cap \<le> max 2 (unat (vg_max_participants (sv_cfg sv)))"
  shows "sv_ok (put_call key (call_new cap now) sv)"
proof (rule sv_okI)
  fix i q assume "sess (put_call key (call_new cap now) sv) i = Some q"
  then show "i < sv_next_sid (put_call key (call_new cap now) sv) \<and> sess_ok (callm (put_call key (call_new cap now) sv)) i q"
    using sv_okD(3,4) [OF assms(1), of i q] sess_ok_new_call [where cs = "callm sv" and key = key, OF _ assms(2), of i q] by simp
next
  fix k c assume "callm (put_call key (call_new cap now) sv) k = Some c"
  then show "call_ok (sv_cfg (put_call key (call_new cap now) sv)) (sess (put_call key (call_new cap now) sv)) k c"
    using sv_okD(5) [OF assms(1)] assms(3,4) by (cases "k = key") (auto simp: call_ok_def call_new_def)
qed (use sv_okD(1,2) [OF assms(1)] in simp_all)

lemma join_cap_bounds: "2 \<le> unat (join_cap slot m)" "unat (join_cap slot m) \<le> max 2 (unat m)"
proof -
  define w where "w = max (min (case slot of None \<Rightarrow> m | Some k \<Rightarrow> k) m) (2 :: u16)"
  have u: "unat (join_cap slot m) = unat w"
    using unsigned_less [where 'a = nat, of w] by (simp add: join_cap_def w_def [symmetric] unsigned_ucast_eq take_bit_nat_eq_self)
  have "(2 :: u16) \<le> w" by (simp add: w_def)
  then show "2 \<le> unat (join_cap slot m)" by (simp add: u word_le_nat_alt)
  have "w \<le> m \<or> w = 2" by (auto simp: w_def max_def min_def split: option.splits)
  then show "unat (join_cap slot m) \<le> max 2 (unat m)" by (auto simp: u word_le_nat_alt)
qed

lemma admit_ok:
  assumes "sv_ok sv" "sess sv sid = Some s" "ss_state s = AwaitingJoin" "callm sv key = Some c" "fst key = ss_owner s"
    and "length (ca_participants c) < unat (ca_cap c)"
    and s1_def: "s1 = s\<lparr>ss_rtc := Some r, ss_state := AwaitingOffer, ss_sfu_id := i, ss_call_key := Some key\<rparr>"
    and c1_def: "c1 = c\<lparr>ca_participants := ca_participants c @ [sid], ca_empty_since := None\<rparr>"
  shows "sv_ok (put_session sid s1 (put_call key c1 sv))"
proof (rule sv_okI)
  note so = sv_okD(4) [OF assms(1,2)]
  have k: "ss_call_key s = None" using sess_okD(1) [OF so] assms(3) by simp
  then have "peers (callm sv) sid s = {}" by (simp add: peers_def)
  then have e: "ss_tx_slots s = []" "ss_queued s = []" using sess_okD(5,6) [OF so] by auto
  have pd: "ss_pending s = None" using sess_okD(3) [OF so] assms(3) by (cases "ss_pending s") auto
  have new: "sid \<notin> set (ca_participants d)" if "callm sv k' = Some d" for k' d
    using sv_okD(5) [OF assms(1) that] assms(2) k by (auto simp: call_ok_def)
  have s1ok: "sess_ok ((callm sv)(key \<mapsto> c1)) sid s1"
    using e pd assms(5) by (simp add: s1_def c1_def sess_ok_def)
  fix j q assume q: "sess (put_session sid s1 (put_call key c1 sv)) j = Some q"
  show "j < sv_next_sid (put_session sid s1 (put_call key c1 sv)) \<and> sess_ok (callm (put_session sid s1 (put_call key c1 sv))) j q"
  proof (cases "j = sid")
    case True
    then show ?thesis using q s1ok sv_okD(3) [OF assms(1,2)] by simp
  next
    case False
    then have "sess sv j = Some q" using q by simp
    then show ?thesis
      using sv_okD(3,4) [OF assms(1)] sess_ok_grow [where cs = "callm sv" and key = key, OF _ assms(4), of j q c1] by (auto simp: c1_def)
  qed
next
  have k: "ss_call_key s = None" using sess_okD(1) [OF sv_okD(4) [OF assms(1,2)]] assms(3) by simp
  have new: "sid \<notin> set (ca_participants d)" if "callm sv k' = Some d" for k' d
    using sv_okD(5) [OF assms(1) that] assms(2) k by (auto simp: call_ok_def)
  fix k' d assume d: "callm (put_session sid s1 (put_call key c1 sv)) k' = Some d"
  show "call_ok (sv_cfg (put_session sid s1 (put_call key c1 sv))) (sess (put_session sid s1 (put_call key c1 sv))) k' d"
  proof (cases "k' = key")
    case True
    then have "d = c1" using d by simp
    then show ?thesis
      using sv_okD(5) [OF assms(1,4)] new [OF assms(4)] assms(6) True
      by (auto simp: call_ok_def c1_def s1_def)
  next
    case False
    then have "callm sv k' = Some d" using d by simp
    then show ?thesis using sv_okD(5) [OF assms(1)] new by (fastforce simp: call_ok_def)
  qed
qed (use sv_okD(1,2) [OF assms(1)] in simp_all)

lemma announce_ok:
  assumes "sv_ok sv" "sess sv sid = Some t" "ss_call_key t = Some key"
    and "\<forall>(e, _) \<in> set es. e \<noteq> sid \<and> (\<forall>s. sess sv e = Some s \<longrightarrow> ss_call_key s = Some key)"
  shows "\<exists>sv'. announce ops now sid sfu es sv = Inr sv' \<and> sv_ok sv'"
  using assms
proof (induction es arbitrary: sv t)
  case (Cons ei es)
  obtain e i where ei: "ei = (e, i)" by (cases ei)
  define sv1 where "sv1 = (case sess sv e of None \<Rightarrow> sv
      | Some s \<Rightarrow> put_session e (s\<lparr>ss_queued := ss_queued s @ [(sid, sfu)]\<rparr>) sv)"
  have ne: "e \<noteq> sid" using Cons.prems(4) ei by auto
  have ok1: "sv_ok sv1 \<and> keeps e sv sv1"
  proof (cases "sess sv e")
    case None
    then show ?thesis using Cons.prems(1) by (simp add: sv1_def)
  next
    case (Some s)
    have key: "ss_call_key s = Some key" using Cons.prems(4) ei Some by auto
    obtain c where c: "callm sv key = Some c" "sid \<in> set (ca_participants c)"
      using sess_okD(8) [OF sv_okD(4) [OF Cons.prems(1,2)] Cons.prems(3)] by blast
    have "sid \<in> peers (callm sv) e s" using key c ne by (simp add: peers_def)
    then have "sess_ok (callm sv) e (s\<lparr>ss_queued := ss_queued s @ [(sid, sfu)]\<rparr>)"
      using sess_okD(6) [OF sv_okD(4) [OF Cons.prems(1) Some]] by (intro sess_ok_queue sv_okD(4) [OF Cons.prems(1) Some]) auto
    from put_session_ok [OF Cons.prems(1) Some _ this] keeps_put [OF Some, of "s\<lparr>ss_queued := ss_queued s @ [(sid, sfu)]\<rparr>" e] Some
    show ?thesis by (simp add: sv1_def)
  qed
  obtain sv2 where m: "maybe_negotiate ops now e sv1 = Inr sv2" "sv_ok sv2" "keeps e sv1 sv2"
    using maybe_negotiate_ok ok1 by blast
  have k2: "keeps e sv sv2" using ok1 m(3) keeps_trans by blast
  have "sess sv2 sid \<noteq> None" using keeps_there [OF k2] ne Cons.prems(2) by simp
  then obtain t2 where t2: "sess sv2 sid = Some t2" by blast
  have "ss_call_key t2 = Some key" using keeps_key [OF k2 t2] Cons.prems(2,3) by auto
  moreover have "\<forall>(f, _) \<in> set es. f \<noteq> sid \<and> (\<forall>s. sess sv2 f = Some s \<longrightarrow> ss_call_key s = Some key)"
    using Cons.prems(4) keeps_key [OF k2] by fastforce
  ultimately have "\<exists>sv'. announce ops now sid sfu es sv2 = Inr sv' \<and> sv_ok sv'"
    using Cons.IH [OF m(2) t2] by blast
  then show ?case using m(1) by (simp add: ei sv1_def [symmetric] vbind_def)
qed simp

lemma set_map_filter: "set (List.map_filter f xs) = {y. \<exists>x \<in> set xs. f x = Some y}"
  by (induction xs) (auto simp: map_filter_simps split: option.splits)

lemma other_sources_sub: "(p, i) \<in> set (other_sources sid ps sv) \<Longrightarrow> p \<in> set ps \<and> p \<noteq> sid \<and> (\<exists>s. sess sv p = Some s)"
  by (auto simp: other_sources_def set_map_filter)

lemma send_gone:
  assumes "sess sv sid = Some s" "sess (send now sid f sv) sid = None"
  shows "ss_gone s \<or> ss_room s = 0"
proof (cases rule: try_send_cases [where sv = sv and sid = sid and f = f])
  case (yes t)
  then show ?thesis using assms by (simp add: send_def)
qed (use assms in auto)

lemma mint_frame:
  assumes "mint_sfu_id x sv = (i, sv')"
  shows "sv_sessions sv' = sv_sessions sv" "sv_calls sv' = sv_calls sv" "sv_next_sid sv' = sv_next_sid sv"
    "sv_cfg sv' = sv_cfg sv" "sv_ok sv' = sv_ok sv" "sv_candidates sv' = sv_candidates sv"
  using assms by (auto simp: mint_sfu_id_def Let_def)

lemma admit_result:
  assumes "sv_ok sv" "sess sv sid = Some s" "ss_state s = AwaitingJoin" "callm sv key = Some c" "fst key = ss_owner s"
    and "length (ca_participants c) < unat (ca_cap c)"
  shows "(\<exists>sv'. admit x ops now sid s key c sv = Inr sv' \<and> sv_ok sv') \<or>
    admit x ops now sid s key c sv = Inl (V_panic ''sessions[&sid]'') \<and> (ss_gone s \<or> ss_room s = 0)"
proof -
  obtain sfu sv2 where m: "mint_sfu_id x sv = (sfu, sv2)" by fastforce
  define c1 where "c1 = c\<lparr>ca_participants := ca_participants c @ [sid], ca_empty_since := None\<rparr>"
  define r where "r = fold (rt_add_local ops) (sv_candidates sv) (rt_build ops now)"
  define t where "t = s\<lparr>ss_rtc := Some r, ss_state := AwaitingOffer, ss_sfu_id := sfu, ss_call_key := Some key\<rparr>"
  define ex where "ex = other_sources sid (ca_participants c1) (put_call key c1 sv2)"
  define sv4 where "sv4 = push_dirty sid (put_session sid t (put_call key c1 sv2))"
  define sv5 where "sv5 = send now sid (SF_JoinAck sfu (sv_candidates sv) (ca_cap c1) (map snd ex)) sv4"
  have h': "admit x ops now sid s key c sv = (case sess sv5 sid of
          None \<Rightarrow> Inl (V_panic ''sessions[&sid]'')
        | Some s2 \<Rightarrow> announce ops now sid (ss_sfu_id s2) ex sv5)"
    unfolding admit_def m Let_def prod.case sv5_def sv4_def ex_def t_def r_def c1_def ..
  have "sv_ok (put_session sid t (put_call key c1 sv2))"
    by (rule admit_ok [OF _ _ assms(3) _ assms(5,6) t_def c1_def]) (use mint_frame [OF m] assms in simp_all)
  then have ok4: "sv_ok sv4" by (simp add: sv4_def)
  have t4: "sess sv4 sid = Some t" by (simp add: sv4_def)
  show ?thesis
  proof (cases "sess sv5 sid")
    case None
    then have "ss_gone t \<or> ss_room t = 0" using send_gone [OF t4] by (simp add: sv5_def)
    then show ?thesis using h' None by (simp add: t_def)
  next
    case (Some s2)
    have ok5: "sv_ok sv5" and k5: "keeps sid sv4 sv5" using send_ok [OF ok4] keeps_send [OF ok4] by (simp_all add: sv5_def)
    have key2: "ss_call_key s2 = Some key" using keeps_key [OF k5 Some] t4 by (auto simp: t_def)
    have c4: "callm sv4 key = Some c1" by (simp add: sv4_def)
    have "p \<noteq> sid \<and> (\<forall>q. sess sv5 p = Some q \<longrightarrow> ss_call_key q = Some key)" if "(p, i) \<in> set ex" for p i
    proof -
      have p: "p \<in> set (ca_participants c1)" "p \<noteq> sid" using other_sources_sub [OF that [unfolded ex_def]] by auto
      then obtain q where "sess sv4 p = Some q" "ss_call_key q = Some key"
        using sv_okD(5) [OF ok4 c4] by (auto simp: call_ok_def)
      then show ?thesis using p(2) keeps_key [OF k5] by fastforce
    qed
    then have "\<forall>(e, _) \<in> set ex. e \<noteq> sid \<and> (\<forall>q. sess sv5 e = Some q \<longrightarrow> ss_call_key q = Some key)" by auto
    from announce_ok [OF ok5 Some key2 this] show ?thesis using h' Some by simp
  qed
qed

lemma handle_join_ok:
  assumes "sv_ok sv" "sess sv sid = Some s"
  shows "(\<exists>sv'. handle_join x ops now sid token sv = Inr sv' \<and> sv_ok sv') \<or>
    handle_join x ops now sid token sv = Inl (V_panic ''sessions[&sid]'') \<and> (ss_gone s \<or> ss_room s = 0)"
proof -
  define key where "key = (ss_owner s, blake2b256 x token)"
  define live where "live = length (filter (\<lambda>(_, c). is_live c) (sv_calls sv))"
  consider (early) "ss_state s \<noteq> AwaitingJoin \<or> length token \<noteq> 32 \<or> registry_lookup (ss_owner s) (blake2b256 x token) (sv_registry sv) = None \<or>
      callm sv key = None \<and> vg_max_concurrent_calls (sv_cfg sv) \<le> live"
    | (on) slot where "ss_state s = AwaitingJoin" "length token = 32" "registry_lookup (ss_owner s) (blake2b256 x token) (sv_registry sv) = Some slot"
      "\<not> (callm sv key = None \<and> vg_max_concurrent_calls (sv_cfg sv) \<le> live)"
    by (cases "registry_lookup (ss_owner s) (blake2b256 x token) (sv_registry sv)") blast+
  then show ?thesis
  proof cases
    case early
    then show ?thesis
      using assms fail_ok [OF assms(1)]
      by (auto simp: handle_join_def key_def live_def Let_def split: option.splits)
  next
    case on
    define sv1 where "sv1 = (if callm sv key = None then put_call key (call_new (join_cap slot (vg_max_participants (sv_cfg sv))) now) sv else sv)"
    have ok1: "sv_ok sv1" using put_new_call_ok [OF assms(1) _ join_cap_bounds] assms(1) by (simp add: sv1_def)
    have s1: "sess sv1 sid = Some s" using assms(2) by (simp add: sv1_def)
    obtain c where c: "callm sv1 key = Some c" by (cases "callm sv key") (auto simp: sv1_def)
    have h: "handle_join x ops now sid token sv =
      (if unat (ca_cap c) \<le> length (ca_participants c)
       then Inr (close_session now sid None (snd (try_send sid SF_Full sv1)))
       else admit x ops now sid s key c sv1)"
      using on assms(2) c
      by (auto simp: handle_join_def Let_def key_def [symmetric] live_def [symmetric] sv1_def [symmetric])
    show ?thesis
      using h admit_result [OF ok1 s1 on(1) c] close_ok [OF try_send_ok [OF ok1]] by (simp add: key_def)
  qed
qed

section \<open>The other handlers\<close>

lemma put_rtc_ok:
  assumes "sv_ok sv" "sess sv sid = Some s"
  shows "sv_ok (put_session sid (s\<lparr>ss_rtc := Some r\<rparr>) sv)"
  using put_session_ok [OF assms, of "s\<lparr>ss_rtc := Some r\<rparr>"] sv_okD(4) [OF assms] by simp

lemma other_sources_peers:
  assumes "sess sv sid = Some s" "ss_call_key s = Some key" "callm sv key = Some c"
  shows "fst ` set (other_sources sid (ca_participants c) sv) \<subseteq> peers (callm sv) sid s"
  using assms by (auto simp: peers_def dest: other_sources_sub)

lemma handle_offer_ok:
  assumes "sv_ok sv" "sess sv sid = Some s"
  shows "\<exists>sv'. handle_offer ops now sid sdp sv = Inr sv' \<and> sv_ok sv'"
proof (cases "ss_state s \<noteq> AwaitingOffer \<or> \<not> rt_parse_offer ops sdp")
  case True
  then show ?thesis using assms fail_ok [OF assms(1)] by (auto simp: handle_offer_def)
next
  case False
  note so = sv_okD(4) [OF assms]
  obtain key where key: "ss_call_key s = Some key" using sess_okD(1) [OF so] False by auto
  obtain r where r: "ss_rtc s = Some r" using sess_okD(2) [OF so] key by auto
  have pd: "ss_pending s = None" using sess_okD(3) [OF so] False by (cases "ss_pending s") auto
  obtain a r1 where a: "rt_accept_offer ops sdp r = (a, r1)" by fastforce
  show ?thesis
  proof (cases a)
    case None
    then show ?thesis using False key r a assms fail_ok [OF put_rtc_ok [OF assms]] by (auto simp: handle_offer_def)
  next
    case (Some answer)
    define s1 where "s1 = s\<lparr>ss_rtc := Some r1, ss_opus_pt := rt_opus_pt ops r1, ss_state := Steady\<rparr>"
    define sv2 where "sv2 = send now sid (SF_Answer answer) (push_dirty sid (put_session sid s1 sv))"
    define sv3 where "sv3 = (case sess sv2 sid of None \<Rightarrow> sv2
      | Some s2 \<Rightarrow> put_session sid (s2\<lparr>ss_queued := (case callm sv2 key of None \<Rightarrow> []
           | Some c \<Rightarrow> other_sources sid (ca_participants c) sv2)\<rparr>) sv2)"
    have "sess_ok (callm sv) sid s1"
      using so False pd key r by (auto simp: s1_def sess_ok_def)
    then have ok1: "sv_ok (push_dirty sid (put_session sid s1 sv))"
      using put_session_ok [OF assms] by (simp add: s1_def)
    have ok2: "sv_ok sv2" "keeps sid (push_dirty sid (put_session sid s1 sv)) sv2"
      using send_ok [OF ok1] keeps_send [OF ok1] by (simp_all add: sv2_def)
    have ok3: "sv_ok sv3"
    proof (cases "sess sv2 sid")
      case None
      then show ?thesis using ok2 by (simp add: sv3_def)
    next
      case (Some s2)
      have k: "ss_call_key s2 = Some key" using keeps_key [OF ok2(2) Some] key by (auto simp: s1_def)
      obtain c where c: "callm sv2 key = Some c" using sess_okD(8) [OF sv_okD(4) [OF ok2(1) Some] k] by blast
      have "sess_ok (callm sv2) sid (s2\<lparr>ss_queued := other_sources sid (ca_participants c) sv2\<rparr>)"
        by (intro sess_ok_queue sv_okD(4) [OF ok2(1) Some] other_sources_peers [OF Some k c])
      then show ?thesis using put_session_ok [OF ok2(1) Some] Some c by (simp add: sv3_def)
    qed
    have "handle_offer ops now sid sdp sv = maybe_negotiate ops now sid sv3"
      using False key r a Some assms(2)
      unfolding sv3_def sv2_def s1_def by (simp add: handle_offer_def Let_def)
    then show ?thesis using maybe_negotiate_ok [OF ok3, of ops now sid] by auto
  qed
qed

lemma declare_slots_set:
  "map fst (fst (declare_slots ops slots r)) = map fst slots \<and> (\<forall>p \<in> set (fst (declare_slots ops slots r)). tx_declared (snd p))"
proof (induction slots arbitrary: r)
  case (Cons p slots)
  obtain src slot where p: "p = (src, slot)" by (cases p)
  define q where "q = (if tx_declared slot then (slot, r)
             else case rt_stream_by_mid ops (tx_mid slot) r of
                    Some ssrc \<Rightarrow> (slot\<lparr>tx_ssrc := ssrc, tx_declared := True\<rparr>, r)
                  | None \<Rightarrow> (slot\<lparr>tx_declared := True\<rparr>, rt_declare_tx ops (tx_ssrc slot) (tx_mid slot) r))"
  have "tx_declared (fst q)" by (auto simp: q_def split: option.splits)
  moreover have "fst (declare_slots ops (p # slots) r) = (src, fst q) # fst (declare_slots ops slots (snd q))"
    by (simp add: p q_def [symmetric] Let_def case_prod_beta)
  ultimately show ?case using Cons.IH [of "snd q"] p by simp
qed simp

text \<open>Closing does not depend on the pending offer of the closed session.\<close>

lemma close_put:
  assumes "sess sv sid = Some s" "ss_call_key s' = ss_call_key s" "ss_sfu_id s' = ss_sfu_id s" "ss_gone s' = ss_gone s" "ss_room s' = ss_room s"
  shows "close_session now sid f (put_session sid s' sv) = close_session now sid f sv"
proof -
  define del where "del sv = sv\<lparr>sv_sessions := AList.delete sid (sv_sessions sv)\<rparr>" for sv :: "('a, 'b) server"
  have "del (put_session sid s' sv) = del sv"
    by (simp add: del_def put_session_def AList.delete_update_same)
  moreover have "del (snd (try_send sid fr (put_session sid s' sv))) = del (snd (try_send sid fr sv))" for fr
    using assms by (auto simp: del_def try_send_def put_session_def update_conv' AList.delete_update_same)
  ultimately have d: "del (case f of None \<Rightarrow> put_session sid s' sv | Some fr \<Rightarrow> snd (try_send sid fr (put_session sid s' sv))) =
      del (case f of None \<Rightarrow> sv | Some fr \<Rightarrow> snd (try_send sid fr sv))"
    by (cases f) simp_all
  show ?thesis
    unfolding close_session_def Let_def del_def [symmetric] d sess_put fun_upd_same assms(1) option.case assms(2,3) ..
qed

lemma handle_answer_ok:
  assumes "sv_ok sv" "sess sv sid = Some s"
  shows "\<exists>sv'. handle_answer ops now sid sdp sv = Inr sv' \<and> sv_ok sv'"
proof (cases "ss_state s \<noteq> Steady \<or> ss_pending s = None \<or> \<not> rt_parse_answer ops sdp")
  case True
  then show ?thesis using assms fail_ok [OF assms(1)] by (auto simp: handle_answer_def split: option.splits)
next
  case False
  note so = sv_okD(4) [OF assms]
  obtain pd where pd: "ss_pending s = Some pd" using False by auto
  obtain key where key: "ss_call_key s = Some key" using sess_okD(1) [OF so] False by auto
  obtain r where r: "ss_rtc s = Some r" using sess_okD(2) [OF so] key by auto
  obtain ok r1 where a: "rt_accept_answer ops pd sdp r = (ok, r1)" by fastforce
  obtain slots r2 where d: "declare_slots ops (ss_tx_slots s) r1 = (slots, r2)" by fastforce
  define s2 where "s2 = s\<lparr>ss_pending := None, ss_rtc := Some r2, ss_tx_slots := slots\<rparr>"
  have e: "handle_answer ops now sid sdp sv =
    (if ok then maybe_negotiate ops now sid (push_dirty sid (put_session sid s2 sv))
     else Inr (fail now sid ERR_INTERNAL ''answer rejected'' (put_session sid (s\<lparr>ss_pending := None, ss_rtc := Some r1\<rparr>) sv)))"
    using assms(2) False pd r a d by (simp add: handle_answer_def Let_def s2_def)
  show ?thesis
  proof (cases ok)
    case True
    have m: "map fst slots = map fst (ss_tx_slots s)" and dd: "\<forall>p \<in> set slots. tx_declared (snd p)"
      using declare_slots_set [of ops "ss_tx_slots s" r1] d by simp_all
    from arg_cong [OF m, of set] have "fst ` set slots = fst ` set (ss_tx_slots s)" by simp
    with m dd have "sess_ok (callm sv) sid s2"
      using so by (auto simp: s2_def sess_ok_def)
    then have "sv_ok (push_dirty sid (put_session sid s2 sv))"
      using put_session_ok [OF assms] by (simp add: s2_def)
    from maybe_negotiate_ok [OF this, of ops now sid] show ?thesis using e True by auto
  next
    case False
    have "sv_ok (fail now sid ERR_INTERNAL ''answer rejected'' (put_session sid (s\<lparr>ss_pending := None, ss_rtc := Some r1\<rparr>) sv))"
      unfolding fail_def using close_put [OF assms(2), of "s\<lparr>ss_pending := None, ss_rtc := Some r1\<rparr>"] close_ok [OF assms(1)] by simp
    then show ?thesis using e False by simp
  qed
qed

lemma handle_ice_ok:
  assumes "sv_ok sv" "sess sv sid = Some s"
  shows "\<exists>sv'. handle_ice ops now sid candidate sv = Inr sv' \<and> sv_ok sv'"
  using assms fail_ok [OF assms(1)] put_rtc_ok [OF assms] by (auto simp: handle_ice_def split: option.splits)

section \<open>Media\<close>

lemma forward_to_ok: "sv_ok sv \<Longrightarrow> sv_ok (forward_to ops now src p t sv)"
  by (auto simp: forward_to_def Let_def put_rtc_ok split: option.splits)

lemma forward_fold_ok: "sv_ok sv \<Longrightarrow> sv_ok (fold (forward_to ops now src p) ts sv)"
  by (induction ts arbitrary: sv) (auto simp: forward_to_ok)

lemma forward_rtp_ok: "sv_ok sv \<Longrightarrow> sv_ok (forward_rtp ops now src p sv)"
  by (auto simp: forward_rtp_def Let_def forward_fold_ok split: option.splits)

lemma forward_all_ok: "sv_ok sv \<Longrightarrow> sv_ok (fold (forward_rtp ops now src) ps sv)"
  by (induction ps arbitrary: sv) (auto simp: forward_rtp_ok)

text \<open>Only the fuel of the media loops can end them without a result.\<close>

definition runs_ok :: "('r, 'p) vres \<Rightarrow> bool" where
  "runs_ok r \<longleftrightarrow> (case r of Inl e \<Rightarrow> e = V_fuel | Inr sv \<Rightarrow> sv_ok sv)"

lemma runs_ok_simps [simp]: "runs_ok (Inr sv) = sv_ok sv" "runs_ok (Inl V_fuel)" "runs_ok (Inl (V_panic m)) = False"
  by (simp_all add: runs_ok_def)

lemma runs_ok_bind: "runs_ok r \<Longrightarrow> (\<And>sv. sv_ok sv \<Longrightarrow> runs_ok (f sv)) \<Longrightarrow> runs_ok (vbind r f)"
  by (cases r) (auto simp: runs_ok_def vbind_def)

lemma drain_session_ok:
  assumes "sv_ok sv"
  shows "runs_ok (drain_session ops n now sid sv)"
proof (cases "Option.bind (sess sv sid) ss_rtc")
  case None
  then show ?thesis using assms by (cases "sess sv sid") (auto simp: drain_session_def)
next
  case (Some r)
  then obtain s where s: "sess sv sid = Some s" "ss_rtc s = Some r" by (cases "sess sv sid") auto
  obtain ok r0 where i: "rt_handle_input ops (In_timeout now) r = (ok, r0)" by fastforce
  show ?thesis
  proof (cases "poll_loop ops n [] (\<not> ok) r0")
    case None
    then show ?thesis using s i by (simp add: drain_session_def)
  next
    case (Some res)
    obtain fs cl tm r1 where res: "res = (fs, cl, tm, r1)" by (cases res)
    define s1 where "s1 = s\<lparr>ss_rtc := Some r1, ss_next_timeout := (case tm of None \<Rightarrow> ss_next_timeout s | Some t \<Rightarrow> Some t)\<rparr>"
    have "sess_ok (callm sv) sid s1" using sv_okD(4) [OF assms s(1)] by (simp add: s1_def)
    then have ok: "sv_ok (fold (forward_rtp ops now sid) fs (put_session sid s1 sv))"
      by (intro forward_all_ok put_session_ok [OF assms s(1)]) (simp_all add: s1_def)
    have "drain_session ops n now sid sv = Inr (if cl \<or> \<not> rt_is_alive ops r1
      then close_session now sid None (fold (forward_rtp ops now sid) fs (put_session sid s1 sv))
      else fold (forward_rtp ops now sid) fs (put_session sid s1 sv))"
      using s i Some res by (simp add: drain_session_def s1_def Let_def)
    then show ?thesis using ok by (simp add: close_ok)
  qed
qed

lemma drain_ready_ok: "sv_ok sv \<Longrightarrow> runs_ok (drain_ready ops pf n now sv)"
  by (induction n arbitrary: sv) (auto split: list.splits intro!: runs_ok_bind drain_session_ok)

section \<open>Commands, packets, time\<close>

text \<open>
  The one panic of the loop: a joining session whose channel is closed or full is dropped by
  the send of its acknowledgement, and then indexed.
\<close>

definition join_panics :: "('r, 'p) server \<Rightarrow> command \<Rightarrow> bool" where
  "join_panics sv cmd \<longleftrightarrow>
     (case cmd of C_SessionFrame sid (CF_Join token) \<Rightarrow>
        (case sess sv sid of None \<Rightarrow> False | Some s \<Rightarrow> ss_gone s \<or> ss_room s = 0) | _ \<Rightarrow> False)"

lemma handle_frame_ok:
  assumes "sv_ok sv"
  shows "runs_ok (handle_frame x ops fu now sid frame sv) \<or>
    handle_frame x ops fu now sid frame sv = Inl (V_panic ''sessions[&sid]'') \<and> join_panics sv (C_SessionFrame sid frame)"
proof (cases "sess sv sid")
  case None
  then show ?thesis using assms by (simp add: handle_frame_def)
next
  case (Some s)
  note hs = handle_join_ok [OF assms Some, of x ops now] handle_offer_ok [OF assms Some, of ops now] handle_answer_ok [OF assms Some, of ops now]
    handle_ice_ok [OF assms Some, of ops now] close_ok [OF assms, of now sid]
  note drain = drain_ready_ok [of _ ops "fu_poll fu" "fu_drain fu" now]
  show ?thesis
  proof (cases frame)
    case (CF_Join token)
    then show ?thesis using hs(1) [of token] Some drain by (auto simp: handle_frame_def vbind_def join_panics_def)
  next
    case (CF_Offer sdp)
    then show ?thesis using hs(2) [of sdp] Some drain by (auto simp: handle_frame_def vbind_def)
  next
    case (CF_Answer sdp)
    then show ?thesis using hs(3) [of sdp] Some drain by (auto simp: handle_frame_def vbind_def)
  next
    case (CF_Ice candidate)
    then show ?thesis using hs(4) [of candidate] Some drain by (auto simp: handle_frame_def vbind_def)
  next
    case CF_Bye
    then show ?thesis using hs(5) [of "Some SF_Bye"] Some drain by (auto simp: handle_frame_def vbind_def)
  qed
qed

lemma close_all_ok: "sv_ok sv \<Longrightarrow> sv_ok (fold (\<lambda>sid. close_session now sid f) sids sv)"
  by (induction sids arbitrary: sv) (auto simp: close_ok)

lemma close_all_owners:
  assumes "sv_ok sv" "sess (fold (\<lambda>sid. close_session now sid f) sids sv) i = Some t"
  shows "i \<notin> set sids \<and> (\<exists>s. sess sv i = Some s \<and> ss_owner t = ss_owner s)"
  using assms
proof (induction sids arbitrary: sv)
  case (Cons sid sids)
  define sv1 where "sv1 = close_session now sid f sv"
  have "i \<notin> set sids \<and> (\<exists>s. sess sv1 i = Some s \<and> ss_owner t = ss_owner s)"
    using Cons.IH [of sv1] Cons.prems close_ok [OF Cons.prems(1), of now sid f] by (simp add: sv1_def)
  then obtain s1 where s1: "i \<notin> set sids" "sess sv1 i = Some s1" "ss_owner t = ss_owner s1" by blast
  have "i \<noteq> sid"
  proof
    assume "i = sid"
    moreover have "sess sv1 sid = None"
      using close_frame [OF Cons.prems(1) _ sv1_def] close_absent [of sv sid now f] by (cases "sess sv sid") (auto simp: sv1_def)
    ultimately show False using s1 by simp
  qed
  have "keeps sid sv sv1" unfolding sv1_def by (rule keeps_close [OF Cons.prems(1)])
  then have "\<exists>s. sess sv i = Some s \<and> ss_owner s1 = ss_owner s" using s1(2) unfolding keeps_def by blast
  with \<open>i \<noteq> sid\<close> show ?case using s1 by simp
qed simp

lemma sess_ok_no_calls:
  assumes "sess_ok cs i q" "\<And>key. ss_call_key q = Some key \<Longrightarrow> cs' key = cs key"
  shows "sess_ok cs' i q"
proof -
  have "peers cs' i q = peers cs i q" using assms(2) by (cases "ss_call_key q") (auto simp: peers_def)
  moreover have "cs' key = cs key" if "ss_call_key q = Some key" for key using assms(2) that .
  ultimately show ?thesis
    using sess_okD(1-6) [OF assms(1)] sess_okD(7) [OF assms(1)] sess_okD(8) [OF assms(1)]
    unfolding sess_ok_def by (auto 0 3)
qed

text \<open>Calls without participants may go.\<close>

lemma drop_calls_ok:
  assumes "sv_ok sv" "callm (sv\<lparr>sv_calls := cs\<rparr>) = (\<lambda>key. if P key then None else callm sv key)" "distinct (map fst cs)"
    and "\<And>key c. P key \<Longrightarrow> callm sv key = Some c \<Longrightarrow> ca_participants c = []"
  shows "sv_ok (sv\<lparr>sv_calls := cs\<rparr>)"
proof (rule sv_okI)
  fix i q assume "sess (sv\<lparr>sv_calls := cs\<rparr>) i = Some q"
  then have q: "sess sv i = Some q" by simp
  note so = sv_okD(4) [OF assms(1) q]
  have "\<not> P key" if "ss_call_key q = Some key" for key
    using sess_okD(8) [OF so that] assms(4) by fastforce
  then have "sess_ok (callm (sv\<lparr>sv_calls := cs\<rparr>)) i q"
    by (intro sess_ok_no_calls [OF so]) (simp only: assms(2) if_False)
  then show "i < sv_next_sid (sv\<lparr>sv_calls := cs\<rparr>) \<and> sess_ok (callm (sv\<lparr>sv_calls := cs\<rparr>)) i q"
    using sv_okD(3) [OF assms(1) q] by simp
next
  fix key c assume "callm (sv\<lparr>sv_calls := cs\<rparr>) key = Some c"
  then have "callm sv key = Some c" unfolding assms(2) by (simp split: if_splits)
  then show "call_ok (sv_cfg (sv\<lparr>sv_calls := cs\<rparr>)) (sess (sv\<lparr>sv_calls := cs\<rparr>)) key c"
    using sv_okD(5) [OF assms(1)] by simp
qed (use sv_okD(1) [OF assms(1)] assms(3) in simp_all)

lemma map_of_filter_key: "map_of (filter (\<lambda>((a, b), _). P a b) xs) (a, b) = (if P a b then map_of xs (a, b) else None)"
  by (induction xs) auto

lemma drop_owner_sessions:
  assumes "sv_ok sv" "sess (drop_owner now owner sv) i = Some t"
  shows "ss_owner t \<noteq> owner"
proof -
  define sv1 where "sv1 = sv\<lparr>sv_registry := registry_drop_owner owner (sv_registry sv)\<rparr>"
  define sids where "sids = map fst (filter (\<lambda>(_, s). ss_owner s = owner) (sv_sessions sv1))"
  have "sv_ok sv1" using assms(1) by (simp add: sv1_def)
  moreover have "sess (fold (\<lambda>sid. close_session now sid (Some SF_Bye)) sids sv1) i = Some t"
    using assms(2) by (simp add: drop_owner_def sv1_def sids_def Let_def)
  ultimately obtain s where s: "i \<notin> set sids" "sess sv1 i = Some s" "ss_owner t = ss_owner s"
    using close_all_owners by blast
  then show ?thesis using map_of_SomeD [OF s(2)] by (force simp: sids_def)
qed

lemma drop_owner_ok:
  assumes "sv_ok sv"
  shows "sv_ok (drop_owner now owner sv)"
proof -
  define sv1 where "sv1 = sv\<lparr>sv_registry := registry_drop_owner owner (sv_registry sv)\<rparr>"
  define sids where "sids = map fst (filter (\<lambda>(_, s). ss_owner s = owner) (sv_sessions sv1))"
  define sv2 where "sv2 = fold (\<lambda>sid. close_session now sid (Some SF_Bye)) sids sv1"
  have e: "drop_owner now owner sv = sv2\<lparr>sv_calls := filter (\<lambda>((ow, _), _). ow \<noteq> owner) (sv_calls sv2)\<rparr>"
    by (simp add: drop_owner_def sv1_def sids_def sv2_def Let_def)
  have ok2: "sv_ok sv2" unfolding sv2_def by (rule close_all_ok) (simp add: sv1_def assms)
  show ?thesis unfolding e
  proof (rule drop_calls_ok [OF ok2, where P = "\<lambda>key. fst key = owner"])
    show "callm (sv2\<lparr>sv_calls := filter (\<lambda>((ow, _), _). ow \<noteq> owner) (sv_calls sv2)\<rparr>) = (\<lambda>key. if fst key = owner then None else callm sv2 key)"
      by (rule ext) (auto simp: map_of_filter_key [where P = "\<lambda>ow _. ow \<noteq> owner"])
    show "distinct (map fst (filter (\<lambda>((ow, _), _). ow \<noteq> owner) (sv_calls sv2)))"
      using sv_okD(2) [OF ok2] by (rule distinct_map_filter)
  next
    fix key c assume k: "fst key = owner" and c: "callm sv2 key = Some c"
    show "ca_participants c = []"
    proof (rule ccontr)
      assume "ca_participants c \<noteq> []"
      then obtain p where "p \<in> set (ca_participants c)" by (cases "ca_participants c") auto
      then obtain t where t: "sess sv2 p = Some t" "ss_call_key t = Some key"
        using sv_okD(5) [OF ok2 c] by (auto simp: call_ok_def)
      then have "ss_owner t = owner" using sess_okD(8) [OF sv_okD(4) [OF ok2 t(1)] t(2)] k by simp
      then show False using drop_owner_sessions [OF assms, of now owner p t] t(1) e by simp
    qed
  qed
qed

lemma delete_session_fresh: "AList.delete sid (AList.update sid t xs) = AList.delete sid xs"
  by (rule AList.delete_update_same)

lemma new_session_ok:
  assumes "sv_ok sv"
  shows "sv_ok (put_session (sv_next_sid sv) (session_new owner) (sv\<lparr>sv_next_sid := sv_next_sid sv + 1\<rparr>))"
proof (rule sv_okI)
  let ?sv = "put_session (sv_next_sid sv) (session_new owner) (sv\<lparr>sv_next_sid := sv_next_sid sv + 1\<rparr>) :: ('a, 'b) server"
  fix i q assume "sess ?sv i = Some q"
  then show "i < sv_next_sid ?sv \<and> sess_ok (callm ?sv) i q"
    using sv_okD(3,4) [OF assms, of i q] by (cases "i = sv_next_sid sv") (auto simp: session_new_def sess_ok_def)
next
  let ?sv = "put_session (sv_next_sid sv) (session_new owner) (sv\<lparr>sv_next_sid := sv_next_sid sv + 1\<rparr>) :: ('a, 'b) server"
  fix key c assume "callm ?sv key = Some c"
  then have "call_ok (sv_cfg sv) (sess sv) key c" using sv_okD(5) [OF assms] by simp
  moreover have "sess sv (sv_next_sid sv) = None" using sv_okD(3) [OF assms] by fastforce
  ultimately show "call_ok (sv_cfg ?sv) (sess ?sv) key c" by (fastforce simp: call_ok_def)
qed (use sv_okD(1,2) [OF assms] in simp_all)

lemma bump_sid_ok: "sv_ok sv \<Longrightarrow> sv_ok (sv\<lparr>sv_next_sid := sv_next_sid sv + 1\<rparr>)"
  by (auto simp: sv_ok_def less_SucI)

lemma handle_command_ok:
  assumes "sv_ok sv"
  shows "runs_ok (handle_command x ops fu now cmd sv) \<or>
    handle_command x ops fu now cmd sv = Inl (V_panic ''sessions[&sid]'') \<and> join_panics sv cmd"
proof (cases cmd)
  case (C_OpenSession owner reply_ok)
  have "AList.delete (sv_next_sid sv) (sv_sessions sv) = sv_sessions sv"
    using sv_okD(3) [OF assms] sv_okD(1) [OF assms] map_of_is_SomeI [of "sv_sessions sv"]
    by (fastforce simp: AList.delete_eq filter_id_conv)
  then have "(put_session (sv_next_sid sv) (session_new owner) (sv\<lparr>sv_next_sid := sv_next_sid sv + 1\<rparr>))\<lparr>sv_sessions :=
      AList.delete (sv_next_sid sv) (sv_sessions (put_session (sv_next_sid sv) (session_new owner) (sv\<lparr>sv_next_sid := sv_next_sid sv + 1\<rparr>)))\<rparr>
    = sv\<lparr>sv_next_sid := sv_next_sid sv + 1\<rparr>"
    by (simp add: put_session_def AList.delete_update_same)
  then show ?thesis
    using C_OpenSession new_session_ok [OF assms, of owner] bump_sid_ok [OF assms] by (simp add: handle_command_def Let_def)
qed (use assms handle_frame_ok [OF assms] drop_owner_ok [OF assms] close_ok [OF assms] in \<open>simp_all add: handle_command_def\<close>)

lemma find_SomeD: "find P xs = Some y \<Longrightarrow> P y \<and> y \<in> set xs"
  by (auto simp: find_Some_iff)

lemma handle_packet_ok:
  assumes "sv_ok sv"
  shows "\<exists>sv'. handle_packet ops now buf a sv = Inr sv' \<and> sv_ok sv'"
proof (cases "find (\<lambda>(_, s). case ss_rtc s of None \<Rightarrow> False | Some r \<Rightarrow> rt_accepts ops (In_receive a buf) r) (sv_sessions sv)")
  case None
  then show ?thesis using assms by (simp add: handle_packet_def)
next
  case (Some p)
  obtain sid s where p: "p = (sid, s)" by (cases p)
  obtain r where r: "ss_rtc s = Some r" and m: "(sid, s) \<in> set (sv_sessions sv)"
    using find_SomeD [OF Some] p by (auto split: option.splits)
  have s: "sess sv sid = Some s" using map_of_is_SomeI [OF sv_okD(1) [OF assms] m] .
  show ?thesis using Some p r s assms put_rtc_ok [OF assms s] close_ok [OF put_rtc_ok [OF assms s]]
    by (cases "rt_handle_input ops (In_receive a buf) r") (simp add: handle_packet_def Let_def)
qed

lemma timeouts_loop_ok: "sv_ok sv \<Longrightarrow> sv_ok (timeouts_loop ops now sids sv)"
proof (induction ops now sids sv rule: timeouts_loop.induct)
  case (2 ops now sid sids sv)
  have put: "sv_ok (put_session sid (s\<lparr>ss_next_timeout := None, ss_rtc := Some r1\<rparr>) sv)" if "sess sv sid = Some s" for s r1
    using put_session_ok [OF 2(2) that, of "s\<lparr>ss_next_timeout := None, ss_rtc := Some r1\<rparr>"] sv_okD(4) [OF 2(2) that] by simp
  show ?case
    unfolding timeouts_loop.simps
    by (rule 2(1)) (auto simp: Let_def 2(2) put close_ok split: option.splits prod.splits)
qed simp

lemma map_of_fold_delete: "map_of (fold AList.delete ks xs) k = (if k \<in> set ks then None else map_of xs k)"
  by (induction ks arbitrary: xs) (auto simp: delete_conv')

lemma distinct_fold_delete: "distinct (map fst xs) \<Longrightarrow> distinct (map fst (fold AList.delete ks xs))"
  by (induction ks arbitrary: xs) (auto simp: distinct_delete)

lemma reap_calls_ok:
  assumes "sv_ok sv"
  shows "sv_ok (reap_calls now sv)"
proof -
  define dead where "dead = map fst (filter (\<lambda>(_, c). \<not> is_live c \<and>
            (case ca_empty_since c of None \<Rightarrow> False | Some t \<Rightarrow> vg_idle_reap (sv_cfg sv) \<le> max 0 (now - t))) (sv_calls sv))"
  have e: "reap_calls now sv = sv\<lparr>sv_calls := fold AList.delete dead (sv_calls sv)\<rparr>"
    by (simp add: reap_calls_def dead_def Let_def)
  show ?thesis unfolding e
  proof (rule drop_calls_ok [OF assms, where P = "\<lambda>key. key \<in> set dead"])
    fix key c assume "key \<in> set dead" "callm sv key = Some c"
    moreover have "\<not> is_live d" if d: "(key, d) \<in> set (sv_calls sv)" "key \<in> set dead" for d
    proof -
      obtain d' where "(key, d') \<in> set (sv_calls sv)" "\<not> is_live d'" using d(2) by (auto simp: dead_def)
      then show ?thesis using eq_key_imp_eq_value [OF sv_okD(2) [OF assms]] d(1) by blast
    qed
    ultimately show "ca_participants c = []" using map_of_SomeD by (fastforce simp: is_live_def)
  qed (use sv_okD(2) [OF assms] in \<open>auto simp: map_of_fold_delete distinct_fold_delete\<close>)
qed

lemma handle_time_ok: "sv_ok sv \<Longrightarrow> runs_ok (handle_time ops fu now sv)"
  unfolding handle_time_def Let_def by (intro runs_ok_bind drain_ready_ok timeouts_loop_ok) (auto simp: reap_calls_ok)

lemma server_new_ok: "sv_ok (server_new cfg cands seed)"
  by (simp add: server_new_def sv_ok_def)

end
