(* ===== verification/VoiceProps.thy ===== *)
theory VoiceProps
  imports VoiceInv
begin

text \<open>
  The reachable states of the voice loop and what holds in them: the invariant, where a panic
  can come from, exact forwarding of media, unpairing, the slot registry; then two traces
  that show behaviour the code does not intend, and the examples of the properties.
\<close>

section \<open>The states of the loop\<close>

lemma run_event_ok:
  assumes "sv_ok sv"
  shows "runs_ok (run_event x ops fu now ev sv) \<or>
    run_event x ops fu now ev sv = Inl (V_panic ''sessions[&sid]'') \<and> (\<exists>cmd. ev = E_command cmd \<and> join_panics sv cmd)"
proof (cases ev)
  case (E_command cmd)
  consider "runs_ok (handle_command x ops fu now cmd sv)"
    | "handle_command x ops fu now cmd sv = Inl (V_panic ''sessions[&sid]'')" "join_panics sv cmd"
    using handle_command_ok [OF assms, of x ops fu now cmd] by blast
  then show ?thesis
  proof cases
    case 1
    then show ?thesis using E_command runs_ok_bind [OF 1 handle_time_ok] by (simp add: run_event_def)
  next
    case 2
    then show ?thesis using E_command by (simp add: run_event_def vbind_def)
  qed
next
  case (E_packet buf a)
  obtain sv' where "handle_packet ops now buf a sv = Inr sv'" "sv_ok sv'" using handle_packet_ok [OF assms, of ops now buf a] by blast
  then show ?thesis using E_packet handle_time_ok [of sv' ops fu now] by (simp add: run_event_def vbind_def)
next
  case (E_taken sid)
  have "sv_ok (put_session sid (s\<lparr>ss_room := ss_room s + 1\<rparr>) sv)" if "sess sv sid = Some s" for s
    using put_session_ok [OF assms that, of "s\<lparr>ss_room := ss_room s + 1\<rparr>"] sv_okD(4) [OF assms that] by simp
  then show ?thesis using E_taken assms by (simp add: run_event_def split: option.splits)
next
  case (E_dropped sid)
  have "sv_ok (put_session sid (s\<lparr>ss_gone := True\<rparr>) sv)" if "sess sv sid = Some s" for s
    using put_session_ok [OF assms that, of "s\<lparr>ss_gone := True\<rparr>"] sv_okD(4) [OF assms that] by simp
  then show ?thesis using E_dropped assms by (simp add: run_event_def split: option.splits)
qed (use handle_time_ok [OF assms, of ops fu now] in \<open>simp_all add: run_event_def\<close>)

text \<open>The states the loop of \<open>run\<close> is in between two events.\<close>

inductive vreach :: "ext \<Rightarrow> ('r, 'p) rtc_ops \<Rightarrow> fuel \<Rightarrow> ('r, 'p) server \<Rightarrow> bool" for x ops fu where
  vreach_new: "vreach x ops fu (server_new cfg candidates seed)"
| vreach_step: "vreach x ops fu sv \<Longrightarrow> run_event x ops fu now ev sv = Inr sv' \<Longrightarrow> vreach x ops fu sv'"

lemma vreach_ok: "vreach x ops fu sv \<Longrightarrow> sv_ok sv"
proof (induction rule: vreach.induct)
  case (vreach_step sv now ev sv')
  then show ?case using run_event_ok [of sv x ops fu now ev] by simp
qed (rule server_new_ok)

lemma vreach_run: "vreach x ops fu sv \<Longrightarrow> run_events x ops fu evs sv = Inr sv' \<Longrightarrow> vreach x ops fu sv'"
  by (induction x ops fu evs sv rule: run_events.induct) (auto simp: vbind_def split: sum.splits intro: vreach_step)

text \<open>C9: In every state of the voice loop, a session is in the roster of exactly the call it
  joined, in a call of its own Owner; rosters have no duplicates and keep within the call's
  cap, which is at least two and at most the relay's maximum; a call has no participant
  exactly when it carries the time since when it is empty; a session sends and queues only
  sources that are other participants of its call; an m-line that is not declared belongs to
  the offer in flight.\<close>
theorem voice_invariant:
  assumes "vreach x ops fu sv"
  shows "(\<forall>sid s key. sess sv sid = Some s \<longrightarrow>
            ss_call_key s = Some key \<longleftrightarrow> (\<exists>c. callm sv key = Some c \<and> sid \<in> set (ca_participants c))) \<and>
    (\<forall>sid s key. sess sv sid = Some s \<and> ss_call_key s = Some key \<longrightarrow> fst key = ss_owner s) \<and>
    (\<forall>key c. callm sv key = Some c \<longrightarrow> distinct (ca_participants c) \<and> (\<forall>p \<in> set (ca_participants c). sess sv p \<noteq> None) \<and>
       length (ca_participants c) \<le> unat (ca_cap c) \<and> 2 \<le> unat (ca_cap c) \<and>
       unat (ca_cap c) \<le> max 2 (unat (vg_max_participants (sv_cfg sv))) \<and>
       (ca_participants c = [] \<longleftrightarrow> ca_empty_since c \<noteq> None)) \<and>
    (\<forall>sid s. sess sv sid = Some s \<longrightarrow> fst ` (set (ss_tx_slots s)) \<union> fst ` (set (ss_queued s)) \<subseteq> peers (callm sv) sid s \<and>
       (\<forall>src slot. (src, slot) \<in> set (ss_tx_slots s) \<and> \<not> tx_declared slot \<longrightarrow> ss_pending s \<noteq> None))"
proof -
  have ok: "sv_ok sv" by (rule vreach_ok [OF assms])
  have c: "distinct (ca_participants c)" "\<And>p. p \<in> set (ca_participants c) \<Longrightarrow> \<exists>s. sess sv p = Some s \<and> ss_call_key s = Some key"
    "length (ca_participants c) \<le> unat (ca_cap c)" "2 \<le> unat (ca_cap c)"
    "unat (ca_cap c) \<le> max 2 (unat (vg_max_participants (sv_cfg sv)))"
    "ca_participants c = [] \<longleftrightarrow> ca_empty_since c \<noteq> None"
    if "callm sv key = Some c" for key c
    using sv_okD(5) [OF ok that] unfolding call_ok_def by (simp_all, blast?)
  have s: "\<exists>c. callm sv key = Some c \<and> sid \<in> set (ca_participants c)" "fst key = ss_owner s"
    if "sess sv sid = Some s" "ss_call_key s = Some key" for sid s key
    using sess_okD(8) [OF sv_okD(4) [OF ok that(1)] that(2)] by blast+
  have t: "fst ` set (ss_tx_slots s) \<subseteq> peers (callm sv) sid s" "fst ` set (ss_queued s) \<subseteq> peers (callm sv) sid s"
    "\<And>src slot. (src, slot) \<in> set (ss_tx_slots s) \<Longrightarrow> \<not> tx_declared slot \<Longrightarrow> ss_pending s \<noteq> None"
    if "sess sv sid = Some s" for sid s
    using sess_okD(5,6) [OF sv_okD(4) [OF ok that]] sess_okD(7) [OF sv_okD(4) [OF ok that]] by blast+
  have m: "ss_call_key s = Some key" if "sess sv sid = Some s" "callm sv key = Some c" "sid \<in> set (ca_participants c)" for sid s key c
    using c(2) [OF that(2,3)] that(1) by simp
  show ?thesis
  proof (intro conjI allI impI)
    show "ss_call_key q = Some key \<longleftrightarrow> (\<exists>d. callm sv key = Some d \<and> sid \<in> set (ca_participants d))"
      if "sess sv sid = Some q" for sid q key using s(1) m that by blast
    show "fst key = ss_owner q" if "sess sv sid = Some q \<and> ss_call_key q = Some key" for sid q key using s(2) that by blast
    show "\<forall>p \<in> set (ca_participants d). sess sv p \<noteq> None" if "callm sv key = Some d" for key d using c(2) [OF that] by auto
    show "fst ` set (ss_tx_slots q) \<union> fst ` set (ss_queued q) \<subseteq> peers (callm sv) sid q" if "sess sv sid = Some q" for sid q
      using t(1,2) [OF that] by blast
    show "ss_pending q \<noteq> None" if "sess sv sid = Some q" "(src, slot) \<in> set (ss_tx_slots q) \<and> \<not> tx_declared slot" for sid q src slot
      using t(3) [OF that(1)] that(2) by blast
  qed (rule c, assumption)+
qed

lemma join_panicsD:
  "join_panics sv cmd \<Longrightarrow> \<exists>sid token s. cmd = C_SessionFrame sid (CF_Join token) \<and> sess sv sid = Some s \<and> (ss_gone s \<or> ss_room s = 0)"
  by (cases cmd) (auto simp: join_panics_def split: client_frame.splits option.splits)

text \<open>C28: From a state of the loop, an event ends the loop with a panic only if it is the join
  of a session whose client has gone or whose channel is full; every other \<open>expect\<close> and index
  of the handlers is safe. (\<open>V_fuel\<close> is the model's bound on the media loops, not a panic.)\<close>
theorem voice_no_other_panic:
  assumes "vreach x ops fu sv" "run_event x ops fu now ev sv = Inl (V_panic m)"
  shows "m = ''sessions[&sid]'' \<and>
    (\<exists>sid token s. ev = E_command (C_SessionFrame sid (CF_Join token)) \<and> sess sv sid = Some s \<and> (ss_gone s \<or> ss_room s = 0))"
  using run_event_ok [OF vreach_ok [OF assms(1)], of x ops fu now ev] assms(2) by (auto dest: join_panicsD)

section \<open>Forwarding\<close>

text \<open>What a target's session is after a packet of \<open>src\<close>.\<close>

definition delivered :: "('r, 'p) rtc_ops \<Rightarrow> int \<Rightarrow> nat \<Rightarrow> rtp_packet \<Rightarrow> ('r, 'p) session \<Rightarrow> ('r, 'p) session" where
  "delivered ops now src p t =
     (case (map_of (ss_tx_slots t) src, ss_opus_pt t, ss_rtc t) of
        (Some slot, Some pt, Some r) \<Rightarrow>
          if tx_declared slot \<and> rt_has_stream ops (tx_ssrc slot) r
          then t\<lparr>ss_rtc := Some (rt_write_rtp ops (tx_ssrc slot)
                 \<lparr>rw_pt = pt, rw_seq = rp_seq p, rw_timestamp = rp_timestamp p, rw_at = now,
                  rw_payload = rp_payload p, rw_marker = rp_marker p, rw_ext = rp_ext p\<rparr> r)\<rparr>
          else t
      | _ \<Rightarrow> t)"

lemma forward_to_sess:
  "sess (forward_to ops now src p t sv) = (sess sv)(t := map_option (delivered ops now src p) (sess sv t))"
  "sv_calls (forward_to ops now src p t sv) = sv_calls sv" "sv_sent (forward_to ops now src p t sv) = sv_sent sv"
  "sv_registry (forward_to ops now src p t sv) = sv_registry sv"
  by (auto simp: forward_to_def delivered_def Let_def put_defs update_conv' fun_upd_idem_iff split: option.splits)

lemma forward_fold_sess:
  assumes "distinct ts"
  shows "sess (fold (forward_to ops now src p) ts sv) i =
      (if i \<in> set ts then map_option (delivered ops now src p) (sess sv i) else sess sv i)"
    "sv_calls (fold (forward_to ops now src p) ts sv) = sv_calls sv" "sv_sent (fold (forward_to ops now src p) ts sv) = sv_sent sv"
    "sv_registry (fold (forward_to ops now src p) ts sv) = sv_registry sv"
  using assms by (induction ts arbitrary: sv) (auto simp: forward_to_sess)

text \<open>C26: A packet of a participant reaches exactly the other participants of its call that
  have a declared m-line for it: each of those engines is given one write on that m-line with
  the packet's sequence number, timestamp, marker, extensions and payload unchanged; no other
  session, no call, no registered slot and no signalling frame changes.\<close>
theorem voice_forward_exact:
  assumes "vreach x ops fu sv" "sess sv src = Some s" "ss_call_key s = Some key"
  shows "\<exists>c. callm sv key = Some c \<and> src \<in> set (ca_participants c) \<and>
    (\<forall>i. sess (forward_rtp ops now src p sv) i =
      (if i \<in> set (ca_participants c) \<and> i \<noteq> src then map_option (delivered ops now src p) (sess sv i) else sess sv i)) \<and>
    sv_calls (forward_rtp ops now src p sv) = sv_calls sv \<and> sv_sent (forward_rtp ops now src p sv) = sv_sent sv \<and>
    sv_registry (forward_rtp ops now src p sv) = sv_registry sv"
proof -
  note ok = vreach_ok [OF assms(1)]
  obtain c where c: "callm sv key = Some c" "src \<in> set (ca_participants c)"
    using sess_okD(8) [OF sv_okD(4) [OF ok assms(2)] assms(3)] by blast
  have d: "distinct (filter (\<lambda>t. t \<noteq> src) (ca_participants c))" using sv_okD(5) [OF ok c(1)] by (simp add: call_ok_def)
  have "forward_rtp ops now src p sv = fold (forward_to ops now src p) (filter (\<lambda>t. t \<noteq> src) (ca_participants c)) sv"
    using assms(2,3) c by (simp add: forward_rtp_def)
  then show ?thesis using c forward_fold_sess [OF d, of ops now src p sv] by auto
qed

section \<open>Unpairing and slots\<close>

lemma close_other_calls:
  assumes "sv_ok sv" "\<And>s. sess sv sid = Some s \<Longrightarrow> ss_owner s = owner" "fst key \<noteq> owner"
  shows "callm (close_session now sid f sv) key = callm sv key"
proof (cases "sess sv sid")
  case None
  then show ?thesis by (simp add: close_absent)
next
  case (Some s)
  define sv' where "sv' = close_session now sid f sv"
  have "callm sv' = (case ss_call_key s of None \<Rightarrow> callm sv | Some key \<Rightarrow> (callm sv)(key := map_option (leave now sid) (callm sv key)))"
    using close_frame [OF assms(1) Some sv'_def] by blast
  moreover have "ss_call_key s \<noteq> Some key"
    using sess_okD(8) [OF sv_okD(4) [OF assms(1) Some], of key] assms(2) [OF Some] assms(3) by auto
  ultimately show ?thesis unfolding sv'_def by (auto split: option.splits)
qed

lemma close_all_others:
  assumes "sv_ok sv" "\<And>i s. i \<in> set sids \<Longrightarrow> sess sv i = Some s \<Longrightarrow> ss_owner s = owner"
  shows "(fst key \<noteq> owner \<longrightarrow> callm (fold (\<lambda>sid. close_session now sid f) sids sv) key = callm sv key) \<and>
    (\<forall>i s. sess sv i = Some s \<and> ss_owner s \<noteq> owner \<longrightarrow>
       (\<exists>t. sess (fold (\<lambda>sid. close_session now sid f) sids sv) i = Some t \<and> ss_owner t = ss_owner s \<and> ss_call_key t = ss_call_key s))"
  using assms
proof (induction sids arbitrary: sv)
  case (Cons sid sids)
  define sv1 where "sv1 = close_session now sid f sv"
  have ok1: "sv_ok sv1" and k: "keeps sid sv sv1"
    unfolding sv1_def by (rule close_ok [OF Cons.prems(1)], rule keeps_close [OF Cons.prems(1)])
  have bk: "\<exists>s. sess sv i = Some s \<and> ss_call_key t = ss_call_key s \<and> ss_owner t = ss_owner s" if "sess sv1 i = Some t" for i t
    using k that unfolding keeps_def by blast
  have own: "\<And>i s. i \<in> set sids \<Longrightarrow> sess sv1 i = Some s \<Longrightarrow> ss_owner s = owner"
    using bk Cons.prems(2) by (metis list.set_intros(2))
  have ih: "(fst key \<noteq> owner \<longrightarrow> callm (fold (\<lambda>sid. close_session now sid f) sids sv1) key = callm sv1 key) \<and>
    (\<forall>i s. sess sv1 i = Some s \<and> ss_owner s \<noteq> owner \<longrightarrow>
       (\<exists>t. sess (fold (\<lambda>sid. close_session now sid f) sids sv1) i = Some t \<and> ss_owner t = ss_owner s \<and> ss_call_key t = ss_call_key s))"
    by (rule Cons.IH [OF ok1 own])
  have there: "\<exists>t. sess sv1 i = Some t \<and> ss_owner t = ss_owner s \<and> ss_call_key t = ss_call_key s"
    if s: "sess sv i = Some s" "ss_owner s \<noteq> owner" for i s
  proof -
    have "i \<noteq> sid" using Cons.prems(2) [of i s] s by auto
    then obtain t where "sess sv1 i = Some t" using keeps_there [OF k, of i] s(1) by auto
    then show ?thesis using bk [of i t] s(1) by auto
  qed
  have "callm sv1 key = callm sv key" if "fst key \<noteq> owner"
    unfolding sv1_def by (rule close_other_calls [OF Cons.prems(1) Cons.prems(2) [of sid] that]) simp_all
  moreover have "\<exists>t. sess (fold (\<lambda>sid. close_session now sid f) sids sv1) i = Some t \<and> ss_owner t = ss_owner s \<and> ss_call_key t = ss_call_key s"
    if s: "sess sv i = Some s" "ss_owner s \<noteq> owner" for i s
  proof -
    obtain t where t: "sess sv1 i = Some t" "ss_owner t = ss_owner s" "ss_call_key t = ss_call_key s" using there [OF s] by blast
    then show ?thesis using conjunct2 [OF ih] s(2) by metis
  qed
  ultimately show ?case using ih by (simp add: sv1_def)
qed simp

lemma close_all_registry:
  assumes "sv_ok sv"
  shows "sv_registry (fold (\<lambda>sid. close_session now sid f) sids sv) = sv_registry sv"
  using assms
proof (induction sids arbitrary: sv)
  case (Cons sid sids)
  have "sv_registry (close_session now sid f sv) = sv_registry sv"
    using close_frame [OF Cons.prems, of sid _ "close_session now sid f sv" now f] close_absent [of sv sid now f]
    by (cases "sess sv sid") auto
  then show ?case using Cons.IH [OF close_ok [OF Cons.prems, of now sid f]] by simp
qed simp

text \<open>C27: Dropping an Owner ends all of it and nothing else: no session, call or registered
  slot of the Owner is left, every session of another Owner is still there in the same call,
  and the calls and registered slots of the other Owners are as before.\<close>
theorem voice_drop_owner:
  assumes "vreach x ops fu sv" "handle_command x ops fu now (C_DropOwner owner) sv = Inr sv'"
  shows "(\<forall>sid s. sess sv' sid = Some s \<longrightarrow> ss_owner s \<noteq> owner) \<and>
    (\<forall>h. callm sv' (owner, h) = None \<and> registry_lookup owner h (sv_registry sv') = None) \<and>
    (\<forall>sid s. sess sv sid = Some s \<and> ss_owner s \<noteq> owner \<longrightarrow>
       (\<exists>t. sess sv' sid = Some t \<and> ss_owner t = ss_owner s \<and> ss_call_key t = ss_call_key s)) \<and>
    (\<forall>other h. other \<noteq> owner \<longrightarrow> callm sv' (other, h) = callm sv (other, h) \<and>
       registry_lookup other h (sv_registry sv') = registry_lookup other h (sv_registry sv))"
proof -
  note ok = vreach_ok [OF assms(1)]
  define sv1 where "sv1 = sv\<lparr>sv_registry := registry_drop_owner owner (sv_registry sv)\<rparr>"
  define sids where "sids = map fst (filter (\<lambda>(_, s). ss_owner s = owner) (sv_sessions sv1))"
  define sv2 where "sv2 = fold (\<lambda>sid. close_session now sid (Some SF_Bye)) sids sv1"
  have ok1: "sv_ok sv1" using ok by (simp add: sv1_def)
  have e: "sv' = sv2\<lparr>sv_calls := filter (\<lambda>((ow, _), _). ow \<noteq> owner) (sv_calls sv2)\<rparr>" and d: "sv' = drop_owner now owner sv"
    using assms(2) by (simp_all add: handle_command_def drop_owner_def sv1_def sids_def sv2_def Let_def)
  have own: "ss_owner s = owner" if i: "i \<in> set sids" "sess sv1 i = Some s" for i s
  proof -
    obtain s' where "(i, s') \<in> set (sv_sessions sv1)" "ss_owner s' = owner" using i(1) by (auto simp: sids_def)
    then show ?thesis using map_of_is_SomeI [OF sv_okD(1) [OF ok1]] i(2) by fastforce
  qed
  have others: "(fst key \<noteq> owner \<longrightarrow> callm sv2 key = callm sv1 key) \<and>
    (\<forall>i s. sess sv1 i = Some s \<and> ss_owner s \<noteq> owner \<longrightarrow>
       (\<exists>t. sess sv2 i = Some t \<and> ss_owner t = ss_owner s \<and> ss_call_key t = ss_call_key s))" for key
    unfolding sv2_def by (rule close_all_others [OF ok1 own])
  have reg: "sv_registry sv2 = sv_registry sv1"
    unfolding sv2_def by (rule close_all_registry [OF ok1])
  have calls: "callm sv' key = (if fst key = owner then None else callm sv2 key)" for key
    by (cases key) (simp add: e map_of_filter_key [where P = "\<lambda>ow _. ow \<noteq> owner"])
  have lookup: "registry_lookup ow h (sv_registry sv') = (if ow = owner then None else registry_lookup ow h (sv_registry sv))" for ow h
    by (simp add: e reg sv1_def registry_lookup_def registry_drop_owner_def map_of_filter_key [where P = "\<lambda>ow _. ow \<noteq> owner"])
  have s': "sess sv' = sess sv2" by (simp add: e)
  show ?thesis
  proof (intro conjI allI impI)
    show "ss_owner s \<noteq> owner" if "sess sv' sid = Some s" for sid s using drop_owner_sessions [OF ok] that d by blast
    show "\<exists>t. sess sv' sid = Some t \<and> ss_owner t = ss_owner s \<and> ss_call_key t = ss_call_key s"
      if "sess sv sid = Some s \<and> ss_owner s \<noteq> owner" for sid s
      using others [of undefined] that unfolding s' by (simp add: sv1_def)
    show "callm sv' (other, h) = callm sv (other, h)" if "other \<noteq> owner" for other h
      using others [of "(other, h)"] that by (simp add: calls sv1_def)
  qed (simp_all add: calls lookup)
qed

text \<open>
  The registry as a map from Owner and token hash to the slot's maximum: \<open>slots_of\<close> is the
  map an entry list stands for, the last entry of a hash counting.
\<close>

definition slots_of :: "voice_slot_entry list \<Rightarrow> bytes \<Rightarrow> u16 option option" where
  "slots_of es = map_of (rev (map (\<lambda>e. (ve_token_hash e, ve_max_participants e)) (filter (\<lambda>e. length (ve_token_hash e) = 32) es)))"

lemma insert_all_lookup:
  "map_of (registry_insert_all owner es reg) (ow, h) =
     (if ow = owner then case slots_of es h of None \<Rightarrow> map_of reg (ow, h) | Some m \<Rightarrow> Some m else map_of reg (ow, h))"
  by (induction owner es reg rule: registry_insert_all.induct)
    (auto simp: slots_of_def update_conv' map_add_def split: option.splits)

text \<open>C29: Registering an Owner's slots replaces them: afterwards a token hash is known for the
  Owner exactly when the pushed list has an entry of 32 bytes for it, with the maximum of the
  last such entry, and the slots of the other Owners are as before.\<close>
theorem voice_register_refines:
  "registry_lookup ow h (registry_replace_set owner es reg) = (if ow = owner then slots_of es h else registry_lookup ow h reg)"
  by (auto simp: registry_lookup_def registry_replace_set_def insert_all_lookup map_of_filter_key [where P = "\<lambda>ow _. ow \<noteq> owner"]
      split: option.splits)

section \<open>Examples\<close>

text \<open>An engine that answers everything, is never busy and records what it is asked to write.\<close>

definition log_ops :: "((u32 \<times> rtp_write) list, unit) rtc_ops" where
  "log_ops = \<lparr>
     rt_build = (\<lambda>_. []), rt_add_local = (\<lambda>_ r. r), rt_datagram = (\<lambda>_. True), rt_accepts = (\<lambda>_ _. False),
     rt_handle_input = (\<lambda>_ r. (True, r)), rt_poll_output = (\<lambda>r. (Out_timeout 1000000, r)), rt_is_alive = (\<lambda>_. True),
     rt_parse_offer = (\<lambda>_. True), rt_accept_offer = (\<lambda>_ r. (Some ''answer'', r)), rt_opus_pt = (\<lambda>_. Some 111),
     rt_parse_answer = (\<lambda>_. True), rt_accept_answer = (\<lambda>_ _ r. (True, r)), rt_add_media = (\<lambda>r. (''1'', r)),
     rt_apply = (\<lambda>r. (Some (''offer'', ()), r)), rt_parse_candidate = (\<lambda>_. True), rt_add_remote = (\<lambda>_ r. r),
     rt_stream_by_mid = (\<lambda>_ _. None), rt_declare_tx = (\<lambda>_ _ r. r), rt_has_stream = (\<lambda>_ _. True),
     rt_write_rtp = (\<lambda>ssrc w r. r @ [(ssrc, w)])\<rparr>"

definition ex_fuel :: fuel where
  "ex_fuel = \<lparr>fu_poll = Suc 0, fu_drain = Suc (Suc (Suc (Suc 0)))\<rparr>"

definition ex_cfg :: voice_cfg where
  "ex_cfg = \<lparr>vg_max_participants = 8, vg_max_concurrent_calls = 1, vg_idle_reap = 60\<rparr>"

definition ex_token :: "byte \<Rightarrow> bytes" where
  "ex_token b = replicate 32 b"

definition ex_entry :: "byte \<Rightarrow> voice_slot_entry" where
  "ex_entry b = \<lparr>ve_token_hash = blake2b256 plain_ext (ex_token b), ve_max_participants = None\<rparr>"

abbreviation vrun :: "(int \<times> vevent) list \<Rightarrow> ((u32 \<times> rtp_write) list, unit) vres" where
  "vrun evs \<equiv> run_events plain_ext log_ops ex_fuel evs (server_new ex_cfg [] 0)"

lemma log_ops_sel [simp]:
  "rt_build log_ops t = []" "rt_add_local log_ops a r = r" "rt_handle_input log_ops inp r = (True, r)"
  "rt_poll_output log_ops r = (Out_timeout 1000000, r)" "rt_is_alive log_ops r" "rt_parse_offer log_ops sdp"
  "rt_accept_offer log_ops sdp r = (Some ''answer'', r)" "rt_opus_pt log_ops r = Some 111" "rt_parse_answer log_ops sdp"
  "rt_accept_answer log_ops pd sdp r = (True, r)" "rt_add_media log_ops r = (''1'', r)" "rt_apply log_ops r = (Some (''offer'', ()), r)"
  "rt_stream_by_mid log_ops mid r = None" "rt_declare_tx log_ops ssrc mid r = r" "rt_has_stream log_ops ssrc r"
  "rt_write_rtp log_ops ssrc w r = r @ [(ssrc, w)]"
  by (simp_all add: log_ops_def)

lemma ex_hash_eq [simp]: "blake2b256 plain_ext (ex_token b) = ex_token b"
  by (simp add: blake2b256_def plain_ext_def ex_token_def)

lemma ex_token_simps [simp]: "length (ex_token b) = 32" "ex_token a = ex_token b \<longleftrightarrow> a = b"
  by (simp_all add: ex_token_def)

lemmas voice_eval = run_event_def handle_command_def handle_frame_def handle_time_def handle_join_def handle_offer_def
  handle_answer_def vbind_def server_new_def registry_replace_set_def registry_lookup_def ex_entry_def session_new_def
  put_session_def put_call_def push_dirty_def reap_calls_def drain_session_def ex_fuel_def ex_cfg_def call_new_def
  join_cap_def admit_def mint_sfu_id_def other_sources_def send_def try_send_def close_session_def notify_left_def
  maybe_negotiate_def is_live_def Let_def map_filter_simps alloc_ssrc_def leave_def


text \<open>The limit of concurrent calls can be passed: a call whose participants have left keeps
  its entry until it is reaped, a join to such an entry is not counted against the limit, and
  with a limit of one the loop reaches two live calls.\<close>
theorem voice_call_limit_passed:
  "\<exists>sv. vrun [(0, E_command (C_RegisterSlots ex_key [ex_entry 1, ex_entry 2])),
      (1, E_command (C_OpenSession ex_key True)), (1, E_command (C_SessionFrame 1 (CF_Join (ex_token 1)))),
      (2, E_command (C_SessionFrame 1 CF_Bye)),
      (3, E_command (C_OpenSession ex_key True)), (3, E_command (C_SessionFrame 2 (CF_Join (ex_token 2)))),
      (4, E_command (C_OpenSession ex_key True)), (4, E_command (C_SessionFrame 3 (CF_Join (ex_token 1))))] = Inr sv \<and>
    vg_max_concurrent_calls (sv_cfg sv) = 1 \<and> length (filter (\<lambda>(_, c). is_live c) (sv_calls sv)) = 2"
  by (simp add: voice_eval)

lemma ex_one_joined:
  "\<exists>sv. vrun [(0, E_command (C_RegisterSlots ex_key [ex_entry 1])),
      (1, E_command (C_OpenSession ex_key True)), (1, E_command (C_SessionFrame 1 (CF_Join (ex_token 1))))] = Inr sv \<and>
    map_option ss_call_key (sess sv 1) = Some (Some (ex_key, ex_token 1))"
  by (simp add: voice_eval)

lemma ex_joined:
  obtains sv s where "vreach plain_ext log_ops ex_fuel sv" "sess sv 1 = Some s" "ss_call_key s = Some (ex_key, ex_token 1)"
proof -
  obtain sv where sv: "vrun [(0, E_command (C_RegisterSlots ex_key [ex_entry 1])),
      (1, E_command (C_OpenSession ex_key True)), (1, E_command (C_SessionFrame 1 (CF_Join (ex_token 1))))] = Inr sv"
    "map_option ss_call_key (sess sv 1) = Some (Some (ex_key, ex_token 1))"
    using ex_one_joined by blast
  then obtain s where "sess sv 1 = Some s" "ss_call_key s = Some (ex_key, ex_token 1)" by (cases "sess sv 1") auto
  then show ?thesis using that [OF vreach_run [OF vreach_new sv(1)]] by blast
qed

theorem voice_invariant_witness:
  "\<exists>sv s. vreach plain_ext log_ops ex_fuel sv \<and> sess sv 1 = Some s \<and> ss_call_key s = Some (ex_key, ex_token 1) \<and>
     (\<exists>c. callm sv (ex_key, ex_token 1) = Some c \<and> 1 \<in> set (ca_participants c))"
proof -
  obtain sv s where sv: "vreach plain_ext log_ops ex_fuel sv" "sess sv 1 = Some s" "ss_call_key s = Some (ex_key, ex_token 1)"
    by (rule ex_joined)
  from conjunct1 [OF voice_invariant [OF sv(1)]] sv(2,3)
  have "\<exists>c. callm sv (ex_key, ex_token 1) = Some c \<and> 1 \<in> set (ca_participants c)" by blast
  with sv show ?thesis by blast
qed

theorem voice_no_other_panic_witness:
  "\<exists>sv m. vreach plain_ext log_ops ex_fuel sv \<and>
     run_event plain_ext log_ops ex_fuel 3 (E_command (C_SessionFrame 1 (CF_Join (ex_token 1)))) sv = Inl (V_panic m) \<and> m = ''sessions[&sid]''"
proof -
  have "\<exists>sv. vrun [(0, E_command (C_RegisterSlots ex_key [ex_entry 1])), (1, E_command (C_OpenSession ex_key True)), (2, E_dropped 1)] = Inr sv \<and>
      (\<exists>m. run_event plain_ext log_ops ex_fuel 3 (E_command (C_SessionFrame 1 (CF_Join (ex_token 1)))) sv = Inl (V_panic m))"
    by (simp add: voice_eval)
  then obtain sv m where sv: "vrun [(0, E_command (C_RegisterSlots ex_key [ex_entry 1])), (1, E_command (C_OpenSession ex_key True)), (2, E_dropped 1)] = Inr sv"
    and m: "run_event plain_ext log_ops ex_fuel 3 (E_command (C_SessionFrame 1 (CF_Join (ex_token 1)))) sv = Inl (V_panic m)"
    by blast
  note r = vreach_run [OF vreach_new sv]
  from voice_no_other_panic [OF r m] r m show ?thesis by blast
qed

theorem voice_drop_owner_witness:
  "\<exists>sv sv'. vreach plain_ext log_ops ex_fuel sv \<and> sess sv 1 \<noteq> None \<and>
     handle_command plain_ext log_ops ex_fuel 9 (C_DropOwner ex_key) sv = Inr sv' \<and> callm sv' (ex_key, ex_token 1) = None"
proof -
  obtain sv s where sv: "vreach plain_ext log_ops ex_fuel sv" "sess sv 1 = Some s" by (rule ex_joined)
  have h: "handle_command plain_ext log_ops ex_fuel 9 (C_DropOwner ex_key) sv = Inr (drop_owner 9 ex_key sv)"
    by (simp add: handle_command_def)
  have "callm (drop_owner 9 ex_key sv) (ex_key, ex_token 1) = None" using voice_drop_owner [OF sv(1) h] by blast
  with sv h show ?thesis by blast
qed

text \<open>Two participants, the second with its m-line for the first declared.\<close>

definition ex_two_evs :: "(int \<times> vevent) list" where
  "ex_two_evs = [(0, E_command (C_RegisterSlots ex_key [ex_entry 1])),
      (1, E_command (C_OpenSession ex_key True)), (1, E_command (C_SessionFrame 1 (CF_Join (ex_token 1)))),
      (2, E_command (C_OpenSession ex_key True)), (2, E_command (C_SessionFrame 2 (CF_Join (ex_token 1)))),
      (3, E_command (C_SessionFrame 2 (CF_Offer ''o''))), (4, E_command (C_SessionFrame 2 (CF_Answer ''a'')))]"

definition ex_two_ok :: "((u32 \<times> rtp_write) list, unit) server \<Rightarrow> bool" where
  "ex_two_ok sv \<longleftrightarrow> map_option ss_call_key (sess sv 1) = Some (Some (ex_key, ex_token 1)) \<and>
     map_option (\<lambda>t. (ss_call_key t, ss_opus_pt t, ss_rtc t, map_of (ss_tx_slots t) 1)) (sess sv 2) =
       Some (Some (ex_key, ex_token 1), Some 111, Some [], Some \<lparr>tx_mid = ''1'', tx_ssrc = 0x53540001, tx_declared = True\<rparr>)"

lemma ex_two: "\<exists>sv. vrun ex_two_evs = Inr sv \<and> ex_two_ok sv"
  by (simp add: voice_eval ex_two_evs_def ex_two_ok_def)

theorem voice_forward_exact_witness:
  "\<exists>sv s c t. vreach plain_ext log_ops ex_fuel sv \<and> sess sv 1 = Some s \<and> ss_call_key s = Some (ex_key, ex_token 1) \<and>
     callm sv (ex_key, ex_token 1) = Some c \<and> 2 \<in> set (ca_participants c) \<and>
     sess (forward_rtp log_ops 7 1 \<lparr>rp_seq = 5, rp_timestamp = 6, rp_payload = [1, 2], rp_marker = True, rp_ext = []\<rparr> sv) 2 = Some t \<and>
     ss_rtc t = Some [(0x53540001, \<lparr>rw_pt = 111, rw_seq = 5, rw_timestamp = 6, rw_at = 7, rw_payload = [1, 2], rw_marker = True, rw_ext = []\<rparr>)]"
proof -
  let ?p = "\<lparr>rp_seq = 5, rp_timestamp = 6, rp_payload = [1, 2], rp_marker = True, rp_ext = []\<rparr>"
  let ?w = "\<lparr>rw_pt = 111, rw_seq = 5, rw_timestamp = 6, rw_at = 7, rw_payload = [1, 2], rw_marker = True, rw_ext = []\<rparr>"
  obtain sv where r: "vrun ex_two_evs = Inr sv" and k: "ex_two_ok sv" using ex_two by blast
  then obtain s t where sv: "vreach plain_ext log_ops ex_fuel sv" "sess sv 1 = Some s" "ss_call_key s = Some (ex_key, ex_token 1)"
    and t: "sess sv 2 = Some t" "ss_call_key t = Some (ex_key, ex_token 1)" "ss_opus_pt t = Some 111" "ss_rtc t = Some []"
      "map_of (ss_tx_slots t) 1 = Some \<lparr>tx_mid = ''1'', tx_ssrc = 0x53540001, tx_declared = True\<rparr>"
    using vreach_run [OF vreach_new r] by (auto simp: ex_two_ok_def)
  have d: "ss_rtc (delivered log_ops 7 1 ?p t) = Some [(0x53540001, ?w)]" using t by (simp add: delivered_def)
  obtain c where c: "callm sv (ex_key, ex_token 1) = Some c"
    "sess (forward_rtp log_ops 7 1 ?p sv) 2 =
      (if 2 \<in> set (ca_participants c) \<and> (2 :: nat) \<noteq> 1 then map_option (delivered log_ops 7 1 ?p) (sess sv 2) else sess sv 2)"
    using voice_forward_exact [OF sv, of 7 ?p] by blast
  moreover have "2 \<in> set (ca_participants c)"
    using sess_okD(8) [OF sv_okD(4) [OF vreach_ok [OF sv(1)] t(1)] t(2)] c(1) by auto
  ultimately have "sess (forward_rtp log_ops 7 1 ?p sv) 2 = Some (delivered log_ops 7 1 ?p t)" using t(1) by simp
  with sv c(1) \<open>2 \<in> set (ca_participants c)\<close> d show ?thesis by blast
qed

end
