(* ===== verification/Startup.thy ===== *)
theory Startup imports Gc Config Admin VoiceProps "HOL-Library.Multiset" begin

text \<open>
  The relay binary (\<open>starling-relay/src/main.rs\<close>) and the start of the voice server
  (\<open>starling-relay-voice/src/lib.rs\<close>): the order in which \<open>serve\<close> brings the components up, the
  boot load of the slot registry, the warning about an open admin UI, \<open>set-password\<close>.

  What the operating system and Tor answer is the record \<open>boot_env\<close>. Sockets that are served by
  tasks of their own appear by whether they could be bound.
\<close>

section \<open>The voice server\<close>

text \<open>\<open>VoiceServer::start\<close>: the socket's address, if it could be bound, and the interfaces.\<close>

definition voice_server_start ::
  "(socket_addr \<Rightarrow> str) \<Rightarrow> ip_addr list \<Rightarrow> socket_addr option \<Rightarrow> u64 \<Rightarrow> voice_cfg \<Rightarrow> advertised_addr list \<Rightarrow> fault + ('r, 'p) server" where
  "voice_server_start fmt ifaces bound seed cfg advertised =
     (case bound of
        None \<Rightarrow> Inl (Other_fault ''bind voice UDP socket'')
      | Some local_addr \<Rightarrow>
          (let candidates = candidate_addrs ifaces local_addr advertised
           in if candidates = [] then Inl (Other_fault ''voice: no usable candidate address'')
              else Inr (server_new cfg (map fmt candidates) seed)))"

text \<open>The rows grouped by Owner, in the order of the rows; a key that is not of 32 bytes is skipped.\<close>

fun group_slots :: "voice_slot list \<Rightarrow> (bytes \<times> voice_slot_entry list) list \<Rightarrow> (bytes \<times> voice_slot_entry list) list" where
  "group_slots [] by_owner = by_owner"
| "group_slots (row # rows) by_owner =
     group_slots rows
       (case to_pubkey (sl_pubkey row) of
          None \<Rightarrow> by_owner
        | Some pubkey \<Rightarrow>
            AList.update pubkey
              ((case map_of by_owner pubkey of None \<Rightarrow> [] | Some es \<Rightarrow> es) @
               [\<lparr>ve_token_hash = sl_token_hash row, ve_max_participants = sl_max_participants row\<rparr>]) by_owner)"

text \<open>
  \<open>bo_order\<close>: the order in which the hash map is iterated. \<open>bo_slots_ok\<close>: the query works.
\<close>

record boot_env =
  bo_data_dir :: bool
  bo_media_dir :: bool
  bo_arti_dir :: bool
  bo_open :: bool
  bo_gc :: gc_env
  bo_arti :: bool
  bo_pair_bound :: bool
  bo_admin_onion :: "str option"
  bo_fmt :: "socket_addr \<Rightarrow> str"
  bo_ifaces :: "ip_addr list"
  bo_bound :: "socket_addr option"
  bo_seed :: u64
  bo_slots_ok :: bool
  bo_order :: "(bytes \<times> voice_slot_entry list) list \<Rightarrow> (bytes \<times> voice_slot_entry list) list"
  bo_sup :: sup_env
  bo_admin_bound :: bool

definition start_voice :: "config \<Rightarrow> boot_env \<Rightarrow> db \<Rightarrow> fault + ('r, 'p) server \<times> command list" where
  "start_voice c e db =
     (case those (map parse_advertised (vf_advertised_addrs (cf_voice c))) of
        None \<Rightarrow> Inl (Other_fault ''parse voice.advertised_addrs'')
      | Some advertised \<Rightarrow>
          (case voice_server_start (bo_fmt e) (bo_ifaces e) (bo_bound e) (bo_seed e)
                  \<lparr>vg_max_participants = vf_max_participants (cf_voice c),
                   vg_max_concurrent_calls = unat (vf_max_concurrent_calls (cf_voice c)), vg_idle_reap = 60000\<rparr> advertised of
             Inl err \<Rightarrow> Inl err
           | Inr sv \<Rightarrow>
               if \<not> bo_slots_ok e then Inl Pool_exhausted
               else Inr (sv, map (\<lambda>(owner, slots). C_RegisterSlots owner slots) (bo_order e (group_slots (slots_list_all db) [])))))"

section \<open>\<open>serve\<close>\<close>

definition ensure_dirs :: "boot_env \<Rightarrow> fault + unit" where
  "ensure_dirs e =
     (if \<not> bo_data_dir e then Inl (Other_fault ''create data dir'')
      else if \<not> bo_media_dir e then Inl (Other_fault ''create media dir'')
      else if \<not> bo_arti_dir e then Inl (Other_fault ''create arti dir'')
      else Inr ())"

record ('r, 'p) relay =
  ry_sup :: sup
  ry_cfg :: sup_cfg
  ry_tree :: node
  ry_voice :: "(('r, 'p) server \<times> command list) option"

text \<open>\<open>serve\<close> up to \<open>relay ready\<close>, on a database that is open and migrated.\<close>

definition serve_boot :: "ext \<Rightarrow> config \<Rightarrow> boot_env \<Rightarrow> db \<Rightarrow> node \<Rightarrow> fs \<Rightarrow> fault + ('r, 'p) relay" where
  "serve_boot x c e db t fs =
     (case ensure_dirs e of
        Inl err \<Rightarrow> Inl err
      | Inr _ \<Rightarrow>
          if \<not> bo_open e then Inl (Other_fault ''open'')
          else
            let (_, db1, t1) = gc_sweep x (bo_gc e) db t
            in if \<not> bo_arti e then Inl (Other_fault ''start Arti'')
               else if \<not> bo_pair_bound e then Inl (Other_fault ''bind pair loopback listener'')
               else
                 case bo_admin_onion e of
                   None \<Rightarrow> Inl (Other_fault ''launch admin onion'')
                 | Some admin_onion \<Rightarrow>
                     (case (if vf_enabled (cf_voice c) then map_sum id Some (start_voice c e db1) else Inr None) of
                        Inl err \<Rightarrow> Inl err
                      | Inr voice \<Rightarrow>
                          (let scfg = \<lparr>sg_caps = \<lparr>cp_per_owner_default = cf_per_owner_default_cap_bytes c, cp_disk_cap = cf_disk_cap_bytes c\<rparr>,
                                       sg_admin_onion = admin_onion, sg_port_range = cf_local_port_range c,
                                       sg_voice = map_option (\<lambda>_. vf_max_participants (cf_voice c)) voice\<rparr>
                           in case restore_all x (bo_sup e) (supervisor_new db1 fs) of
                                (Inl err, _) \<Rightarrow> Inl err
                              | (Inr _, s) \<Rightarrow>
                                  if \<not> bo_admin_bound e then Inl (Other_fault ''bind admin UI'')
                                  else Inr \<lparr>ry_sup = s, ry_cfg = scfg, ry_tree = t1, ry_voice = voice\<rparr>)))"

section \<open>The admin UI's exposure\<close>

definition loopback_bind :: "str \<Rightarrow> bool" where
  "loopback_bind bind_admin \<longleftrightarrow>
     take 10 bind_admin = ''localhost:'' \<or>
     (case parse_all read_socket bind_admin of None \<Rightarrow> False | Some sa \<Rightarrow> is_loopback (sa_ip sa))"

text \<open>Whether the warning is logged; \<open>pool\<close>: the database can be reached.\<close>

definition warn_if_admin_exposed_without_password :: "bool \<Rightarrow> str \<Rightarrow> db \<Rightarrow> bool" where
  "warn_if_admin_exposed_without_password pool bind_admin db \<longleftrightarrow>
     \<not> loopback_bind bind_admin \<and> \<not> (pool \<and> creds_get db \<noteq> None)"

text \<open>\<open>hash\<close>: Argon2 with a fresh salt.\<close>

definition cmd_set_password :: "(str \<Rightarrow> str option) \<Rightarrow> bool \<Rightarrow> int \<Rightarrow> str \<Rightarrow> db \<Rightarrow> fault + db" where
  "cmd_set_password hash pool now line db =
     (let pw = trim line
      in if pw = [] then Inl (Other_fault ''empty password'')
         else case hash pw of
                None \<Rightarrow> Inl (Other_fault ''argon2 hash'')
              | Some h \<Rightarrow> if \<not> pool then Inl Pool_exhausted else Inr (creds_set h now db))"

section \<open>The boot load of the slots\<close>

definition entries_of :: "bytes \<Rightarrow> voice_slot list \<Rightarrow> voice_slot_entry list" where
  "entries_of pk rows =
     map (\<lambda>r. \<lparr>ve_token_hash = sl_token_hash r, ve_max_participants = sl_max_participants r\<rparr>) (filter (\<lambda>r. sl_pubkey r = pk) rows)"

lemma group_slots_get:
  "map_of (group_slots rows m) pk =
     (if length pk = 32 \<and> entries_of pk rows \<noteq> [] then Some ((case map_of m pk of None \<Rightarrow> [] | Some es \<Rightarrow> es) @ entries_of pk rows)
      else map_of m pk)"
proof (induction rows m rule: group_slots.induct)
  case (2 row rows m)
  then show ?case
    by (cases "to_pubkey (sl_pubkey row)") (auto simp: entries_of_def to_pubkey_def update_conv' split: if_splits option.splits)
qed (simp add: entries_of_def)

lemma group_slots_keys: "distinct (map fst m) \<Longrightarrow> distinct (map fst (group_slots rows m))"
  by (induction rows m rule: group_slots.induct) (auto simp: distinct_update split: option.splits)

lemma replace_set_lookup:
  "registry_lookup ow h (registry_replace_set owner es reg) = (if ow = owner then slots_of es h else registry_lookup ow h reg)"
  by (auto simp: registry_lookup_def registry_replace_set_def insert_all_lookup map_of_filter_key [where P = "\<lambda>ow _. ow \<noteq> owner"]
      split: option.splits)

lemma replace_all_lookup:
  assumes "distinct (map fst groups)"
  shows "registry_lookup ow h (fold (\<lambda>(owner, es). registry_replace_set owner es) groups reg) =
    (case map_of groups ow of None \<Rightarrow> registry_lookup ow h reg | Some es \<Rightarrow> slots_of es h)"
  using assms
proof (induction groups arbitrary: reg)
  case (Cons g groups)
  obtain owner es where g: "g = (owner, es)" by (cases g)
  have "map_of groups owner = None" using Cons.prems g by (simp add: map_of_eq_None_iff)
  then show ?case using Cons g by (auto simp: replace_set_lookup split: option.splits)
qed simp

lemma map_of_perm: "mset ys = mset xs \<Longrightarrow> distinct (map fst xs) \<Longrightarrow> map_of ys = map_of xs \<and> distinct (map fst ys)"
proof -
  assume m: "mset ys = mset xs" and d: "distinct (map fst xs)"
  have "mset (map fst ys) = mset (map fst xs)" using m by simp
  then have "distinct (map fst ys)" using d mset_eq_imp_distinct_iff by blast
  moreover have "map_of ys = map_of xs" using map_of_inject_set [of ys xs] calculation d mset_eq_setD [OF m] by blast
  ultimately show ?thesis by blast
qed

lemma slots_of_entries:
  assumes "tbl_keys sl_key (d_slots db)"
  shows "slots_of (entries_of pk (slots_list_all db)) h = Some m \<longleftrightarrow>
    (\<exists>r \<in> set (d_slots db). sl_pubkey r = pk \<and> sl_token_hash r = h \<and> length h = 32 \<and> sl_max_participants r = m)"
proof -
  let ?l = "map (\<lambda>e. (ve_token_hash e, ve_max_participants e)) (filter (\<lambda>e. length (ve_token_hash e) = 32) (entries_of pk (slots_list_all db)))"
  have l: "?l = map (\<lambda>r. (sl_token_hash r, sl_max_participants r))
      (filter (\<lambda>r. length (sl_token_hash r) = 32 \<and> sl_pubkey r = pk) (slots_list_all db))"
    by (simp add: entries_of_def filter_map comp_def conj_commute)
  have "distinct (map sl_key (slots_list_all db))"
    using assms by (simp add: tbl_keys_def slots_list_all_def distinct_map inj_on_def)
  then have "inj_on sl_key (set (slots_list_all db))" "distinct (slots_list_all db)" by (simp_all add: distinct_map)
  then have "distinct (map fst ?l)" unfolding l
    by (auto simp: distinct_map inj_on_def)
  then have "distinct (map fst (rev ?l))" by (simp add: rev_map [symmetric])
  then have "slots_of (entries_of pk (slots_list_all db)) h = Some m \<longleftrightarrow> (h, m) \<in> set (rev ?l)"
    unfolding slots_of_def by (rule map_of_eq_Some_iff)
  then show ?thesis unfolding set_rev l by (auto simp: slots_list_all_def)
qed

section \<open>Boot\<close>

text \<open>The sweep only ever removes rows of the media table.\<close>

lemma phantom_loop_media: "\<exists>Q. snd (phantom_loop pk rows t stats db) = db\<lparr>d_media := filter Q (d_media db)\<rparr>"
proof (induction pk rows t stats db rule: phantom_loop.induct)
  case (1 pubkey t stats db)
  show ?case by (intro exI [of _ "\<lambda>_. True"]) simp
next
  case (2 pubkey row rows t stats db)
  obtain Q where q: "snd (media_delete pubkey (sm_hash row) db) = db\<lparr>d_media := filter Q (d_media db)\<rparr>"
  proof (cases "media_get pubkey (sm_hash row) db")
    case None
    then show thesis using that [of "\<lambda>_. True"] by (simp add: media_delete_def)
  next
    case (Some r)
    then show thesis using that by (simp add: media_delete_def tbl_delete_def)
  qed
  show ?case
  proof (cases "lookup_path (components (sm_path row)) t \<noteq> None")
    case True
    then show ?thesis using 2(1) by simp
  next
    case False
    then show ?thesis using 2(2) q by auto
  qed
qed

lemma owners_loop_media: "\<exists>Q. fst (snd (owners_loop x g owners stats db t)) = db\<lparr>d_media := filter Q (d_media db)\<rparr>"
proof (induction owners arbitrary: stats db t)
  case Nil
  show ?case by (intro exI [of _ "\<lambda>_. True"]) simp
next
  case (Cons ow owners)
  define rows where "rows = media_rows_for_owner (po_pubkey ow) db"
  obtain stats1 t1 where o: "orphan_loop g (map (\<lambda>r. components (sm_path r)) rows)
      (walk_files (g_readable g) [x_hex_encode x (po_pubkey ow)] (lookup_path [x_hex_encode x (po_pubkey ow)] t)) stats t = (stats1, t1)"
    by fastforce
  obtain stats2 db1 where p: "phantom_loop (po_pubkey ow) rows t1 stats1 db = (stats2, db1)" by fastforce
  obtain Q where "db1 = db\<lparr>d_media := filter Q (d_media db)\<rparr>" using phantom_loop_media [of "po_pubkey ow" rows t1 stats1 db] p by auto
  moreover obtain Q' where "fst (snd (owners_loop x g owners stats2 db1 t1)) = db1\<lparr>d_media := filter Q' (d_media db1)\<rparr>" using Cons by blast
  moreover have "owners_loop x g (ow # owners) stats db t = owners_loop x g owners stats2 db1 t1"
    using o p by (simp add: rows_def)
  ultimately show ?case by (intro exI [of _ "\<lambda>r. Q r \<and> Q' r"]) (simp add: conj_commute)
qed

lemma gc_sweep_media:
  obtains Q r t1 where "gc_sweep x g db t = (r, db\<lparr>d_media := filter Q (d_media db)\<rparr>, t1)"
proof (cases "g_pool_ok g")
  case False
  then show thesis using that [of _ "\<lambda>_. True"] by (simp add: gc_sweep_def)
next
  case True
  obtain stats1 t1 where u: "unknown_dirs_loop g (map (\<lambda>r. x_hex_encode x (po_pubkey r)) (owners_list db))
      (read_dir_or_empty (g_readable g []) (Some t)) \<lparr>unknown_owner_dirs_removed = 0, orphan_files_removed = 0, phantom_rows_removed = 0\<rparr> t =
      (stats1, t1)" by fastforce
  obtain stats2 db2 t2 where o: "owners_loop x g (owners_list db) stats1 db t1 = (stats2, db2, t2)" by (metis prod_cases3)
  obtain Q where "db2 = db\<lparr>d_media := filter Q (d_media db)\<rparr>" using owners_loop_media [of x g "owners_list db" stats1 db t1] o by auto
  then show thesis using that True u o by (simp add: gc_sweep_def)
qed

lemma db_inv_media_filter: "db_inv db \<Longrightarrow> db_inv (db\<lparr>d_media := filter Q (d_media db)\<rparr>)"
  by (auto simp: db_inv_def tbl_keys_def distinct_map_filter fk_ok_def)

lemma those_some: "(\<And>a. a \<in> set xs \<Longrightarrow> f a \<noteq> None) \<Longrightarrow> \<exists>ys. those (map f xs) = Some ys"
proof (induction xs)
  case (Cons a xs)
  then obtain y ys where "f a = Some y" "those (map f xs) = Some ys" by fastforce
  then show ?case by simp
qed simp

text \<open>An idle server: no session, no call.\<close>

lemma idle_time: "sv_sessions sv = [] \<Longrightarrow> sv_calls sv = [] \<Longrightarrow> sv_dirty sv = [] \<Longrightarrow> handle_time ops fu now sv = Inr sv"
  by (cases "fu_drain fu") (simp_all add: handle_time_def vbind_def reap_calls_def)

lemma register_events:
  assumes "sv_sessions sv = []" "sv_calls sv = []" "sv_dirty sv = []"
  shows "run_events x ops fu (map (\<lambda>(owner, slots). (now, E_command (C_RegisterSlots owner slots))) groups) sv =
    Inr (sv\<lparr>sv_registry := fold (\<lambda>(owner, es). registry_replace_set owner es) groups (sv_registry sv)\<rparr>)"
  using assms
proof (induction groups arbitrary: sv)
  case (Cons g groups)
  obtain owner es where g: "g = (owner, es)" by (cases g)
  let ?sv = "sv\<lparr>sv_registry := registry_replace_set owner es (sv_registry sv)\<rparr>"
  have "run_event x ops fu now (E_command (C_RegisterSlots owner es)) sv = Inr ?sv"
    using Cons.prems idle_time [of ?sv] by (simp add: run_event_def handle_command_def vbind_def)
  then show ?case using Cons.IH [of ?sv] Cons.prems g by (simp add: vbind_def)
qed simp

lemma candidates_grow:
  assumes "candidate_addrs ifaces b [] \<noteq> []"
  shows "candidate_addrs ifaces b adv \<noteq> []"
proof -
  have push: "push_addr a out \<noteq> []" for a out by (auto simp: push_addr_def)
  have "fold (\<lambda>a out. push_addr (f a) out) adv out \<noteq> []" if "out \<noteq> []" for f :: "advertised_addr \<Rightarrow> socket_addr" and out
    using that push by (induction adv arbitrary: out) auto
  then show ?thesis using assms by (simp add: candidate_addrs_def Let_def)
qed

lemma start_voice_ok:
  assumes "validate c = Inr ()" "bo_bound e = Some local_addr" "candidate_addrs (bo_ifaces e) local_addr [] \<noteq> []" "bo_slots_ok e"
  shows "\<exists>sv. start_voice c e db =
      Inr (sv, map (\<lambda>(owner, slots). C_RegisterSlots owner slots) (bo_order e (group_slots (slots_list_all db) []))) \<and>
    sv_sessions sv = [] \<and> sv_calls sv = [] \<and> sv_dirty sv = [] \<and> sv_registry sv = []"
proof -
  have "validate_addrs (vf_advertised_addrs (cf_voice c)) = Inr ()" using assms(1) by (auto simp: validate_def split: if_splits)
  then have "\<And>a. a \<in> set (vf_advertised_addrs (cf_voice c)) \<Longrightarrow> parse_advertised a \<noteq> None" by (simp add: validate_addrs_Inr)
  then obtain adv where "those (map parse_advertised (vf_advertised_addrs (cf_voice c))) = Some adv" using those_some by blast
  then show ?thesis using assms(2,4) candidates_grow [OF assms(3), of adv]
    by (simp add: start_voice_def voice_server_start_def Let_def server_new_def)
qed

lemma boot_registry:
  assumes "db_inv db" "\<And>l. mset (ord l) = mset l"
  shows "registry_lookup ow h (fold (\<lambda>(owner, es). registry_replace_set owner es) (ord (group_slots (slots_list_all db) [])) []) = Some m \<longleftrightarrow>
    (\<exists>r \<in> set (d_slots db). sl_pubkey r = ow \<and> length ow = 32 \<and> sl_token_hash r = h \<and> length h = 32 \<and> sl_max_participants r = m)"
proof -
  let ?g = "group_slots (slots_list_all db) []"
  have g: "distinct (map fst ?g)" by (rule group_slots_keys) simp
  have p: "map_of (ord ?g) = map_of ?g" "distinct (map fst (ord ?g))" using map_of_perm [OF assms(2) g] by simp_all
  have k: "tbl_keys sl_key (d_slots db)" using assms(1) by (simp add: db_inv_def)
  have z: "slots_of [] h = None" by (simp add: slots_of_def)
  show ?thesis
    unfolding replace_all_lookup [OF p(2)] p(1) group_slots_get
    using slots_of_entries [OF k, of ow h m] z by (auto simp: registry_lookup_def)
qed

lemma restore_boot:
  assumes "db_inv db" "sn_get e 0"
  shows "\<exists>s. restore_all x e (supervisor_new db fs) = (Inr (), s) \<and> su_db s = db \<and>
    (\<forall>row a. row \<in> set (d_owners db) \<and> length (po_pubkey row) = 32 \<and>
       sn_launch e (x_hex_encode x (po_pubkey row)) (po_local_port row) = Some a \<and> sn_port_free e (po_local_port row) \<longrightarrow>
       (\<exists>t. task s (po_pubkey row) = Some t \<and> ot_port t = po_local_port row \<and> ot_onion t = a \<and> ot_state t = Listening))"
proof -
  let ?s = "restore_loop x e (owners_list db) (supervisor_new db fs)"
  have d: "su_db (restore_loop x e rows s) = su_db s" for rows s
    by (induction rows arbitrary: s) (auto simp: launch_sel split: option.split)
  have "\<exists>t. task ?s (po_pubkey row) = Some t \<and> ot_port t = po_local_port row \<and> ot_onion t = a \<and> ot_state t = Listening"
    if r: "row \<in> set (d_owners db)" "length (po_pubkey row) = 32"
      "sn_launch e (x_hex_encode x (po_pubkey row)) (po_local_port row) = Some a" "sn_port_free e (po_local_port row)" for row a
  proof (rule restore_loop_launches [OF _ _ _ r(2) _ _ _ r(3,4)])
    show "distinct (map po_local_port (owners_list db))" "distinct (map po_pubkey (owners_list db))"
      using assms(1) by (simp_all add: db_inv_def tbl_keys_def owners_list_def distinct_map inj_on_def)
    show "row \<in> set (owners_list db)" using r(1) by (simp add: owners_list_def)
  qed (simp_all add: supervisor_new_def all_tasks_def)
  then show ?thesis using assms(2) d by (simp add: restore_all_def) (simp add: supervisor_new_def)
qed

end
