(* ===== verification/AdminProps.thy ===== *)
theory AdminProps
  imports Admin
begin

text \<open>
  Proofs about the admin crate: at most one claimable token, what a successful claim means,
  a token pairs one Owner, the password gate with its cache. What the crate relies on of the
  supervisor is the locale \<open>relay_control\<close>, interpreted on \<open>supervisor_control\<close>.
\<close>

section \<open>The tokens of a database\<close>

definition unconsumed :: "db \<Rightarrow> pending_pairing list" where
  "unconsumed db = filter (\<lambda>p. pp_consumed_at p = None) (d_pairings db)"

definition dead :: "bytes \<Rightarrow> db \<Rightarrow> bool" where
  "dead tok db \<longleftrightarrow> (\<forall>p \<in> set (d_pairings db). pp_token p = tok \<longrightarrow> pp_consumed_at p \<noteq> None)"

lemma pairings_update_all: "d_pairings (snd (consume_all_unconsumed tm db)) =
    map (\<lambda>p. if pp_consumed_at p = None then p\<lparr>pp_consumed_at := Some tm\<rparr> else p) (d_pairings db)"
  by (simp add: consume_all_unconsumed_def pairings_update_def)

lemma consume_all_none: "unconsumed (snd (consume_all_unconsumed tm db)) = []"
  by (auto simp: unconsumed_def pairings_update_all filter_empty_conv)

definition mint_row :: "admin_env \<Rightarrow> str option \<Rightarrow> int \<Rightarrow> str \<Rightarrow> pending_pairing" where
  "mint_row e label ttl by =
     \<lparr>pp_token = ae_token e, pp_created_at = ae_now e, pp_expires_at = i64_wrap (ae_now e + ttl), pp_consumed_at = None,
      pp_created_by = by, pp_label = label\<rparr>"

lemma mint_cases:
  assumes "mint_pairing_token x ax e onion ver label ttl by db = Inr (m, db')"
  obtains db2 where "unconsumed db2 = []" "\<And>tok. dead tok db \<Longrightarrow> dead tok db2" "d_creds db2 = d_creds db" "d_owners db2 = d_owners db"
    "d_events db2 = d_events db" "d_media db2 = d_media db" "d_slots db2 = d_slots db"
    "d_pairings db' = d_pairings db2 @ [mint_row e label ttl by]" "d_creds db' = d_creds db" "d_owners db' = d_owners db"
    "mt_token m = ae_token e" "mt_expires_at m = i64_wrap (ae_now e + ttl)"
proof -
  define db1 where "db1 = (if ae_prune_ok e then snd (prune_expired (ae_now e) db) else db)"
  define db2 where "db2 = snd (consume_all_unconsumed (ae_now e) db1)"
  have m: "pairings_insert (mint_row e label ttl by) db2 = Inr db'" "mt_token m = ae_token e" "mt_expires_at m = i64_wrap (ae_now e + ttl)"
    using assms by (auto simp: mint_pairing_token_def Let_def res_bind_def db1_def db2_def mint_row_def split: sum.splits if_splits)
  have d1: "set (d_pairings db1) \<subseteq> set (d_pairings db)" "d_creds db1 = d_creds db" "d_owners db1 = d_owners db"
    "d_events db1 = d_events db" "d_media db1 = d_media db" "d_slots db1 = d_slots db"
    by (auto simp: db1_def prune_expired_def)
  have d2: "d_creds db2 = d_creds db" "d_owners db2 = d_owners db" "d_events db2 = d_events db" "d_media db2 = d_media db" "d_slots db2 = d_slots db"
    using d1 by (simp_all add: db2_def consume_all_unconsumed_def pairings_update_def)
  have dd: "dead tok db2" if "dead tok db" for tok
    using that d1(1) by (auto simp: dead_def db2_def pairings_update_all)
  have p: "d_pairings db' = d_pairings db2 @ [mint_row e label ttl by]" "d_creds db' = d_creds db2" "d_owners db' = d_owners db2"
    using m(1) by (auto simp: pairings_insert_def tbl_insert_def split: if_splits)
  show thesis
    by (rule that [of db2]) (use d2 p m dd consume_all_none in \<open>simp_all add: db2_def\<close>)
qed

lemma mint_unconsumed:
  assumes "mint_pairing_token x ax e onion ver label ttl by db = Inr (m, db')"
  shows "unconsumed db' = [mint_row e label ttl by]"
proof -
  obtain db2 where "unconsumed db2 = []" "d_pairings db' = d_pairings db2 @ [mint_row e label ttl by]" using mint_cases [OF assms] .
  then show ?thesis by (simp add: unconsumed_def mint_row_def)
qed

lemma mint_dead:
  assumes "mint_pairing_token x ax e onion ver label ttl by db = Inr (m, db')" "dead tok db" "ae_token e \<noteq> tok"
  shows "dead tok db'"
proof -
  obtain db2 where "dead tok db2" "d_pairings db' = d_pairings db2 @ [mint_row e label ttl by]" using mint_cases [OF assms(1)] assms(2) by blast
  then show ?thesis using assms(3) by (auto simp: dead_def mint_row_def)
qed

text \<open>A claim never revives a token, and consumes the one it proceeds on.\<close>

lemma claim_cases:
  assumes "claim_token e pk tok db = Inr (r, db')"
  obtains (paired) "owners_get pk db \<noteq> None" "r = Proceed None" "db' = db"
  | (rejected) code msg where "r = Reject code msg" "d_pairings db' = d_pairings db \<or> db' = snd (mark_consumed tok (ae_now e) db)"
      "code \<in> {401, 409, 410}" "d_owners db' = d_owners db" "d_creds db' = d_creds db"
  | (claimed) p where "owners_get pk db = None" "pairings_get tok db = Some p" "ae_now e \<le> pp_expires_at p"
      "r = Proceed (pp_label p)" "db' = snd (mark_consumed tok (ae_now e) db)" "fst (mark_consumed tok (ae_now e) db) = 1"
proof (cases "owners_get pk db")
  case (Some row)
  then have "(r, db') = (Proceed None, db)" using assms by (simp add: claim_token_def)
  then show thesis using paired Some by simp
next
  case None
  show thesis
  proof (cases "pairings_get tok db")
    case N: None
    then have "(r, db') = (Reject 401 ''unknown token'', db)" using None assms by (simp add: claim_token_def)
    then show thesis using rejected [of 401] by simp
  next
    case (Some p)
    obtain n db1 where m: "mark_consumed tok (ae_now e) db = (n, db1)" by fastforce
    have k: "d_owners db1 = d_owners db" "d_creds db1 = d_creds db"
      using m by (auto simp: mark_consumed_def pairings_update_def)
    consider "pp_expires_at p < ae_now e" | "\<not> pp_expires_at p < ae_now e" "n = 1" | "\<not> pp_expires_at p < ae_now e" "n \<noteq> 1" by blast
    then show thesis
    proof cases
      case 1
      then have "(r, db') = (Reject 410 ''token expired'', db)" using None Some assms by (simp add: claim_token_def)
      then show thesis using rejected [of 410] by simp
    next
      case 2
      then have "(r, db') = (Proceed (pp_label p), db1)" using None Some m assms by (simp add: claim_token_def)
      then show thesis using claimed [of p] None Some 2 m by simp
    next
      case 3
      then have "(r, db') = (Reject 409 ''token already used'', db1)" using None Some m assms by (simp add: claim_token_def)
      then show thesis using rejected [of 409] k m by simp
    qed
  qed
qed

lemma mark_pairings: "d_pairings (snd (mark_consumed tok tm db)) =
    map (\<lambda>p. if pp_token p = tok \<and> pp_consumed_at p = None then p\<lparr>pp_consumed_at := Some tm\<rparr> else p) (d_pairings db)"
  by (simp add: mark_consumed_def pairings_update_def)

lemma mark_dead:
  assumes "t = tok \<or> dead t db"
  shows "dead t (snd (mark_consumed tok tm db))"
  unfolding dead_def mark_pairings set_map
proof (rule ballI, rule impI)
  fix q assume q: "q \<in> (\<lambda>p. if pp_token p = tok \<and> pp_consumed_at p = None then p\<lparr>pp_consumed_at := Some tm\<rparr> else p) ` set (d_pairings db)"
    and t: "pp_token q = t"
  from q obtain p where p: "p \<in> set (d_pairings db)"
    "q = (if pp_token p = tok \<and> pp_consumed_at p = None then p\<lparr>pp_consumed_at := Some tm\<rparr> else p)" by (elim imageE)
  then show "pp_consumed_at q \<noteq> None" using assms t by (auto simp: dead_def split: if_splits)
qed

lemma mark_unconsumed: "length (unconsumed (snd (mark_consumed tok tm db))) \<le> length (unconsumed db)"
proof -
  have "length (filter Q (map f xs)) \<le> length (filter Q xs)" if "\<And>p. Q (f p) \<Longrightarrow> Q p" for Q :: "pending_pairing \<Rightarrow> bool" and f xs
    by (induction xs) (use that in \<open>auto simp: le_SucI\<close>)
  then show ?thesis by (simp add: unconsumed_def mark_consumed_def pairings_update_def split: if_splits)
qed

lemma claim_dead:
  assumes "claim_token e pk tok db = Inr (r, db')"
  shows "dead t db \<Longrightarrow> dead t db'" "length (unconsumed db') \<le> length (unconsumed db)" "d_creds db' = d_creds db"
    "d_owners db' = d_owners db"
proof -
  have c: "d_creds (snd (mark_consumed tok tm db)) = d_creds db" "d_owners (snd (mark_consumed tok tm db)) = d_owners db" for tm
    by (simp_all add: mark_consumed_def pairings_update_def)
  show "dead t db'" if d: "dead t db"
    using assms
  proof (cases rule: claim_cases)
    case (rejected code msg)
    then show ?thesis using d mark_dead [of t tok db "ae_now e"] by (auto simp: dead_def)
  qed (use d mark_dead [of t tok db "ae_now e"] in simp_all)
  show "length (unconsumed db') \<le> length (unconsumed db)"
    using assms mark_unconsumed by (cases rule: claim_cases) (auto simp: unconsumed_def)
  show "d_creds db' = d_creds db" "d_owners db' = d_owners db"
    using assms c by (cases rule: claim_cases; auto)+
qed

lemma claim_once:
  assumes "dead tok db" "owners_get pk db = None" "claim_token e pk tok db = Inr (r, db')"
  shows "\<exists>code msg. r = Reject code msg \<and> code \<in> {401, 409, 410}"
  using assms(3)
proof (cases rule: claim_cases)
  case (claimed p)
  have "filter (\<lambda>p. pp_token p = tok \<and> pp_consumed_at p = None) (d_pairings db) = []"
    using assms(1) by (auto simp: dead_def filter_empty_conv)
  then show ?thesis using claimed(6) by (simp add: mark_consumed_def pairings_update_def)
qed (use assms in auto)

section \<open>The control interface\<close>

text \<open>
  What the admin crate relies on of \<open>RelayControl\<close>: the database is shared, pairing and
  unpairing leave tokens and credentials alone, and an Owner whose pairing succeeds has a row
  with the onion that is returned.
\<close>

locale relay_control =
  fixes ct :: "'s control" and rid :: "bytes \<Rightarrow> str \<Rightarrow> str"
  assumes db_put: "ct_db ct (ct_put_db ct db s) = db"
    and pair_keeps: "d_pairings (ct_db ct (snd (ct_pair_owner ct pk label s))) = d_pairings (ct_db ct s)"
      "d_creds (ct_db ct (snd (ct_pair_owner ct pk label s))) = d_creds (ct_db ct s)"
    and pair_others: "q \<noteq> pk \<Longrightarrow> owners_get q (ct_db ct (snd (ct_pair_owner ct pk label s))) = owners_get q (ct_db ct s)"
    and pair_row: "fst (ct_pair_owner ct pk label s) = Inr (onion, r) \<Longrightarrow>
      \<exists>row. owners_get pk (ct_db ct (snd (ct_pair_owner ct pk label s))) = Some row \<and> po_relay_onion_address row = onion \<and> r = rid pk onion"
    and unpair_keeps: "d_pairings (ct_db ct (snd (ct_unpair_owner ct pk s))) = d_pairings (ct_db ct s)"
      "d_creds (ct_db ct (snd (ct_unpair_owner ct pk s))) = d_creds (ct_db ct s)"
begin

abbreviation adb :: "'s admin \<Rightarrow> db" where
  "adb st \<equiv> ct_db ct (am_state st)"

lemma put_state [simp]: "adb (st\<lparr>am_state := ct_put_db ct db s\<rparr>) = db"
  by (simp add: db_put)

text \<open>The outcomes of \<open>pair_post\<close>.\<close>

lemma pair_post_cases:
  obtains (refused) code msg where "pair_post x e ct body st = (AP (plain code msg), st)" "code \<in> {400, 401}"
  | (failed) err where "pair_post x e ct body st = (AP (internal err), st)"
  | (rejected) claim pk code msg db' where
      "Option.bind (x_from_reader x body) (pairing_claim_from_cbor (x_leaf x)) = Some claim"
      "claim_token e pk (pc_pairing_token claim) (adb st) = Inr (Reject code msg, db')"
      "pair_post x e ct body st = (AP (plain code msg), st\<lparr>am_state := ct_put_db ct db' (am_state st)\<rparr>)"
  | (proceeds) claim pk label db' r s' where
      "Option.bind (x_from_reader x body) (pairing_claim_from_cbor (x_leaf x)) = Some claim"
      "x_b64_decode x (pc_owner_pubkey claim) = Some pk" "length pk = 32"
      "verify_ed25519 x pk (compute_pair_claim x pk (ct_admin_onion ct) (pc_pairing_token claim)) (pc_sig claim)"
      "claim_token e pk (pc_pairing_token claim) (adb st) = Inr (Proceed label, db')"
      "ct_pair_owner ct pk label (ct_put_db ct db' (am_state st)) = (r, s')"
      "pair_post x e ct body st =
        ((case r of
            Inr (onion, i) \<Rightarrow> AP (cbor_ok (x_into_writer x (pair_response_to_cbor \<lparr>pr_relay_onion = onion, pr_relay_id = i\<rparr>)))
          | Inl err \<Rightarrow> AP (plain 504 ''could not launch onion'')), st\<lparr>am_state := s'\<rparr>)"
proof (cases "Option.bind (x_from_reader x body) (pairing_claim_from_cbor (x_leaf x))")
  case None
  show thesis by (rule refused [of 400 "''malformed claim cbor''"]) (simp_all add: pair_post_def None)
next
  case c: (Some claim)
  show thesis
  proof (cases "x_b64_decode x (pc_owner_pubkey claim)")
    case None
    show thesis by (rule refused [of 400 "''bad owner_pubkey base64''"]) (simp_all add: pair_post_def c None)
  next
    case b: (Some raw)
    show thesis
    proof (cases "length raw = 32")
      case False
      show thesis by (rule refused [of 400 "''owner_pubkey not 32 bytes''"]) (simp_all add: pair_post_def c b to_pubkey_def False)
    next
      case l: True
      show thesis
      proof (cases "verify_ed25519 x raw (compute_pair_claim x raw (ct_admin_onion ct) (pc_pairing_token claim)) (pc_sig claim)")
        case False
        show thesis by (rule refused [of 401 "''invalid signature''"]) (simp_all add: pair_post_def c b to_pubkey_def l False)
      next
        case v: True
        have body: "pair_post x e ct body st = (case db_run (ae_pool e) (claim_token e raw (pc_pairing_token claim)) (adb st) of
                 (Inl err, _) \<Rightarrow> (AP (internal err), st)
               | (Inr (Reject code msg), db') \<Rightarrow> (AP (plain code msg), st\<lparr>am_state := ct_put_db ct db' (am_state st)\<rparr>)
               | (Inr (Proceed label), db') \<Rightarrow>
                   (case ct_pair_owner ct raw label (ct_put_db ct db' (am_state st)) of
                      (Inr (relay_onion, rid), s') \<Rightarrow>
                        (AP (cbor_ok (x_into_writer x (pair_response_to_cbor \<lparr>pr_relay_onion = relay_onion, pr_relay_id = rid\<rparr>))),
                         st\<lparr>am_state := s'\<rparr>)
                    | (Inl err, s') \<Rightarrow> (AP (plain 504 ''could not launch onion''), st\<lparr>am_state := s'\<rparr>)))"
          by (simp add: pair_post_def c b to_pubkey_def l v)
        show thesis
        proof (cases "ae_pool e")
          case False
          show thesis by (rule failed [of Pool_exhausted]) (simp add: body db_run_def False)
        next
          case p: True
          show thesis
          proof (cases "claim_token e raw (pc_pairing_token claim) (adb st)")
            case (Inl err)
            show thesis by (rule failed [of err]) (simp add: body db_run_def p Inl)
          next
            case (Inr o')
            obtain out db' where o': "o' = (out, db')" by fastforce
            show thesis
            proof (cases out)
              case (Reject code msg)
              show thesis by (rule rejected [OF c]) (use Inr o' Reject p in \<open>simp_all add: body db_run_def\<close>)
            next
              case (Proceed label)
              obtain r s' where r: "ct_pair_owner ct raw label (ct_put_db ct db' (am_state st)) = (r, s')" by fastforce
              show thesis
                by (rule proceeds [OF c b l v _ r])
                  (use Inr o' Proceed p r in \<open>auto simp: body db_run_def split: sum.splits\<close>)
            qed
          qed
        qed
      qed
    qed
  qed
qed

text \<open>A claim keeps used tokens used, makes no new one, and does not touch the credentials.\<close>

lemma pair_post_tokens:
  shows "dead t (adb st) \<Longrightarrow> dead t (adb (snd (pair_post x e ct body st)))"
    and "length (unconsumed (adb (snd (pair_post x e ct body st)))) \<le> length (unconsumed (adb st))"
    and "d_creds (adb (snd (pair_post x e ct body st))) = d_creds (adb st)"
proof -
  let ?st' = "snd (pair_post x e ct body st)"
  have "(dead t (adb st) \<longrightarrow> dead t (adb ?st')) \<and> length (unconsumed (adb ?st')) \<le> length (unconsumed (adb st)) \<and>
      d_creds (adb ?st') = d_creds (adb st)"
  proof (cases rule: pair_post_cases [where x = x and e = e and body = body and st = st])
    case (rejected claim pk code msg db')
    then show ?thesis using claim_dead [OF rejected(2)] by (simp add: db_put)
  next
    case (proceeds claim pk label db' r s')
    have "d_pairings (ct_db ct s') = d_pairings db'" "d_creds (ct_db ct s') = d_creds db'"
      using pair_keeps [of pk label "ct_put_db ct db' (am_state st)"] proceeds(6) by (simp_all add: db_put)
    then show ?thesis using claim_dead [OF proceeds(5)] proceeds(7) by (simp add: dead_def unconsumed_def)
  qed simp_all
  then show "dead t (adb st) \<Longrightarrow> dead t (adb ?st')" "length (unconsumed (adb ?st')) \<le> length (unconsumed (adb st))"
    "d_creds (adb ?st') = d_creds (adb st)" by blast+
qed

lemma pair_post_sound:
  assumes "reply_status (fst (pair_post x e ct body st)) = 200"
  shows "\<exists>claim pk row. Option.bind (x_from_reader x body) (pairing_claim_from_cbor (x_leaf x)) = Some claim \<and>
    x_b64_decode x (pc_owner_pubkey claim) = Some pk \<and> length pk = 32 \<and>
    verify_ed25519 x pk (compute_pair_claim x pk (ct_admin_onion ct) (pc_pairing_token claim)) (pc_sig claim) \<and>
    (owners_get pk (adb st) \<noteq> None \<or>
     (\<exists>p. pairings_get (pc_pairing_token claim) (adb st) = Some p \<and> ae_now e \<le> pp_expires_at p \<and> \<not> dead (pc_pairing_token claim) (adb st)) \<and>
     dead (pc_pairing_token claim) (adb (snd (pair_post x e ct body st)))) \<and>
    owners_get pk (adb (snd (pair_post x e ct body st))) = Some row \<and>
    (\<forall>q. q \<noteq> pk \<longrightarrow> owners_get q (adb (snd (pair_post x e ct body st))) = owners_get q (adb st)) \<and>
    fst (pair_post x e ct body st) = AP (cbor_ok (x_into_writer x (pair_response_to_cbor
      \<lparr>pr_relay_onion = po_relay_onion_address row, pr_relay_id = rid pk (po_relay_onion_address row)\<rparr>)))"
proof (cases rule: pair_post_cases [where x = x and e = e and body = body and st = st])
  case (refused code msg)
  then show ?thesis using assms by (auto simp: plain_def)
next
  case (failed err)
  then show ?thesis using assms by (simp add: internal_def plain_def)
next
  case (rejected claim pk code msg db')
  have "code \<in> {401, 409, 410}" using rejected(2) by (cases rule: claim_cases) auto
  then show ?thesis using assms rejected(3) by (auto simp: plain_def)
next
  case (proceeds claim pk label db' r s')
  obtain onion i where r: "r = Inr (onion, i)" using assms proceeds(7) by (auto simp: plain_def split: sum.splits)
  obtain row where row: "owners_get pk (ct_db ct s') = Some row" "po_relay_onion_address row = onion" "i = rid pk onion"
    using pair_row [of pk label "ct_put_db ct db' (am_state st)" onion i] proceeds(6) r by auto
  have oth: "owners_get q (ct_db ct s') = owners_get q (adb st)" if "q \<noteq> pk" for q
    using pair_others [OF that, of label "ct_put_db ct db' (am_state st)"] proceeds(6) claim_dead(4) [OF proceeds(5)]
    by (simp add: db_put owners_get_def)
  have pp: "d_pairings (ct_db ct s') = d_pairings db'"
    using pair_keeps(1) [of pk label "ct_put_db ct db' (am_state st)"] proceeds(6) by (simp add: db_put)
  have tok: "owners_get pk (adb st) \<noteq> None \<or>
     (\<exists>p. pairings_get (pc_pairing_token claim) (adb st) = Some p \<and> ae_now e \<le> pp_expires_at p \<and> \<not> dead (pc_pairing_token claim) (adb st)) \<and>
     dead (pc_pairing_token claim) (ct_db ct s')"
    using proceeds(5)
  proof (cases rule: claim_cases)
    case (claimed p)
    have nd: "\<not> dead (pc_pairing_token claim) (adb st)" using claim_once [OF _ claimed(1) proceeds(5)] by blast
    have "dead (pc_pairing_token claim) (ct_db ct s')"
      using mark_dead [of "pc_pairing_token claim" "pc_pairing_token claim" "adb st" "ae_now e"] claimed(5) pp by (simp add: dead_def)
    then show ?thesis using claimed(2,3) nd by blast
  qed simp_all
  have eq: "snd (pair_post x e ct body st) = st\<lparr>am_state := s'\<rparr>"
    "fst (pair_post x e ct body st) = AP (cbor_ok (x_into_writer x (pair_response_to_cbor
      \<lparr>pr_relay_onion = po_relay_onion_address row, pr_relay_id = rid pk (po_relay_onion_address row)\<rparr>)))"
    using proceeds(7) r row by simp_all
  show ?thesis
    by (intro exI conjI; (rule proceeds(1) proceeds(2) proceeds(3) proceeds(4) eq(2))?) (use tok row oth eq(1) in simp_all)
qed

lemma pair_post_used:
  assumes "dead tok (adb st)" "Option.bind (x_from_reader x body) (pairing_claim_from_cbor (x_leaf x)) = Some claim"
    "pc_pairing_token claim = tok" "x_b64_decode x (pc_owner_pubkey claim) = Some pk" "owners_get pk (adb st) = None"
  shows "reply_status (fst (pair_post x e ct body st)) \<in> {400, 401, 409, 410, 500} \<and>
    (\<forall>q. owners_get q (adb (snd (pair_post x e ct body st))) = owners_get q (adb st))"
proof (cases rule: pair_post_cases [where x = x and e = e and body = body and st = st])
  case (refused code msg)
  then show ?thesis by (auto simp: plain_def)
next
  case (failed err)
  then show ?thesis by (simp add: internal_def plain_def)
next
  case (rejected claim' pk' code msg db')
  have "code \<in> {401, 409, 410}" using rejected(2) by (cases rule: claim_cases) auto
  moreover have "d_owners db' = d_owners (adb st)" using claim_dead(4) [OF rejected(2)] .
  ultimately show ?thesis using rejected(3) by (auto simp: plain_def db_put owners_get_def)
next
  case (proceeds claim' pk' label db' r s')
  then have c: "claim_token e pk tok (adb st) = Inr (Proceed label, db')" using assms by simp
  show ?thesis using claim_once [OF assms(1,5) c] by simp
qed

end

text \<open>The supervisor keeps the contract.\<close>

lemma pair_owner_tables:
  "d_pairings (su_db (snd (pair_owner x cfg e pk label s))) = d_pairings (su_db s)"
  "d_creds (su_db (snd (pair_owner x cfg e pk label s))) = d_creds (su_db s)"
  "q \<noteq> pk \<Longrightarrow> owners_get q (su_db (snd (pair_owner x cfg e pk label s))) = owners_get q (su_db s)"
  "fst (pair_owner x cfg e pk label s) = Inr (onion, r) \<Longrightarrow>
   \<exists>row. owners_get pk (su_db (snd (pair_owner x cfg e pk label s))) = Some row \<and> po_relay_onion_address row = onion \<and>
     r = relay_id x pk onion"
proof -
  have "(d_pairings (su_db (snd (pair_owner x cfg e pk label s))) = d_pairings (su_db s) \<and>
     d_creds (su_db (snd (pair_owner x cfg e pk label s))) = d_creds (su_db s)) \<and>
     (q \<noteq> pk \<longrightarrow> owners_get q (su_db (snd (pair_owner x cfg e pk label s))) = owners_get q (su_db s)) \<and>
     (fst (pair_owner x cfg e pk label s) = Inr (onion, r) \<longrightarrow>
       (\<exists>row. owners_get pk (su_db (snd (pair_owner x cfg e pk label s))) = Some row \<and> po_relay_onion_address row = onion \<and>
         r = relay_id x pk onion))"
  proof (cases rule: pair_owner_cases [where x = x and cfg = cfg and e = e and pk = pk and label = label and s = s])
    case (kept r')
    then show ?thesis by auto
  next
    case (relaunched row a s1)
    then have "su_db s1 = su_db s" using launch_sel(1) [of x e pk "po_local_port row" s] by simp
    then show ?thesis using relaunched by auto
  next
    case (launched port a s1)
    then have s1: "su_db s1 = su_db s" using launch_sel(1) [of x e pk port s] by simp
    define row where "row = \<lparr>po_pubkey = pk, po_label = label, po_paired_at = sn_now e, po_relay_onion_address = a,
      po_local_port = port, po_storage_cap_bytes = None\<rparr>"
    have p: "pair_owner x cfg e pk label s = (if \<not> sn_get e 2 then (Inl Pool_exhausted, s1)
      else case (if sn_insert_ok e then owners_insert row (su_db s1) else Inl (Other_fault ''insert'')) of
        Inl err \<Rightarrow> (Inl err, stop_owner pk s1) | Inr db' \<Rightarrow> (Inr (a, relay_id x pk a), s1\<lparr>su_db := db'\<rparr>))"
      using launched(4) by (simp add: row_def)
    show ?thesis
    proof (cases "sn_get e 2 \<and> sn_insert_ok e \<and> (\<exists>db'. owners_insert row (su_db s1) = Inr db')")
      case True
      then obtain db' where i: "owners_insert row (su_db s1) = Inr db'" by blast
      have "d_pairings db' = d_pairings (su_db s1)" "d_creds db' = d_creds (su_db s1)"
        using i by (auto simp: owners_insert_def tbl_insert_def split: if_splits)
      then show ?thesis using p True i s1 owners_insert_get(1) [OF i] by (auto simp: row_def)
    next
      case False
      then show ?thesis using p s1 by (auto simp: stop_sel split: sum.splits if_splits)
    qed
  qed
  then show "d_pairings (su_db (snd (pair_owner x cfg e pk label s))) = d_pairings (su_db s)"
    "d_creds (su_db (snd (pair_owner x cfg e pk label s))) = d_creds (su_db s)"
    "q \<noteq> pk \<Longrightarrow> owners_get q (su_db (snd (pair_owner x cfg e pk label s))) = owners_get q (su_db s)"
    "fst (pair_owner x cfg e pk label s) = Inr (onion, r) \<Longrightarrow>
     \<exists>row. owners_get pk (su_db (snd (pair_owner x cfg e pk label s))) = Some row \<and> po_relay_onion_address row = onion \<and>
       r = relay_id x pk onion"
    by blast+
qed

lemma owners_delete_tables:
  "d_pairings (snd (owners_delete pk db)) = d_pairings db" "d_creds (snd (owners_delete pk db)) = d_creds db"
  by (simp_all add: owners_delete_def split: prod.splits)

lemma unpair_owner_tables:
  "d_pairings (su_db (snd (unpair_owner x cfg e pk s))) = d_pairings (su_db s)"
  "d_creds (su_db (snd (unpair_owner x cfg e pk s))) = d_creds (su_db s)"
  by (simp_all add: unpair_owner_def Let_def stop_sel owners_delete_tables)

lemmas sc_sel = supervisor_control_def control.select_convs

interpretation sc: relay_control "supervisor_control y scfg se calls" "relay_id y" for y scfg se calls
proof
  fix db s q pk label onion r
  show "ct_db (supervisor_control y scfg se calls) (ct_put_db (supervisor_control y scfg se calls) db s) = db"
    by (simp add: sc_sel)
  show "d_pairings (ct_db (supervisor_control y scfg se calls) (snd (ct_pair_owner (supervisor_control y scfg se calls) pk label s))) =
      d_pairings (ct_db (supervisor_control y scfg se calls) s)"
    "d_creds (ct_db (supervisor_control y scfg se calls) (snd (ct_pair_owner (supervisor_control y scfg se calls) pk label s))) =
      d_creds (ct_db (supervisor_control y scfg se calls) s)"
    by (simp_all add: sc_sel pair_owner_tables)
  show "d_pairings (ct_db (supervisor_control y scfg se calls) (snd (ct_unpair_owner (supervisor_control y scfg se calls) pk s))) =
      d_pairings (ct_db (supervisor_control y scfg se calls) s)"
    "d_creds (ct_db (supervisor_control y scfg se calls) (snd (ct_unpair_owner (supervisor_control y scfg se calls) pk s))) =
      d_creds (ct_db (supervisor_control y scfg se calls) s)"
    by (simp_all add: sc_sel unpair_owner_tables)
  show "owners_get q (ct_db (supervisor_control y scfg se calls) (snd (ct_pair_owner (supervisor_control y scfg se calls) pk label s))) =
      owners_get q (ct_db (supervisor_control y scfg se calls) s)" if "q \<noteq> pk"
    using that by (simp add: sc_sel pair_owner_tables)
  show "\<exists>row. owners_get pk (ct_db (supervisor_control y scfg se calls) (snd (ct_pair_owner (supervisor_control y scfg se calls) pk label s))) =
      Some row \<and> po_relay_onion_address row = onion \<and> r = relay_id y pk onion"
    if "fst (ct_pair_owner (supervisor_control y scfg se calls) pk label s) = Inr (onion, r)"
    using that pair_owner_tables(4) [of y scfg se pk label s onion r] by (simp add: sc_sel)
qed

text \<open>Only the pairing page writes tokens, and it does so by minting.\<close>

definition mints :: "ext \<Rightarrow> adm_ext \<Rightarrow> admin_env \<Rightarrow> db \<Rightarrow> db \<Rightarrow> bool" where
  "mints x ax e db db' \<longleftrightarrow>
     (\<exists>onion ver label ttl by m db1. mint_pairing_token x ax e onion ver label ttl by db = Inr (m, db1) \<and>
        d_pairings db' = d_pairings db1)"

lemma mintsI: "mint_pairing_token x ax e onion ver label ttl by db = Inr (m, db') \<Longrightarrow> mints x ax e db db'"
  unfolding mints_def by blast

context relay_control
begin

lemma pair_page_cases:
  obtains (none) r where "pair_page x ax e cfg ct hs st = (AP r, st)" "rs_status r \<in> {403, 500}"
  | (minted) m db' r where "mint_pairing_token x ax e (ct_admin_onion ct) (ag_relay_version cfg) None (ag_pairing_ttl_secs cfg) ''web'' (adb st) =
        Inr (m, db')" "pair_page x ax e cfg ct hs st = (r, st\<lparr>am_state := ct_put_db ct db' (am_state st)\<rparr>)" "reply_status r \<in> {200, 500}"
proof (cases "cross_site hs")
  case True
  show thesis by (rule none [of "plain 403 ''cross-site request rejected''"]) (simp_all add: pair_page_def True plain_def)
next
  case c: False
  show thesis
  proof (cases "ae_pool e")
    case False
    show thesis
      by (rule none [of "internal Pool_exhausted"]) (simp_all add: pair_page_def c db_run_def False internal_def plain_def)
  next
    case p: True
    show thesis
    proof (cases "mint_pairing_token x ax e (ct_admin_onion ct) (ag_relay_version cfg) None (ag_pairing_ttl_secs cfg) ''web'' (adb st)")
      case (Inl err)
      show thesis
        by (rule none [of "internal err"]) (simp_all add: pair_page_def c db_run_def p Inl res_bind_def internal_def plain_def)
    next
      case (Inr md)
      obtain m db' where md: "md = (m, db')" by fastforce
      define r where "r = (case ax_qr ax (mt_pair_url m) of None \<Rightarrow> AP (internal (Other_fault ''qr encode''))
        | Some qr \<Rightarrow> if \<not> ax_render_ok ax then AP (internal (Other_fault ''render''))
            else AP_pair qr (mt_pair_url m) (ag_pairing_ttl_secs cfg) (length (owners_list db')))"
      have "pair_page x ax e cfg ct hs st = (r, st\<lparr>am_state := ct_put_db ct db' (am_state st)\<rparr>)"
        unfolding r_def by (simp add: pair_page_def c db_run_def p Inr md res_bind_def split: option.split)
      moreover have "reply_status r \<in> {200, 500}" unfolding r_def by (simp add: internal_def plain_def split: option.split)
      ultimately show thesis using minted Inr md by blast
    qed
  qed
qed

lemma dispatch_tokens:
  fixes x ax e cfg rq r st
  defines "st' \<equiv> snd (admin_dispatch x ax e cfg ct rq r st)"
  shows "d_pairings (adb st') = d_pairings (adb st) \<or> mints x ax e (adb st) (adb st')"
proof (cases r)
  case A_pair_page
  show ?thesis
  proof (cases rule: pair_page_cases [where x = x and ax = ax and e = e and cfg = cfg and hs = "rq_headers rq" and st = st])
    case (minted m db' r')
    then have "adb st' = db'" by (simp add: st'_def A_pair_page admin_dispatch_def db_put)
    then show ?thesis using mintsI [OF minted(1)] by simp
  qed (simp add: st'_def A_pair_page admin_dispatch_def)
next
  case (A_unpair seg)
  have "d_pairings (adb (snd (api_unpair x ct hex (rq_headers rq) st))) = d_pairings (adb st)" for hex
    using unpair_keeps(1) by (auto simp: api_unpair_def split: option.split prod.split sum.split) (metis snd_conv)+
  then show ?thesis by (simp add: st'_def A_unpair admin_dispatch_def split: option.split)
qed (simp_all add: st'_def admin_dispatch_def index_page_def health_def api_owners_def Let_def)

lemma mw_cases:
  obtains (denied) c where "basic_auth_mw x ax e ct hs k st = (AP unauthorized, st\<lparr>am_cache := c\<rparr>)"
  | (passed) c where "basic_auth_mw x ax e ct hs k st = k (st\<lparr>am_cache := c\<rparr>)"
proof (cases "if ae_creds_pool e then creds_get (adb st) else None")
  case None
  show thesis by (rule passed [of "am_cache st"]) (simp add: basic_auth_mw_def None)
next
  case (Some creds)
  obtain v c where v: "(case supplied_password x hs of
      Some password \<Rightarrow> verify_with_cache x ax e password (ac_password_hash creds) (am_cache st) | None \<Rightarrow> (False, am_cache st)) = (v, c)"
    by fastforce
  have m: "basic_auth_mw x ax e ct hs k st = (if v then k (st\<lparr>am_cache := c\<rparr>) else (AP unauthorized, st\<lparr>am_cache := c\<rparr>))"
    using v by (simp add: basic_auth_mw_def Some)
  then show thesis using denied [of c] passed [of c] by (cases v) simp_all
qed

lemma ui_cases:
  obtains (kept) r c b where "admin_ui_router x ax e cfg ct rq st = (AP r, st\<lparr>am_bucket := b, am_cache := c\<rparr>)" "rs_status r \<in> {401, 404, 429}"
  | (runs) rt c b where "admin_route (rq_method rq) (rq_path rq) = Some rt"
      "admin_ui_router x ax e cfg ct rq st = admin_dispatch x ax e cfg ct rq rt (st\<lparr>am_bucket := b, am_cache := c\<rparr>)"
proof -
  obtain a b where t: "try_acquire_at (ae_instant e) (am_bucket st) = (a, b)" by fastforce
  show thesis
  proof (cases a)
    case (Some n)
    show thesis 
      by (rule kept [of "\<lparr>rs_status = 429, rs_headers = [(''retry-after'', show_nat n)], rs_body = B_text ''rate limited''\<rparr>" "am_cache st" b])
        (simp_all add: admin_ui_router_def limited_def t Some)
  next
    case a: None
    show thesis
    proof (cases "admin_route (rq_method rq) (rq_path rq)")
      case None
      show thesis
        by (rule kept [of "status_only 404" "am_cache st" b]) (simp_all add: admin_ui_router_def limited_def t a None status_only_def)
    next
      case (Some rt)
      have u: "admin_ui_router x ax e cfg ct rq st =
          basic_auth_mw x ax e ct (rq_headers rq) (admin_dispatch x ax e cfg ct rq rt) (st\<lparr>am_bucket := b\<rparr>)"
        by (simp add: admin_ui_router_def limited_def t a Some)
      show thesis
      proof (cases rule: mw_cases [where x = x and ax = ax and e = e and hs = "rq_headers rq" and
          k = "admin_dispatch x ax e cfg ct rq rt" and st = "st\<lparr>am_bucket := b\<rparr>"])
        case (denied c)
        show thesis by (rule kept [of unauthorized c b]) (use u denied in \<open>simp_all add: unauthorized_def\<close>)
      next
        case (passed c)
        show thesis by (rule runs [OF Some]) (use u passed in simp)
      qed
    qed
  qed
qed

lemma ui_tokens:
  "d_pairings (adb (snd (admin_ui_router x ax e cfg ct rq st))) = d_pairings (adb st) \<or>
   mints x ax e (adb st) (adb (snd (admin_ui_router x ax e cfg ct rq st)))"
proof (cases rule: ui_cases [where x = x and ax = ax and e = e and cfg = cfg and rq = rq and st = st])
  case (runs rt c b)
  then show ?thesis using dispatch_tokens [of x ax e cfg rq rt "st\<lparr>am_bucket := b, am_cache := c\<rparr>"] by simp
qed simp

lemma pair_router_tokens:
  "dead t (adb st) \<Longrightarrow> dead t (adb (snd (pair_router x e ct rq st)))"
  "length (unconsumed (adb (snd (pair_router x e ct rq st)))) \<le> length (unconsumed (adb st))"
proof -
  obtain a b where t: "try_acquire_at (ae_instant e) (am_bucket st) = (a, b)" by fastforce
  have "adb (snd (pair_router x e ct rq st)) = adb st \<or>
      snd (pair_router x e ct rq st) = snd (pair_post x e ct (rq_body rq) (st\<lparr>am_bucket := b\<rparr>))"
    by (cases a) (simp_all add: pair_router_def limited_def t)
  then show "dead t (adb st) \<Longrightarrow> dead t (adb (snd (pair_router x e ct rq st)))"
    "length (unconsumed (adb (snd (pair_router x e ct rq st)))) \<le> length (unconsumed (adb st))"
    using pair_post_tokens(1,2) [where st = "st\<lparr>am_bucket := b\<rparr>" and x = x and e = e and body = "rq_body rq"] by auto
qed

end

section \<open>Runs\<close>

text \<open>
  What happens to the relay's state: a request to the admin pages, a request to the onion's
  \<open>/pair\<close>, a line on the control socket, or a step of the supervisor and the Owners' routers,
  which do not write tokens. \<open>T\<close> has the tokens the random generator may return.
\<close>

inductive adm_step :: "ext \<Rightarrow> adm_ext \<Rightarrow> admin_cfg \<Rightarrow> sup_cfg \<Rightarrow> bytes set \<Rightarrow> sup \<Rightarrow> sup \<Rightarrow> bool"
  for x ax acfg scfg T where
  ad_ui: "ae_token e \<in> T \<Longrightarrow> am_state st = s \<Longrightarrow>
    adm_step x ax acfg scfg T s (am_state (snd (admin_ui_router x ax e acfg (supervisor_control x scfg se calls) rq st)))"
| ad_pair: "am_state st = s \<Longrightarrow>
    adm_step x ax acfg scfg T s (am_state (snd (pair_router x e (supervisor_control x scfg se calls) rq st)))"
| ad_cli: "ae_token e \<in> T \<Longrightarrow>
    adm_step x ax acfg scfg T s (s\<lparr>su_db := snd (handle_conn x ax e parse (sg_admin_onion scfg) ver ttl line (su_db s))\<rparr>)"
| ad_sup: "sup_step x scfg s s' \<Longrightarrow> d_pairings (su_db s') = d_pairings (su_db s) \<Longrightarrow> adm_step x ax acfg scfg T s s'"

lemma mints_tokens:
  assumes "mints x ax e db db'"
  shows "length (unconsumed db') = 1" "dead tok db \<Longrightarrow> ae_token e \<noteq> tok \<Longrightarrow> dead tok db'"
proof -
  obtain onion ver label ttl src m db1 where m: "mint_pairing_token x ax e onion ver label ttl src db = Inr (m, db1)" "d_pairings db' = d_pairings db1"
    using assms unfolding mints_def by blast
  show "length (unconsumed db') = 1" using mint_unconsumed [OF m(1)] m(2) by (simp add: unconsumed_def)
  show "dead tok db \<Longrightarrow> ae_token e \<noteq> tok \<Longrightarrow> dead tok db'" using mint_dead [OF m(1)] m(2) by (simp add: dead_def)
qed

lemma write_tokens:
  assumes "d_pairings db' = d_pairings db \<or> mints x ax e db db'" "ae_token e \<in> T"
  shows "(length (unconsumed db) \<le> 1 \<longrightarrow> length (unconsumed db') \<le> 1) \<and> (dead tok db \<longrightarrow> tok \<notin> T \<longrightarrow> dead tok db')"
  using assms(1)
proof
  assume "d_pairings db' = d_pairings db"
  then show ?thesis by (simp add: unconsumed_def dead_def)
next
  assume m: "mints x ax e db db'"
  have "dead tok db'" if "dead tok db" "tok \<notin> T"
    by (rule mints_tokens(2) [OF m that(1)]) (use that(2) assms(2) in blast)
  then show ?thesis using mints_tokens(1) [OF m] by simp
qed

lemma handle_conn_tokens:
  "snd (handle_conn x ax e parse onion ver ttl line db) = db \<or> mints x ax e db (snd (handle_conn x ax e parse onion ver ttl line db))"
proof (cases "parse (trim line)")
  case (Some rq)
  obtain label where rq: "rq = Sock_Pair label" by (cases rq)
  show ?thesis
  proof (cases "ae_pool e \<and> (\<exists>m db'. mint_pairing_token x ax e onion ver label ttl ''cli'' db = Inr (m, db'))")
    case True
    then obtain m db' where m: "mint_pairing_token x ax e onion ver label ttl ''cli'' db = Inr (m, db')" by blast
    then show ?thesis using True mintsI [OF m] by (simp add: handle_conn_def Some rq db_run_def)
  next
    case False
    then show ?thesis by (auto simp: handle_conn_def Some rq db_run_def split: sum.splits)
  qed
qed (simp add: handle_conn_def)

lemma sc_db [simp]: "ct_db (supervisor_control x cfg e calls) = su_db"
  by (simp add: sc_sel)

lemma adm_step_tokens:
  assumes "adm_step x ax acfg scfg T s s'"
  shows "length (unconsumed (su_db s)) \<le> 1 \<Longrightarrow> length (unconsumed (su_db s')) \<le> 1"
    and "dead tok (su_db s) \<Longrightarrow> tok \<notin> T \<Longrightarrow> dead tok (su_db s')"
proof -
  have "(length (unconsumed (su_db s)) \<le> 1 \<longrightarrow> length (unconsumed (su_db s')) \<le> 1) \<and>
    (dead tok (su_db s) \<longrightarrow> tok \<notin> T \<longrightarrow> dead tok (su_db s'))"
    using assms
  proof cases
    case (ad_ui e st se calls rq)
    have "d_pairings (su_db s') = d_pairings (su_db s) \<or> mints x ax e (su_db s) (su_db s')"
      using sc.ui_tokens [where y = x and scfg = scfg and se = se and calls = calls and x = x and ax = ax and e = e and cfg = acfg and rq = rq and st = st] ad_ui(1,3) by simp
    then show ?thesis using write_tokens ad_ui(2) by blast
  next
    case (ad_pair st e se calls rq)
    have "dead tok (su_db s) \<Longrightarrow> dead tok (su_db s')" "length (unconsumed (su_db s')) \<le> length (unconsumed (su_db s))"
      using sc.pair_router_tokens(1) [where t = tok and y = x and scfg = scfg and se = se and calls = calls and x = x and e = e and rq = rq and st = st]
        sc.pair_router_tokens(2) [where y = x and scfg = scfg and se = se and calls = calls and x = x and e = e and rq = rq and st = st] ad_pair by simp_all
    then show ?thesis by auto
  next
    case (ad_cli e parse ver ttl line)
    have "su_db s' = su_db s \<or> mints x ax e (su_db s) (su_db s')"
      using handle_conn_tokens [of x ax e parse "sg_admin_onion scfg" ver ttl line "su_db s"] ad_cli(1) by simp
    then have "d_pairings (su_db s') = d_pairings (su_db s) \<or> mints x ax e (su_db s) (su_db s')" by auto
    then show ?thesis using write_tokens ad_cli(2) by blast
  next
    case ad_sup
    then show ?thesis by (simp add: unconsumed_def dead_def)
  qed
  then show "length (unconsumed (su_db s)) \<le> 1 \<Longrightarrow> length (unconsumed (su_db s')) \<le> 1"
    "dead tok (su_db s) \<Longrightarrow> tok \<notin> T \<Longrightarrow> dead tok (su_db s')" by blast+
qed

lemma adm_reach_tokens:
  assumes "(adm_step x ax acfg scfg T)\<^sup>*\<^sup>* s s'"
  shows "length (unconsumed (su_db s)) \<le> 1 \<Longrightarrow> length (unconsumed (su_db s')) \<le> 1"
    and "dead tok (su_db s) \<Longrightarrow> tok \<notin> T \<Longrightarrow> dead tok (su_db s')"
proof -
  show "length (unconsumed (su_db s')) \<le> 1" if "length (unconsumed (su_db s)) \<le> 1"
    using assms that by (induction rule: rtranclp_induct) (blast intro: adm_step_tokens(1))+
  show "dead tok (su_db s')" if "dead tok (su_db s)" "tok \<notin> T"
    using assms that by (induction rule: rtranclp_induct) (blast intro: adm_step_tokens(2))+
qed

text \<open>
  C5: At most one pairing token is claimable at any time, in every interleaving of admin
  requests, claims, control-socket requests and supervisor steps; and right after the pairing
  page or the command line has shown a token, that token is the claimable one.
\<close>
theorem one_live_token:
  assumes "(adm_step x ax acfg scfg T)\<^sup>*\<^sup>* s0 s" "unconsumed (su_db s0) = []"
  shows "length (unconsumed (su_db s)) \<le> 1 \<and>
    (\<forall>e se calls hs st st' qr url ttl n. am_state st = s \<and>
       pair_page x ax e acfg (supervisor_control x scfg se calls) hs st = (AP_pair qr url ttl n, st') \<longrightarrow>
       map pp_token (unconsumed (su_db (am_state st'))) = [ae_token e]) \<and>
    (\<forall>e parse ver ttl line url expires db'.
       handle_conn x ax e parse (sg_admin_onion scfg) ver ttl line (su_db s) = (Sock_Ok url expires, db') \<longrightarrow>
       map pp_token (unconsumed db') = [ae_token e])"
proof (intro conjI allI impI)
  show "length (unconsumed (su_db s)) \<le> 1" using adm_reach_tokens(1) [OF assms(1)] assms(2) by simp
next
  fix e se calls hs st st' qr url ttl n
  assume a: "am_state st = s \<and> pair_page x ax e acfg (supervisor_control x scfg se calls) hs st = (AP_pair qr url ttl n, st')"
  show "map pp_token (unconsumed (su_db (am_state st'))) = [ae_token e]"
  proof (cases rule: sc.pair_page_cases [where y = x and scfg = scfg and se = se and calls = calls and x = x and ax = ax and e = e
      and cfg = acfg and hs = hs and st = st])
    case (minted m db' r)
    then have "su_db (am_state st') = db'" using a by (auto simp: sc_sel)
    then show ?thesis using mint_unconsumed [OF minted(1)] by (simp add: mint_row_def)
  qed (use a in simp)
next
  fix e parse ver ttl line url expires db'
  assume h: "handle_conn x ax e parse (sg_admin_onion scfg) ver ttl line (su_db s) = (Sock_Ok url expires, db')"
  obtain label m where m: "mint_pairing_token x ax e (sg_admin_onion scfg) ver label ttl ''cli'' (su_db s) = Inr (m, db')"
    using h by (auto simp: handle_conn_def db_run_def split: option.splits sock_request.splits sum.splits if_splits prod.splits)
  show "map pp_token (unconsumed db') = [ae_token e]" using mint_unconsumed [OF m] by (simp add: mint_row_def)
qed

text \<open>
  C4: What a successful claim means. A reply of 200 to \<open>POST /pair\<close> implies that the body is a
  claim whose signature over key, admin onion and token verifies under the claimed key, and
  that either this key was paired already or the token was pending, not expired and not used,
  and is used up now. Afterwards the Owner has a row, the reply carries the onion of that row
  with the relay id derived from it, and no other Owner's row has changed.
\<close>
theorem pairing_sound:
  assumes "pair_post x e (supervisor_control x scfg se calls) body st = (r, st')" "reply_status r = 200"
  shows "\<exists>claim pk row. Option.bind (x_from_reader x body) (pairing_claim_from_cbor (x_leaf x)) = Some claim \<and>
    x_b64_decode x (pc_owner_pubkey claim) = Some pk \<and> length pk = 32 \<and>
    verify_ed25519 x pk (compute_pair_claim x pk (sg_admin_onion scfg) (pc_pairing_token claim)) (pc_sig claim) \<and>
    (owners_get pk (su_db (am_state st)) \<noteq> None \<or>
     (\<exists>p. pairings_get (pc_pairing_token claim) (su_db (am_state st)) = Some p \<and> ae_now e \<le> pp_expires_at p \<and>
        \<not> dead (pc_pairing_token claim) (su_db (am_state st))) \<and>
     dead (pc_pairing_token claim) (su_db (am_state st'))) \<and>
    owners_get pk (su_db (am_state st')) = Some row \<and>
    (\<forall>q. q \<noteq> pk \<longrightarrow> owners_get q (su_db (am_state st')) = owners_get q (su_db (am_state st))) \<and>
    r = AP (cbor_ok (x_into_writer x (pair_response_to_cbor
      \<lparr>pr_relay_onion = po_relay_onion_address row, pr_relay_id = relay_id x pk (po_relay_onion_address row)\<rparr>)))"
proof -
  have "ct_admin_onion (supervisor_control x scfg se calls) = sg_admin_onion scfg" by (simp add: sc_sel)
  then show ?thesis
    using sc.pair_post_sound [where y = x and scfg = scfg and se = se and calls = calls and x = x and e = e and body = body and st = st] assms
    by simp
qed

text \<open>
  C6: A token pairs one Owner. Once a claim by an unpaired key has succeeded, then after any
  further activity in which the generator does not repeat that token, a claim with it by
  another unpaired key is refused and no Owner is added or changed.
\<close>
theorem pair_token_once:
  assumes "pair_post x e (supervisor_control x scfg se calls) body st = (r, st')" "reply_status r = 200"
    and "Option.bind (x_from_reader x body) (pairing_claim_from_cbor (x_leaf x)) = Some claim"
    and "x_b64_decode x (pc_owner_pubkey claim) = Some pk" "owners_get pk (su_db (am_state st)) = None"
    and "(adm_step x ax acfg scfg T)\<^sup>*\<^sup>* (am_state st') s" "pc_pairing_token claim \<notin> T" "am_state st2 = s"
    and "Option.bind (x_from_reader x body2) (pairing_claim_from_cbor (x_leaf x)) = Some claim2"
    and "pc_pairing_token claim2 = pc_pairing_token claim"
    and "x_b64_decode x (pc_owner_pubkey claim2) = Some pk2" "owners_get pk2 (su_db s) = None"
    and "pair_post x e2 (supervisor_control x scfg se2 calls2) body2 st2 = (r2, st2')"
  shows "reply_status r2 \<in> {400, 401, 409, 410, 500} \<and>
    (\<forall>q. owners_get q (su_db (am_state st2')) = owners_get q (su_db s))"
proof -
  have "dead (pc_pairing_token claim) (su_db (am_state st'))"
    using sc.pair_post_sound [where y = x and scfg = scfg and se = se and calls = calls and x = x and e = e and body = body and st = st]
      assms(1-5) by auto
  then have d: "dead (pc_pairing_token claim) (su_db s)" using adm_reach_tokens(2) [OF assms(6)] assms(7) by blast
  show ?thesis
    using sc.pair_post_used [where y = x and scfg = scfg and se = se2 and calls = calls2 and x = x and e = e2 and st = st2 and
        tok = "pc_pairing_token claim" and body = body2 and claim = claim2 and pk = pk2] d assms(8-13)
    by simp
qed

section \<open>The password\<close>

text \<open>The cache holds the digest of a password that verified against the hash it is keyed to.\<close>

definition cache_ok :: "ext \<Rightarrow> adm_ext \<Rightarrow> auth_cache \<Rightarrow> bool" where
  "cache_ok x ax c \<longleftrightarrow>
     (case c of None \<Rightarrow> True
      | Some (phc, d) \<Rightarrow> \<exists>pw. verify_password ax pw phc \<and> blake2b256 x (as_bytes pw) = d)"

lemma verify_with_cache_ok:
  assumes "cache_ok x ax c" "verify_with_cache x ax e pw hash c = (ok, c')"
  shows "cache_ok x ax c'"
    and "ok \<Longrightarrow> \<exists>pw'. blake2b256 x (as_bytes pw') = blake2b256 x (as_bytes pw) \<and> verify_password ax pw' hash"
    and "ae_join_ok e \<Longrightarrow> verify_password ax pw hash \<Longrightarrow> ok"
proof -
  define d where "d = blake2b256 x (as_bytes pw)"
  define hit where "hit = (case c of None \<Rightarrow> False | Some (phc, cached) \<Rightarrow> phc = hash \<and> d = cached)"
  have v: "(ok, c') = (if hit then (True, c) else
      (ae_join_ok e \<and> verify_password ax pw hash, if ae_join_ok e \<and> verify_password ax pw hash then Some (hash, d) else c))"
    using assms(2) unfolding verify_with_cache_def Let_def hit_def d_def by simp
  have h: "\<exists>pw'. blake2b256 x (as_bytes pw') = d \<and> verify_password ax pw' hash" if "hit"
    using assms(1) that by (auto simp: hit_def cache_ok_def split: option.splits)
  show "cache_ok x ax c'" using v assms(1) by (auto simp: cache_ok_def d_def split: if_splits)
  show "\<exists>pw'. blake2b256 x (as_bytes pw') = blake2b256 x (as_bytes pw) \<and> verify_password ax pw' hash" if ok
    using v that h by (auto simp: d_def split: if_splits)
  show ok if "ae_join_ok e" "verify_password ax pw hash" using v that by (auto split: if_splits)
qed

text \<open>The admin pages under use: requests, and anything else that changes the relay's state in between.\<close>

inductive ui_step :: "ext \<Rightarrow> adm_ext \<Rightarrow> admin_cfg \<Rightarrow> sup_cfg \<Rightarrow> sup admin \<Rightarrow> sup admin \<Rightarrow> bool" for x ax acfg scfg where
  us_request: "ui_step x ax acfg scfg st (snd (admin_ui_router x ax e acfg (supervisor_control x scfg se calls) rq st))"
| us_other: "ui_step x ax acfg scfg st (st\<lparr>am_state := s'\<rparr>)"

lemma dispatch_cache: "am_cache (snd (admin_dispatch x ax e cfg ct rq rt st)) = am_cache st"
  by (auto simp: admin_dispatch_def index_page_def pair_page_def health_def api_owners_def api_unpair_def Let_def
      split: admin_route.split option.split prod.split sum.split)

lemma dispatch_status: "reply_status (fst (admin_dispatch x ax e cfg ct rq rt st)) \<noteq> 401"
  by (auto simp: admin_dispatch_def index_page_def pair_page_def health_def api_owners_def api_unpair_def Let_def
      plain_def internal_def status_only_def split: admin_route.split option.split prod.split sum.split)

lemma ui_router_auth:
  assumes "cache_ok x ax (am_cache st)"
  shows "cache_ok x ax (am_cache (snd (admin_ui_router x ax e acfg ct rq st)))" (is ?cache)
    and "creds_get (ct_db ct (am_state st)) = Some c \<Longrightarrow> ae_creds_pool e \<Longrightarrow>
      (reply_status (fst (admin_ui_router x ax e acfg ct rq st)) \<in> {401, 404, 429} \<and>
       am_state (snd (admin_ui_router x ax e acfg ct rq st)) = am_state st) \<or>
      (\<exists>pw pw'. supplied_password x (rq_headers rq) = Some pw \<and>
         blake2b256 x (as_bytes pw') = blake2b256 x (as_bytes pw) \<and> verify_password ax pw' (ac_password_hash c))" (is "_ \<Longrightarrow> _ \<Longrightarrow> ?only")
    and "creds_get (ct_db ct (am_state st)) = Some c \<Longrightarrow> supplied_password x (rq_headers rq) = Some pw \<Longrightarrow>
      verify_password ax pw (ac_password_hash c) \<Longrightarrow> ae_join_ok e \<Longrightarrow>
      reply_status (fst (admin_ui_router x ax e acfg ct rq st)) \<noteq> 401" (is "_ \<Longrightarrow> _ \<Longrightarrow> _ \<Longrightarrow> _ \<Longrightarrow> ?in")
proof -
  obtain a b where t: "try_acquire_at (ae_instant e) (am_bucket st) = (a, b)" by fastforce
  consider (limited) n where "a = Some n" | (nowhere) "a = None" "admin_route (rq_method rq) (rq_path rq) = None"
    | (routed) rt where "a = None" "admin_route (rq_method rq) (rq_path rq) = Some rt" by (cases a) auto
  then have "?cache \<and> (creds_get (ct_db ct (am_state st)) = Some c \<longrightarrow> ae_creds_pool e \<longrightarrow> ?only) \<and>
    (creds_get (ct_db ct (am_state st)) = Some c \<longrightarrow> supplied_password x (rq_headers rq) = Some pw \<longrightarrow>
      verify_password ax pw (ac_password_hash c) \<longrightarrow> ae_join_ok e \<longrightarrow> ?in)"
  proof cases
    case limited
    then show ?thesis using assms by (simp add: admin_ui_router_def limited_def t)
  next
    case nowhere
    then show ?thesis using assms by (simp add: admin_ui_router_def limited_def t status_only_def)
  next
    case (routed rt)
    let ?st = "st\<lparr>am_bucket := b\<rparr>" and ?k = "admin_dispatch x ax e acfg ct rq rt"
    have u: "admin_ui_router x ax e acfg ct rq st = basic_auth_mw x ax e ct (rq_headers rq) ?k ?st"
      by (simp add: admin_ui_router_def limited_def t routed)
    show ?thesis
    proof (cases "if ae_creds_pool e then creds_get (ct_db ct (am_state st)) else None")
      case None
      then have "admin_ui_router x ax e acfg ct rq st = ?k ?st" using u by (cases "ae_creds_pool e") (simp_all add: basic_auth_mw_def)
      then show ?thesis using assms None by (auto simp: dispatch_cache dispatch_status split: if_splits)
    next
      case (Some creds)
      then have c: "creds_get (ct_db ct (am_state st)) = Some creds" by (simp split: if_splits)
      obtain v c' where v: "(case supplied_password x (rq_headers rq) of
          Some password \<Rightarrow> verify_with_cache x ax e password (ac_password_hash creds) (am_cache st)
        | None \<Rightarrow> (False, am_cache st)) = (v, c')" by fastforce
      have r: "admin_ui_router x ax e acfg ct rq st =
          (if v then ?k (?st\<lparr>am_cache := c'\<rparr>) else (AP unauthorized, ?st\<lparr>am_cache := c'\<rparr>))"
        using u v Some
        by (cases "ae_creds_pool e"; cases "supplied_password x (rq_headers rq)") (simp_all add: basic_auth_mw_def)
      have ok: "cache_ok x ax c'" "v \<Longrightarrow> \<exists>pw pw'. supplied_password x (rq_headers rq) = Some pw \<and>
         blake2b256 x (as_bytes pw') = blake2b256 x (as_bytes pw) \<and> verify_password ax pw' (ac_password_hash creds)"
        "supplied_password x (rq_headers rq) = Some pw \<Longrightarrow> verify_password ax pw (ac_password_hash creds) \<Longrightarrow> ae_join_ok e \<Longrightarrow> v"
        using v assms verify_with_cache_ok [OF assms] by (auto split: option.splits)
      show ?thesis
      proof (cases v)
        case True
        then show ?thesis using r ok(1,2) c by (auto simp: dispatch_cache dispatch_status)
      next
        case False
        then show ?thesis using r ok(1,3) c by (auto simp: unauthorized_def)
      qed
    qed
  qed
  then show ?cache "creds_get (ct_db ct (am_state st)) = Some c \<Longrightarrow> ae_creds_pool e \<Longrightarrow> ?only"
    "creds_get (ct_db ct (am_state st)) = Some c \<Longrightarrow> supplied_password x (rq_headers rq) = Some pw \<Longrightarrow>
      verify_password ax pw (ac_password_hash c) \<Longrightarrow> ae_join_ok e \<Longrightarrow> ?in" by blast+
qed

lemma ui_reach_cache: "(ui_step x ax acfg scfg)\<^sup>*\<^sup>* (admin_ui_new now s) st \<Longrightarrow> cache_ok x ax (am_cache st)"
proof (induction rule: rtranclp_induct)
  case base
  show ?case by (simp add: admin_ui_new_def cache_ok_def)
next
  case (step st st')
  from step(2) show ?case
    by cases (use step(3) ui_router_auth(1) in simp_all)
qed

text \<open>
  C7: The password gate, in every state the admin pages reach. With credentials stored and
  readable, a request either is answered 401, 404 or 429 and changes nothing of the relay, or
  it carries a password with the digest of one that verifies against the stored hash: an entry
  of the cache made under an earlier hash never lets anyone in. And the right password is not
  refused.
\<close>
theorem admin_password:
  assumes "(ui_step x ax acfg scfg)\<^sup>*\<^sup>* (admin_ui_new now s0) st" "creds_get (su_db (am_state st)) = Some c" "ae_creds_pool e"
    "admin_ui_router x ax e acfg (supervisor_control x scfg se calls) rq st = (r, st')"
  shows "(reply_status r \<in> {401, 404, 429} \<and> am_state st' = am_state st \<or>
      (\<exists>pw pw'. supplied_password x (rq_headers rq) = Some pw \<and>
         blake2b256 x (as_bytes pw') = blake2b256 x (as_bytes pw) \<and> verify_password ax pw' (ac_password_hash c))) \<and>
    (\<forall>pw. supplied_password x (rq_headers rq) = Some pw \<and> verify_password ax pw (ac_password_hash c) \<and> ae_join_ok e \<longrightarrow> reply_status r \<noteq> 401)"
  using ui_router_auth(2,3) [OF ui_reach_cache [OF assms(1)], where ct = "supervisor_control x scfg se calls" and e = e and acfg = acfg
      and rq = rq and c = c] assms(2-4)
  by simp

text \<open>
  When the credentials cannot be read, because the pool is exhausted, the gate opens: a
  request with no password at all reaches its handler although a password is set.
\<close>
theorem admin_fails_open:
  assumes "\<not> ae_creds_pool e" "try_acquire_at (ae_instant e) (am_bucket st) = (None, b)"
    "admin_route (rq_method rq) (rq_path rq) = Some rt" "map_of (rq_headers rq) ''authorization'' = None"
  shows "admin_ui_router x ax e acfg (supervisor_control x scfg se calls) rq st =
    admin_dispatch x ax e acfg (supervisor_control x scfg se calls) rq rt (st\<lparr>am_bucket := b\<rparr>)"
  using assms by (simp add: admin_ui_router_def limited_def basic_auth_mw_def)

section \<open>Examples\<close>

text \<open>
  The body of a claim is the key of its Owner; the token is seven. The password is
  \<open>pw\<close> under any hash, and base64 is the identity.
\<close>

definition ex_claim :: "bytes \<Rightarrow> pairing_claim_wire" where
  "ex_claim k = \<lparr>pc_owner_pubkey = ex_text k, pc_pairing_token = [7], pc_sig = compute_pair_claim plain_ext k ''adm.onion'' [7] @ k\<rparr>"

definition ex_pair_ext :: ext where
  "ex_pair_ext = plain_ext\<lparr>x_from_reader := (\<lambda>body. Some (pairing_claim_to_cbor (ex_claim body)))\<rparr>"

definition ex_adm_ext :: adm_ext where
  "ex_adm_ext = \<lparr>ax_phc = (\<lambda>_. True), ax_argon2 = (\<lambda>pw h. pw = ''pw''), ax_b64url = ex_text, ax_qr = Some, ax_render_ok = True\<rparr>"

definition ex_adm_env :: admin_env where
  "ex_adm_env = \<lparr>ae_now = 50, ae_instant = 0, ae_token = [8], ae_creds_pool = True, ae_pool = True, ae_prune_ok = True,
     ae_commit_ok = True, ae_join_ok = True\<rparr>"

definition ex_acfg :: admin_cfg where "ex_acfg = \<lparr>ag_relay_version = ''1'', ag_pairing_ttl_secs = 300\<rparr>"

definition ex_pending :: pending_pairing where
  "ex_pending = \<lparr>pp_token = [7], pp_created_at = 0, pp_expires_at = 100, pp_consumed_at = None, pp_created_by = ''web'', pp_label = None\<rparr>"

definition ex_unpaired :: sup where
  "ex_unpaired = supervisor_new (empty_db\<lparr>d_pairings := [ex_pending]\<rparr>) []"

abbreviation ex_ctl :: "sup control" where
  "ex_ctl \<equiv> supervisor_control ex_pair_ext ex_sup_cfg ex_sup_env []"

lemma ex_claim_decode:
  "Option.bind (x_from_reader ex_pair_ext body) (pairing_claim_from_cbor (x_leaf ex_pair_ext)) = Some (ex_claim body)"
  using plain_leaf_ok
  by (simp add: ex_pair_ext_def plain_ext_def pairing_claim_from_cbor_def pairing_claim_to_cbor_def wire wire_defs)

lemma ex_claim_sel: "pc_pairing_token (ex_claim k) = [7]" "x_b64_decode ex_pair_ext (pc_owner_pubkey (ex_claim k)) = Some k"
  using ex_text_decode [of k] by (simp_all add: ex_claim_def ex_pair_ext_def)

lemma ex_claim_verifies:
  "length k = 32 \<Longrightarrow> verify_ed25519 ex_pair_ext k (compute_pair_claim ex_pair_ext k ''adm.onion'' [7]) (pc_sig (ex_claim k))"
  by (simp add: ex_claim_def ex_pair_ext_def verify_ed25519_def compute_pair_claim_def blake2b256_def plain_ext_def)

definition ex_claimed :: sup where
  "ex_claimed = snd (pair_owner ex_pair_ext ex_sup_cfg ex_sup_env ex_key None
     (ex_unpaired\<lparr>su_db := (su_db ex_unpaired)\<lparr>d_pairings := [ex_pending\<lparr>pp_consumed_at := Some 50\<rparr>]\<rparr>\<rparr>))"

lemma ex_claimed_ok: "\<exists>a. pair_owner ex_pair_ext ex_sup_cfg ex_sup_env ex_key None
     (ex_unpaired\<lparr>su_db := (su_db ex_unpaired)\<lparr>d_pairings := [ex_pending\<lparr>pp_consumed_at := Some 50\<rparr>]\<rparr>\<rparr>) = (Inr a, ex_claimed)"
  using ex_port by (simp add: ex_claimed_def sup_eval ex_unpaired_def)

lemma ex_claims:
  "\<exists>r. pair_post ex_pair_ext ex_adm_env ex_ctl ex_key (pair_router_new 0 ex_unpaired) = (r, pair_router_new 0 ex_claimed) \<and> reply_status r = 200"
proof -
  have c: "db_run True (claim_token ex_adm_env ex_key [7]) (su_db ex_unpaired) =
      (Inr (Proceed None), (su_db ex_unpaired)\<lparr>d_pairings := [ex_pending\<lparr>pp_consumed_at := Some 50\<rparr>]\<rparr>)"
    by (simp add: db_run_def claim_token_def ex_unpaired_def supervisor_new_def empty_db_def owners_get_def pairings_get_def tbl_find_def
        ex_pending_def ex_adm_env_def mark_consumed_def pairings_update_def)
  obtain a where a: "pair_owner ex_pair_ext ex_sup_cfg ex_sup_env ex_key None
     (ex_unpaired\<lparr>su_db := (su_db ex_unpaired)\<lparr>d_pairings := [ex_pending\<lparr>pp_consumed_at := Some 50\<rparr>]\<rparr>\<rparr>) = (Inr a, ex_claimed)"
    using ex_claimed_ok by blast
  have l: "length ex_key = 32" "sg_admin_onion ex_sup_cfg = ''adm.onion''" "ae_pool ex_adm_env"
    by (simp_all add: ex_key_def sc_sel ex_sup_cfg_def ex_adm_env_def)
  show ?thesis using c a ex_claim_verifies [OF l(1)]
    by (cases a) (simp add: pair_post_def ex_claim_decode ex_claim_sel to_pubkey_def l pair_router_new_def sc_sel cbor_ok_def cbor_response_def)
qed

theorem pairing_sound_witness:
  "\<exists>row. owners_get ex_key (su_db ex_claimed) = Some row \<and> dead [7] (su_db ex_claimed)"
proof -
  obtain r where r: "pair_post ex_pair_ext ex_adm_env ex_ctl ex_key (pair_router_new 0 ex_unpaired) = (r, pair_router_new 0 ex_claimed)"
    "reply_status r = 200" using ex_claims by blast
  have u: "owners_get ex_key (su_db ex_unpaired) = None"
    by (simp add: ex_unpaired_def supervisor_new_def empty_db_def owners_get_def tbl_find_def)
  show ?thesis using pairing_sound [OF r] u by (auto simp: ex_claim_decode ex_claim_sel pair_router_new_def)
qed

theorem pair_token_once_witness:
  "\<exists>r. reply_status (fst (pair_post ex_pair_ext ex_adm_env ex_ctl (replicate 32 2) (pair_router_new 0 ex_claimed))) = r \<and>
     r \<in> {400, 401, 409, 410, 500} \<and> owners_get (replicate 32 2) (su_db ex_claimed) = None"
proof -
  obtain r where r: "pair_post ex_pair_ext ex_adm_env ex_ctl ex_key (pair_router_new 0 ex_unpaired) = (r, pair_router_new 0 ex_claimed)"
    "reply_status r = 200" using ex_claims by blast
  obtain r2 st2 where r2: "pair_post ex_pair_ext ex_adm_env ex_ctl (replicate 32 2) (pair_router_new 0 ex_claimed) = (r2, st2)" by fastforce
  have u: "owners_get ex_key (su_db (am_state (pair_router_new 0 ex_unpaired))) = None" "owners_get (replicate 32 2) (su_db ex_claimed) = None"
    using ex_port by (simp_all add: ex_claimed_def sup_eval ex_unpaired_def pair_router_new_def ex_key_def)
  have s: "(adm_step ex_pair_ext ex_adm_ext ex_acfg ex_sup_cfg {[8]})\<^sup>*\<^sup>* (am_state (pair_router_new 0 ex_claimed)) ex_claimed"
    "pc_pairing_token (ex_claim ex_key) \<notin> {[8]}" "am_state (pair_router_new 0 ex_claimed) = ex_claimed"
    "pc_pairing_token (ex_claim (replicate 32 2)) = pc_pairing_token (ex_claim ex_key)"
    by (simp_all add: pair_router_new_def ex_claim_sel)
  show ?thesis
    using pair_token_once [OF r ex_claim_decode ex_claim_sel(2) u(1) s(1-3) ex_claim_decode s(4) ex_claim_sel(2) u(2) r2] r2 u(2) by simp
qed

theorem one_live_token_witness:
  "\<exists>qr url ttl n st'. pair_page ex_pair_ext ex_adm_ext ex_adm_env ex_acfg ex_ctl [] (admin_ui_new 0 ex_paired) = (AP_pair qr url ttl n, st') \<and>
     map pp_token (unconsumed (su_db (am_state st'))) = [[8]]"
proof -
  have m: "\<exists>m db'. mint_pairing_token ex_pair_ext ex_adm_ext ex_adm_env ''adm.onion'' ''1'' None 300 ''web'' (su_db ex_paired) = Inr (m, db')"
    by (simp add: mint_pairing_token_def Let_def ex_adm_env_def prune_expired_def consume_all_unconsumed_def pairings_update_def
        pairings_insert_def tbl_insert_def ex_paired_def supervisor_new_def empty_db_def tbl_find_def res_bind_def)
  then have "\<exists>qr url ttl n st'. pair_page ex_pair_ext ex_adm_ext ex_adm_env ex_acfg ex_ctl [] (admin_ui_new 0 ex_paired) = (AP_pair qr url ttl n, st')"
    by (auto simp: pair_page_def cross_site_def header_str_def db_run_def ex_acfg_def sc_sel ex_sup_cfg_def admin_ui_new_def res_bind_def
        ex_adm_ext_def ex_adm_env_def)
  moreover have "unconsumed (su_db ex_paired) = []" by (simp add: unconsumed_def ex_paired_def supervisor_new_def empty_db_def)
  moreover have "am_state (admin_ui_new 0 ex_paired) = ex_paired" "ae_token ex_adm_env = [8]" by (simp_all add: admin_ui_new_def ex_adm_env_def)
  ultimately show ?thesis
    using one_live_token [of ex_pair_ext ex_adm_ext ex_acfg ex_sup_cfg "{[8]}" ex_paired ex_paired] by (metis rtranclp.rtrancl_refl)
qed

definition ex_locked :: sup where
  "ex_locked = supervisor_new (empty_db\<lparr>d_creds := Some \<lparr>ac_password_hash = ''h'', ac_updated_at = 0\<rparr>\<rparr>) []"

definition ex_get :: "headers \<Rightarrow> request" where
  "ex_get hs = \<lparr>rq_method = ''GET'', rq_path = ''/api/owners'', rq_query = Some [], rq_param = Some, rq_headers = hs, rq_body = []\<rparr>"

lemma ex_get_owners:
  "admin_route (rq_method (ex_get hs)) (rq_path (ex_get hs)) = Some A_owners" "rq_headers (ex_get hs) = hs"
  "try_acquire_at 0 (am_bucket (admin_ui_new 0 s)) = (None, (per_minute 120 30 0)\<lparr>bk_tokens := 29\<rparr>)"
  by (simp_all add: admin_route_def Let_def ex_get_def admin_ui_new_def per_minute_def try_acquire_at_def)

theorem admin_password_witness:
  "reply_status (fst (admin_ui_router ex_pair_ext ex_adm_ext ex_adm_env ex_acfg ex_ctl
     (ex_get [(''authorization'', Some ''Basic u:pw'')]) (admin_ui_new 0 ex_locked))) \<noteq> 401 \<and>
   reply_status (fst (admin_ui_router ex_pair_ext ex_adm_ext ex_adm_env ex_acfg ex_ctl (ex_get []) (admin_ui_new 0 ex_locked))) \<in> {401, 404, 429}"
proof -
  define good where "good = ex_get [(''authorization'', Some ''Basic u:pw'')]"
  have c: "creds_get (su_db (am_state (admin_ui_new 0 ex_locked))) = Some \<lparr>ac_password_hash = ''h'', ac_updated_at = 0\<rparr>" "ae_creds_pool ex_adm_env"
    by (simp_all add: creds_get_def admin_ui_new_def ex_locked_def supervisor_new_def ex_adm_env_def)
  have p: "supplied_password ex_pair_ext (rq_headers good) = Some ''pw''" "supplied_password ex_pair_ext (rq_headers (ex_get [])) = None"
  proof -
    have "from_utf8 (as_bytes ''u:pw'') = Some ''u:pw''" "split_once (CHR '':'') ''u:pw'' = Some (''u'', ''pw'')" by code_simp+
    moreover have "strip_prefix ''Basic '' ''Basic u:pw'' = Some ''u:pw''" by (simp add: strip_prefix_def)
    ultimately show "supplied_password ex_pair_ext (rq_headers good) = Some ''pw''"
      by (simp add: supplied_password_def good_def ex_get_def header_str_def ex_pair_ext_def plain_ext_def)
    show "supplied_password ex_pair_ext (rq_headers (ex_get [])) = None"
      by (simp add: supplied_password_def ex_get_def header_str_def)
  qed
  have v: "verify_password ex_adm_ext ''pw'' ''h''" "ae_join_ok ex_adm_env" by (simp_all add: verify_password_def ex_adm_ext_def ex_adm_env_def)
  show ?thesis
    using admin_password [OF rtranclp.rtrancl_refl c prod.collapse [symmetric], where se = ex_sup_env and calls = "[]" and rq = good
        and x = ex_pair_ext and ax = ex_adm_ext and acfg = ex_acfg and scfg = ex_sup_cfg]
      admin_password [OF rtranclp.rtrancl_refl c prod.collapse [symmetric], where se = ex_sup_env and calls = "[]" and rq = "ex_get []"
        and x = ex_pair_ext and ax = ex_adm_ext and acfg = ex_acfg and scfg = ex_sup_cfg] p v
    by (simp add: good_def)
qed

theorem admin_fails_open_witness:
  "\<exists>owners. fst (admin_ui_router ex_pair_ext ex_adm_ext (ex_adm_env\<lparr>ae_creds_pool := False\<rparr>) ex_acfg ex_ctl (ex_get [])
     (admin_ui_new 0 ex_locked)) = AP_owners owners"
proof -
  have "\<not> ae_creds_pool (ex_adm_env\<lparr>ae_creds_pool := False\<rparr>)" "ae_instant (ex_adm_env\<lparr>ae_creds_pool := False\<rparr>) = 0"
    "ae_pool (ex_adm_env\<lparr>ae_creds_pool := False\<rparr>)" "map_of (rq_headers (ex_get [])) ''authorization'' = None"
    by (simp_all add: ex_adm_env_def ex_get_def)
  then show ?thesis
    using admin_fails_open [of "ex_adm_env\<lparr>ae_creds_pool := False\<rparr>" "admin_ui_new 0 ex_locked" "(per_minute 120 30 0)\<lparr>bk_tokens := 29\<rparr>" "ex_get []"
        A_owners ex_pair_ext ex_adm_ext ex_acfg ex_sup_cfg ex_sup_env "[]"] ex_get_owners(1,2) [of "[]"] ex_get_owners(3) [of ex_locked]
    by (simp add: admin_dispatch_def api_owners_def Let_def)
qed

end
