(* ===== verification/Ws.thy ===== *)
theory Ws
  imports VoiceProps Http
begin

text \<open>
  The signalling socket (\<open>starling-relay-voice/src/ws.rs\<close>) and the session handle it drives
  (\<open>SessionTx\<close> of \<open>lib.rs\<close>): what one websocket connection sends to the client and to the voice
  loop.

  A run is given by what happens to it: the messages that arrive, the server frames the session
  receives, and whether the task is dropped in between.
\<close>

section \<open>The router\<close>

definition JOIN_DEADLINE :: nat where "JOIN_DEADLINE = 10"
definition MAX_FRAME_BYTES :: nat where "MAX_FRAME_BYTES = 64 * 1024"
definition WS_RATE_PER_MIN :: nat where "WS_RATE_PER_MIN = 30"
definition WS_BURST :: nat where "WS_BURST = 10"

text \<open>The bucket of a fresh router, and one request; \<open>upgrade\<close> is the framework's answer to it.\<close>

definition voice_ws_new :: "rat \<Rightarrow> bucket" where
  "voice_ws_new now = per_minute WS_RATE_PER_MIN WS_BURST now"

definition voice_ws_router :: "(request \<Rightarrow> response) \<Rightarrow> rat \<Rightarrow> request \<Rightarrow> bucket \<times> world \<Rightarrow> (response \<times> bucket \<times> world) option" where
  "voice_ws_router upgrade now rq st =
     (if rq_path rq \<noteq> ''/ws/voice'' then None
      else case rate_limit_mw now (fst st) (snd st) (\<lambda>w. (upgrade rq, w)) of ((rs, w), b) \<Rightarrow> Some (rs, b, w))"

section \<open>The connection\<close>

text \<open>What \<open>recv\<close> gives; a message over the limit is an error.\<close>

datatype ws_msg = M_Binary bytes | M_Close | M_Other | M_Err

definition limited :: "ws_msg \<Rightarrow> ws_msg" where
  "limited m = (case m of M_Binary b \<Rightarrow> if MAX_FRAME_BYTES < length b then M_Err else m | _ \<Rightarrow> m)"

text \<open>The messages up to the first frame; the end of the list is the end of the socket.\<close>

fun next_frame :: "ext \<Rightarrow> ws_msg list \<Rightarrow> client_frame option" where
  "next_frame x [] = None"
| "next_frame x (m # ms) =
     (case limited m of
        M_Binary b \<Rightarrow> client_frame_parse x b
      | M_Close \<Rightarrow> None
      | M_Err \<Rightarrow> None
      | M_Other \<Rightarrow> next_frame x ms)"

text \<open>
  A turn of the loop: the socket or the session is ready (\<open>None\<close> at its end; the flag says whether the
  socket takes the frame), or the task is dropped, with room in the command channel or without.
\<close>

datatype ws_turn = T_sock "ws_msg option" | T_sess "server_frame option" bool | T_dropped bool

datatype ws_out = O_send bytes | O_cmd command

fun session_loop :: "ext \<Rightarrow> nat \<Rightarrow> ws_turn list \<Rightarrow> ws_out list" where
  "session_loop x sid [] = []"
| "session_loop x sid (t # ts) =
     (case t of
        T_sock msg \<Rightarrow>
          (case map_option limited msg of
             Some (M_Binary b) \<Rightarrow>
               (case client_frame_parse x b of
                  Some f \<Rightarrow> O_cmd (C_SessionFrame sid f) # session_loop x sid ts
                | None \<Rightarrow> [O_cmd (C_SessionClosed sid)])
           | Some M_Close \<Rightarrow> [O_cmd (C_SessionClosed sid)]
           | None \<Rightarrow> [O_cmd (C_SessionClosed sid)]
           | Some M_Other \<Rightarrow> session_loop x sid ts
           | Some M_Err \<Rightarrow> [O_cmd (C_SessionClosed sid)])
      | T_sess frame ok \<Rightarrow>
          (case frame of
             Some f \<Rightarrow>
               if ok then O_send (x_into_writer x (server_frame_to_cbor f)) # session_loop x sid ts
               else [O_cmd (C_SessionClosed sid)]
           | None \<Rightarrow> [O_cmd (C_SessionClosed sid)])
      | T_dropped room \<Rightarrow> if room then [O_cmd (C_SessionClosed sid)] else [])"

text \<open>
  \<open>open_session\<close>: the loop is gone, it goes before it replies, or the session's number comes
  back.
\<close>

datatype session_open = Loop_gone | Reply_lost | Opened nat

fun is_join :: "client_frame \<Rightarrow> bool" where
  "is_join (CF_Join _) = True"
| "is_join _ = False"

definition drive :: "ext \<Rightarrow> bool \<Rightarrow> session_open \<Rightarrow> bytes \<Rightarrow> ws_msg list \<Rightarrow> ws_turn list \<Rightarrow> ws_out list" where
  "drive x late opened owner ms ts =
     (if late then []
      else case next_frame x ms of
             None \<Rightarrow> []
           | Some f \<Rightarrow>
               if \<not> is_join f
               then [O_send (x_into_writer x (server_frame_to_cbor (SF_Error ERR_PROTOCOL ''first frame must be join'')))]
               else case opened of
                      Loop_gone \<Rightarrow> []
                    | Reply_lost \<Rightarrow> [O_cmd (C_OpenSession owner True)]
                    | Opened sid \<Rightarrow> O_cmd (C_OpenSession owner True) # O_cmd (C_SessionFrame sid f) # session_loop x sid ts)"

section \<open>What the voice loop sees of a connection\<close>

fun commands :: "ws_out list \<Rightarrow> command list" where
  "commands [] = []"
| "commands (O_send _ # acts) = commands acts"
| "commands (O_cmd c # acts) = c # commands acts"

fun sends :: "ws_out list \<Rightarrow> bytes list" where
  "sends [] = []"
| "sends (O_send b # acts) = b # sends acts"
| "sends (O_cmd _ # acts) = sends acts"

text \<open>The turns that end the loop.\<close>

definition ends :: "ext \<Rightarrow> ws_turn \<Rightarrow> bool" where
  "ends x t =
     (case t of
        T_sock msg \<Rightarrow>
          (case map_option limited msg of
             Some (M_Binary b) \<Rightarrow> client_frame_parse x b = None
           | Some M_Other \<Rightarrow> False
           | _ \<Rightarrow> True)
      | T_sess frame ok \<Rightarrow> frame = None \<or> \<not> ok
      | T_dropped _ \<Rightarrow> True)"

definition frame_of :: "ext \<Rightarrow> ws_turn \<Rightarrow> client_frame option" where
  "frame_of x t = (case t of T_sock (Some m) \<Rightarrow> (case limited m of M_Binary b \<Rightarrow> client_frame_parse x b | _ \<Rightarrow> None) | _ \<Rightarrow> None)"

definition server_of :: "ws_turn \<Rightarrow> server_frame option" where
  "server_of t = (case t of T_sess frame _ \<Rightarrow> frame | _ \<Rightarrow> None)"

definition leaving :: "nat \<Rightarrow> ws_turn list \<Rightarrow> command list" where
  "leaving sid ts = (case ts of [] \<Rightarrow> [] | t # _ \<Rightarrow> if t = T_dropped False then [] else [C_SessionClosed sid])"

lemma in_leaving: "c \<in> set (leaving sid ts) \<longleftrightarrow> leaving sid ts = [C_SessionClosed sid] \<and> c = C_SessionClosed sid"
  by (auto simp: leaving_def split: list.splits if_splits)

lemma session_loop_commands:
  "commands (session_loop x sid ts) =
     map (C_SessionFrame sid) (List.map_filter (frame_of x) (takeWhile (\<lambda>t. \<not> ends x t) ts)) @
     leaving sid (dropWhile (\<lambda>t. \<not> ends x t) ts)"
  by (induction ts)
    (auto simp: ends_def frame_of_def leaving_def map_filter_simps split: ws_turn.splits ws_msg.splits option.splits)

lemma session_loop_sends:
  "sends (session_loop x sid ts) =
     map (\<lambda>f. x_into_writer x (server_frame_to_cbor f)) (List.map_filter server_of (takeWhile (\<lambda>t. \<not> ends x t) ts))"
  by (induction ts)
    (auto simp: ends_def server_of_def map_filter_simps split: ws_turn.splits ws_msg.splits option.splits)

lemma is_joinE: "is_join f \<Longrightarrow> \<exists>token. f = CF_Join token"
  by (cases f) auto

lemma close_gone:
  assumes "sv_ok sv"
  shows "sess (close_session now sid f sv) sid = None"
  using close_frame [OF assms _ refl, of sid _ now f] close_absent [of sv sid now f] by (cases "sess sv sid") auto

text \<open>
  C23: One connection to the voice loop. Nothing reaches the loop unless the client's first frame is a join in
  time; then the loop sees the session opened for the router's Owner, that join, the client's further frames
  in order and nothing else, each under the session's own number, and the leave as the last command as soon
  as the socket, the client or the session ends (only a task dropped while the command channel is full
  leaves silently). The client gets the session's frames, in order. And when the loop takes the leave in any
  state it can be in, the session is gone and in no roster.
\<close>
theorem ws_session_discipline:
  assumes "acts = drive x late opened owner ms ts" "vreach y ops fu sv"
  shows "(commands acts = [] \<or>
     (\<exists>token. \<not> late \<and> next_frame x ms = Some (CF_Join token) \<and>
       ((opened = Reply_lost \<and> commands acts = [C_OpenSession owner True]) \<or>
        (\<exists>sid. opened = Opened sid \<and>
          commands acts = C_OpenSession owner True # C_SessionFrame sid (CF_Join token) #
            map (C_SessionFrame sid) (List.map_filter (frame_of x) (takeWhile (\<lambda>t. \<not> ends x t) ts)) @
            leaving sid (dropWhile (\<lambda>t. \<not> ends x t) ts) \<and>
          sends acts = map (\<lambda>f. x_into_writer x (server_frame_to_cbor f)) (List.map_filter server_of (takeWhile (\<lambda>t. \<not> ends x t) ts)))))) \<and>
   (\<forall>sid. C_SessionClosed sid \<in> set (commands acts) \<longrightarrow>
      last (commands acts) = C_SessionClosed sid \<and>
      (\<exists>sv'. handle_command y ops fu now (last (commands acts)) sv = Inr sv' \<and> sess sv' sid = None \<and>
        (\<forall>key c. callm sv' key = Some c \<longrightarrow> sid \<notin> set (ca_participants c))))"
proof (rule conjI)
  show "commands acts = [] \<or>
     (\<exists>token. \<not> late \<and> next_frame x ms = Some (CF_Join token) \<and>
       ((opened = Reply_lost \<and> commands acts = [C_OpenSession owner True]) \<or>
        (\<exists>sid. opened = Opened sid \<and>
          commands acts = C_OpenSession owner True # C_SessionFrame sid (CF_Join token) #
            map (C_SessionFrame sid) (List.map_filter (frame_of x) (takeWhile (\<lambda>t. \<not> ends x t) ts)) @
            leaving sid (dropWhile (\<lambda>t. \<not> ends x t) ts) \<and>
          sends acts = map (\<lambda>f. x_into_writer x (server_frame_to_cbor f)) (List.map_filter server_of (takeWhile (\<lambda>t. \<not> ends x t) ts)))))"
    unfolding assms(1) drive_def
    by (auto simp: session_loop_commands session_loop_sends dest!: is_joinE split: option.splits session_open.splits)
next
  have ok: "sv_ok sv" by (rule vreach_ok [OF assms(2)])
  have gone: "\<exists>sv'. handle_command y ops fu now (C_SessionClosed sid) sv = Inr sv' \<and> sess sv' sid = None \<and>
      (\<forall>key c. callm sv' key = Some c \<longrightarrow> sid \<notin> set (ca_participants c))" for sid
  proof -
    have "sid \<notin> set (ca_participants c)" if "callm (close_session now sid None sv) key = Some c" for key c
      using sv_okD(5) [OF close_ok [OF ok] that] close_gone [OF ok, of now sid None] by (auto simp: call_ok_def)
    then show ?thesis using close_gone [OF ok] by (simp add: handle_command_def)
  qed
  have "last (commands acts) = C_SessionClosed sid" if "C_SessionClosed sid \<in> set (commands acts)" for sid
    using that unfolding assms(1) drive_def
    by (auto simp: session_loop_commands in_leaving split: option.splits session_open.splits if_splits)
  then show "\<forall>sid. C_SessionClosed sid \<in> set (commands acts) \<longrightarrow>
      last (commands acts) = C_SessionClosed sid \<and>
      (\<exists>sv'. handle_command y ops fu now (last (commands acts)) sv = Inr sv' \<and> sess sv' sid = None \<and>
        (\<forall>key c. callm sv' key = Some c \<longrightarrow> sid \<notin> set (ca_participants c)))"
    using gone by metis
qed

section \<open>Example\<close>

text \<open>A codec that reads every message as a bye, once the first one is a join.\<close>

definition ex_ws_ext :: ext where
  "ex_ws_ext = plain_ext\<lparr>x_from_reader := (\<lambda>b. Some (if b = [1] then client_frame_to_cbor (CF_Join [7]) else client_frame_to_cbor CF_Bye))\<rparr>"

theorem ws_session_discipline_witness:
  "\<exists>sv'. handle_command plain_ext log_ops ex_fuel 0
     (last (commands (drive ex_ws_ext False (Opened 1) [9] [M_Other, M_Binary [1]] [T_sock (Some (M_Binary [2])), T_sock None])))
     (server_new ex_cfg [] 0) = Inr sv' \<and> sess sv' 1 = None"
proof -
  have w: "wire_ok ex_ws_ext" using plain_ext_ok by (simp add: wire_ok_def ex_ws_ext_def)
  have j: "client_frame_parse ex_ws_ext [1] = Some (CF_Join [7])" "client_frame_parse ex_ws_ext [2] = Some CF_Bye"
    using client_frame_roundtrip_value [OF w] by (simp_all add: client_frame_parse_def ex_ws_ext_def del: client_frame_to_cbor.simps)
  have m: "C_SessionClosed 1 \<in> set (commands (drive ex_ws_ext False (Opened 1) [9] [M_Other, M_Binary [1]] [T_sock (Some (M_Binary [2])), T_sock None]))"
    by (simp add: drive_def limited_def MAX_FRAME_BYTES_def j)
  show ?thesis
    using ws_session_discipline [OF refl vreach_new [of plain_ext log_ops ex_fuel ex_cfg "[]" 0], of ex_ws_ext False "Opened 1" "[9]"
        "[M_Other, M_Binary [1]]" "[T_sock (Some (M_Binary [2])), T_sock None]" 0] m by blast
qed

end
