(* ===== verification/Drain.thy ===== *)
theory Drain
  imports VoiceProps
begin

text \<open>
  The media loops of the voice server end (\<open>Server::drain_session\<close> and \<open>Server::drain_ready\<close> of
  \<open>starling-relay-voice/src/server.rs\<close>): a turn of the event loop needs only finitely much
  fuel, whatever the state and the event.

  What is asked of the WebRTC engine is \<open>quiesces\<close>: \<open>inn\<close> bounds the received packets it has still
  to hand out and \<open>outp\<close> its other outputs. Polling gives them out one by one until the timeout,
  and neither the passing of time nor a packet written to the engine makes it receive one.
  Both may make it produce any number of other outputs.
\<close>

section \<open>The engine\<close>

definition poll_shrinks :: "('r \<Rightarrow> nat) \<Rightarrow> ('r \<Rightarrow> nat) \<Rightarrow> 'r \<Rightarrow> rtc_output \<times> 'r \<Rightarrow> bool" where
  "poll_shrinks inn outp r q =
     (case q of (out, r1) \<Rightarrow>
        (case out of
           Out_timeout _ \<Rightarrow> inn r1 \<le> inn r
         | Out_error \<Rightarrow> inn r1 \<le> inn r
         | Out_rtp _ \<Rightarrow> inn r1 < inn r
         | Out_transmit _ \<Rightarrow> inn r1 \<le> inn r \<and> outp r1 < outp r
         | Out_disconnected \<Rightarrow> inn r1 \<le> inn r \<and> outp r1 < outp r
         | Out_event \<Rightarrow> inn r1 \<le> inn r \<and> outp r1 < outp r))"

definition quiesces :: "('r, 'p) rtc_ops \<Rightarrow> ('r \<Rightarrow> nat) \<Rightarrow> ('r \<Rightarrow> nat) \<Rightarrow> bool" where
  "quiesces ops inn outp \<longleftrightarrow>
     (\<forall>r. poll_shrinks inn outp r (rt_poll_output ops r)) \<and>
     (\<forall>now r. inn (snd (rt_handle_input ops (In_timeout now) r)) \<le> inn r) \<and>
     (\<forall>ssrc w r. inn (rt_write_rtp ops ssrc w r) \<le> inn r)"

lemma quiescesD:
  assumes "quiesces ops inn outp"
  shows "poll_shrinks inn outp r (rt_poll_output ops r)" "rt_handle_input ops (In_timeout now) r = (ok, r1) \<Longrightarrow> inn r1 \<le> inn r"
    "inn (rt_write_rtp ops ssrc w r) \<le> inn r"
  using assms by (simp add: quiesces_def, metis quiesces_def snd_conv, simp add: quiesces_def)

text \<open>One poll loop: enough fuel, and what it gives.\<close>

lemma poll_ends:
  assumes "quiesces ops inn outp"
  shows "\<exists>n fs c t r1. (\<forall>m \<ge> n. \<forall>acc cl. poll_loop ops m acc cl r = Some (acc @ fs, cl \<or> c, t, r1)) \<and> inn r1 + length fs \<le> inn r"
proof (induction r rule: wf_induct_rule [OF wf_measures [of "[inn, outp]"]])
  case (1 r)
  obtain out r1 where p: "rt_poll_output ops r = (out, r1)" by fastforce
  have q: "poll_shrinks inn outp r (out, r1)" using quiescesD(1) [OF assms, of r] p by simp
  have stop: ?case if "inn r2 \<le> inn r" "\<And>m acc cl. poll_loop ops (Suc m) acc cl r = Some (acc, cl \<or> c, t, r2)" for r2 c t
    by (rule exI [of _ 1], rule exI [of _ "[]"], rule exI [of _ c], rule exI [of _ t], rule exI [of _ r2])
      (use that in \<open>auto simp: le_Suc_ex Suc_le_eq gr0_conv_Suc\<close>)
  have go: ?case if lt: "inn r1 + length hd \<le> inn r" "hd = [] \<longrightarrow> outp r1 < outp r"
      and eq: "\<And>m acc cl. poll_loop ops (Suc m) acc cl r = poll_loop ops m (acc @ hd) (cl \<or> d) r1" for hd d
  proof -
    have "(r1, r) \<in> measures [inn, outp]" using lt by (cases hd) auto
    then obtain n fs c t r2 where ih: "\<forall>m \<ge> n. \<forall>acc cl. poll_loop ops m acc cl r1 = Some (acc @ fs, cl \<or> c, t, r2)" "inn r2 + length fs \<le> inn r1"
      using 1 by blast
    have "poll_loop ops m acc cl r = Some (acc @ (hd @ fs), cl \<or> (d \<or> c), t, r2)" if "Suc n \<le> m" for m acc cl
      using that ih(1) eq by (cases m) (simp_all add: disj_assoc)
    then show ?case using ih(2) lt(1) by (intro exI [of _ "Suc n"] exI [of _ "hd @ fs"] exI [of _ "d \<or> c"] exI [of _ t] exI [of _ r2]) simp
  qed
  show ?case
  proof (cases out)
    case (Out_timeout t)
    then show ?thesis using stop [of r1 False "Some t"] p q by (simp add: poll_shrinks_def)
  next
    case (Out_transmit b)
    then show ?thesis using go [of "[]" False] p q by (simp add: poll_shrinks_def)
  next
    case (Out_rtp pk)
    then show ?thesis using go [of "[pk]" False] p q by (simp add: poll_shrinks_def)
  next
    case Out_disconnected
    then show ?thesis using go [of "[]" True] p q by (simp add: poll_shrinks_def)
  next
    case Out_event
    then show ?thesis using go [of "[]" False] p q by (simp add: poll_shrinks_def)
  next
    case Out_error
    then show ?thesis using stop [of r1 True None] p q by (simp add: poll_shrinks_def)
  qed
qed

section \<open>The load of the server\<close>

definition weight :: "('r \<Rightarrow> nat) \<Rightarrow> ('r, 'p) session \<Rightarrow> nat" where
  "weight inn s = (case ss_rtc s of None \<Rightarrow> 0 | Some r \<Rightarrow> inn r)"

definition load :: "('r \<Rightarrow> nat) \<Rightarrow> ('r, 'p) server \<Rightarrow> nat" where
  "load inn sv = sum_list (map (weight inn \<circ> snd) (sv_sessions sv))"

lemma weight_sel [simp]:
  "weight inn (s\<lparr>ss_room := n\<rparr>) = weight inn s" "weight inn (s\<lparr>ss_tx_slots := ts, ss_queued := q\<rparr>) = weight inn s"
  "weight inn (s\<lparr>ss_rtc := Some r, ss_next_timeout := t\<rparr>) = inn r" "weight inn (s\<lparr>ss_rtc := Some r\<rparr>) = inn r"
  by (simp_all add: weight_def)

lemma load_sel [simp]:
  "load inn (sv\<lparr>sv_sent := x\<rparr>) = load inn sv" "load inn (sv\<lparr>sv_dirty := d\<rparr>) = load inn sv"
  "load inn (push_dirty sid sv) = load inn sv" "load inn (put_call key c sv) = load inn sv"
  by (simp_all add: load_def put_defs)

lemma sum_update:
  fixes g :: "'b \<Rightarrow> nat"
  shows "map_of xs k = Some v \<Longrightarrow> sum_list (map (g \<circ> snd) (AList.update k w xs)) + g v = sum_list (map (g \<circ> snd) xs) + g w"
  by (induction xs) (auto split: if_splits)

lemma load_put: "sess sv sid = Some s \<Longrightarrow> load inn (put_session sid t sv) + weight inn s = load inn sv + weight inn t"
  using sum_update [of "sv_sessions sv" sid s "weight inn" t] by (simp add: load_def put_session_def)

lemma sum_delete: "sum_list (map f (AList.delete k xs)) \<le> sum_list (map (f :: _ \<Rightarrow> nat) xs)"
  by (induction xs) auto

lemma load_delete: "load inn (sv\<lparr>sv_sessions := AList.delete sid (sv_sessions sv)\<rparr>) \<le> load inn sv"
  by (simp add: load_def sum_delete)

text \<open>What only sends and closes keeps the queue and adds no load.\<close>

definition light :: "('r \<Rightarrow> nat) \<Rightarrow> ('r, 'p) server \<Rightarrow> ('r, 'p) server \<Rightarrow> bool" where
  "light inn sv sv' \<longleftrightarrow> load inn sv' \<le> load inn sv \<and> sv_dirty sv' = sv_dirty sv"

lemma light_refl [simp]: "light inn sv sv"
  by (simp add: light_def)

lemma light_trans: "light inn sv sv' \<Longrightarrow> light inn sv' sv'' \<Longrightarrow> light inn sv sv''"
  by (simp add: light_def)

lemma light_put: "sess sv sid = Some s \<Longrightarrow> weight inn t \<le> weight inn s \<Longrightarrow> light inn sv (put_session sid t sv)"
  using load_put [of sv sid s inn t] by (simp add: light_def put_session_def)

lemma light_send: "light inn sv (snd (try_send sid f sv))"
proof (cases rule: try_send_cases [where sv = sv and sid = sid and f = f])
  case (yes s)
  then show ?thesis using light_put [of sv sid s inn "s\<lparr>ss_room := ss_room s - 1\<rparr>"] by (simp add: light_def)
qed simp

lemma light_notify: "light inn sv (notify_left sid sfu p sv)"
proof (cases "sess sv p")
  case (Some ps)
  then show ?thesis
    using light_trans [OF light_put [OF Some, of inn "ps\<lparr>ss_tx_slots := AList.delete sid (ss_tx_slots ps),
        ss_queued := filter (\<lambda>(q, _). q \<noteq> sid) (ss_queued ps)\<rparr>"] light_send]
    by (simp add: notify_left_def)
qed (simp add: notify_left_def)

lemma light_notify_all: "light inn sv (fold (notify_left sid sfu) ps sv)"
  by (induction ps arbitrary: sv) (auto intro: light_trans light_notify)

lemma light_close: "light inn sv (close_session now sid f sv)"
proof (cases "sess sv sid")
  case (Some s)
  define sv1 where "sv1 = (case f of None \<Rightarrow> sv | Some fr \<Rightarrow> snd (try_send sid fr sv))"
  define sv2 where "sv2 = sv1\<lparr>sv_sessions := AList.delete sid (sv_sessions sv1)\<rparr>"
  have 1: "light inn sv sv1" by (cases f) (simp_all add: sv1_def light_send)
  have 2: "light inn sv sv2" using load_delete [of inn sid sv1] 1 by (simp add: light_def sv2_def)
  have 3: "light inn sv (fold (notify_left sid sfu) ps (put_call key c sv2))" for sfu ps key c
    using light_trans [OF 2 light_trans [OF _ light_notify_all [of inn "put_call key c sv2"]]] by (simp add: light_def put_call_def load_def)
  show ?thesis
  proof (cases "Option.bind (ss_call_key s) (callm sv2)")
    case None
    then have "close_session now sid f sv = sv2" using Some unfolding close_session_def Let_def sv1_def [symmetric] sv2_def [symmetric]
      by (auto split: option.split)
    then show ?thesis using 2 by simp
  next
    case (Some c)
    then obtain key where "ss_call_key s = Some key" "callm sv2 key = Some c" by (auto simp: bind_eq_Some_conv)
    note f = \<open>sess sv sid = Some s\<close> this
    show ?thesis unfolding close_session_def Let_def sv1_def [symmetric] sv2_def [symmetric] f option.case by (rule 3)
  qed
qed (simp add: close_session_def)

lemma forward_to_load:
  assumes "quiesces ops inn outp"
  shows "load inn (forward_to ops now src p tsid sv) \<le> load inn sv"
proof -
  have "load inn (put_session tsid (s\<lparr>ss_rtc := Some (rt_write_rtp ops ssrc w r)\<rparr>) sv) \<le> load inn sv"
    if "sess sv tsid = Some s" "ss_rtc s = Some r" for s r ssrc w
    using load_put [OF that(1), of inn "s\<lparr>ss_rtc := Some (rt_write_rtp ops ssrc w r)\<rparr>"] quiescesD(3) [OF assms, of ssrc w r] that(2)
    by (simp add: weight_def)
  then show ?thesis by (auto simp: forward_to_def Let_def split: option.split)
qed

lemma forward_load:
  assumes "quiesces ops inn outp"
  shows "load inn (fold (forward_rtp ops now src) ps sv) \<le> load inn sv"
proof -
  have f: "load inn (fold (forward_to ops now src p) ts sv) \<le> load inn sv" for p ts sv
    by (induction ts arbitrary: sv) (auto intro: order_trans forward_to_load [OF assms])
  have "load inn (forward_rtp ops now src p sv) \<le> load inn sv" for p sv
    using f by (simp add: forward_rtp_def Let_def split: option.split)
  then show ?thesis by (induction ps arbitrary: sv) (auto intro: order_trans)
qed

section \<open>The loops end\<close>

text \<open>Draining one session takes packets out of the server or leaves the queue alone.\<close>

lemma drain_session_ends:
  assumes "quiesces ops inn outp"
  shows "\<exists>n sv1. (\<forall>m \<ge> n. drain_session ops m now sid sv = Inr sv1) \<and> (load inn sv1 < load inn sv \<or> light inn sv sv1)"
proof (cases "Option.bind (sess sv sid) ss_rtc")
  case None
  then have "drain_session ops m now sid sv = Inr sv" for m by (auto simp: drain_session_def split: option.split)
  then show ?thesis by (intro exI [of _ 0] exI [of _ sv]) simp
next
  case (Some r)
  then obtain s where s: "sess sv sid = Some s" "ss_rtc s = Some r" by (auto simp: bind_eq_Some_conv)
  obtain ok r0 where h: "rt_handle_input ops (In_timeout now) r = (ok, r0)" by fastforce
  obtain n fs c t r1 where p: "\<And>m acc cl. n \<le> m \<Longrightarrow> poll_loop ops m acc cl r0 = Some (acc @ fs, cl \<or> c, t, r1)" "inn r1 + length fs \<le> inn r0"
    using poll_ends [OF assms, of r0] by metis
  define s1 where "s1 = s\<lparr>ss_rtc := Some r1, ss_next_timeout := (case t of None \<Rightarrow> ss_next_timeout s | Some u \<Rightarrow> Some u)\<rparr>"
  define sv1 where "sv1 = fold (forward_rtp ops now sid) fs (put_session sid s1 sv)"
  define sv2 where "sv2 = (if (\<not> ok \<or> c) \<or> \<not> rt_is_alive ops r1 then close_session now sid None sv1 else sv1)"
  have d: "drain_session ops m now sid sv = Inr sv2" if "n \<le> m" for m
    using s h p(1) [OF that, of "[]" "\<not> ok"] by (simp add: drain_session_def s1_def sv1_def sv2_def Let_def)
  have le: "inn r1 + length fs \<le> inn r" using p(2) quiescesD(2) [OF assms h] by simp
  have w: "weight inn s = inn r" "weight inn s1 = inn r1" using s by (simp_all add: weight_def s1_def)
  have put: "load inn (put_session sid s1 sv) + length fs \<le> load inn sv" using load_put [OF s(1), of inn s1] w le by simp
  have "load inn sv1 + length fs \<le> load inn sv" using forward_load [OF assms, of now sid fs "put_session sid s1 sv"] put by (simp add: sv1_def)
  moreover have "light inn sv1 sv2" using light_close [of inn sv1] by (simp add: sv2_def)
  moreover have "sv_dirty sv1 = sv_dirty sv" if "fs = []" using that by (simp add: sv1_def put_session_def)
  ultimately have "load inn sv2 < load inn sv \<or> light inn sv sv2" by (cases fs) (auto simp: light_def)
  then show ?thesis using d by blast
qed

lemma drain_ready_ends:
  assumes "quiesces ops inn outp"
  shows "\<exists>n k sv1. \<forall>m \<ge> n. \<forall>j \<ge> k. drain_ready ops m j now sv = Inr sv1"
proof (induction sv rule: wf_induct_rule [OF wf_measures [of "[load inn, length \<circ> sv_dirty]"]])
  case (1 sv)
  show ?case
  proof (cases "sv_dirty sv")
    case Nil
    then have "drain_ready ops m j now sv = Inr sv" for m j by (cases j) simp_all
    then show ?thesis by blast
  next
    case (Cons sid rest)
    let ?sv = "sv\<lparr>sv_dirty := rest\<rparr>"
    obtain n1 sv1 where d: "\<And>m. n1 \<le> m \<Longrightarrow> drain_session ops m now sid ?sv = Inr sv1" "load inn sv1 < load inn ?sv \<or> light inn ?sv sv1"
      using drain_session_ends [OF assms, of now sid ?sv] by blast
    have "(sv1, sv) \<in> measures [load inn, length \<circ> sv_dirty]" using d(2) Cons by (auto simp: light_def)
    from 1 [OF this] obtain n k sv2 where i: "\<And>m j. n \<le> m \<Longrightarrow> k \<le> j \<Longrightarrow> drain_ready ops m j now sv1 = Inr sv2" by blast
    have "drain_ready ops m j now sv = Inr sv2" if "max n n1 \<le> m" "Suc k \<le> j" for m j
      using that d(1) i Cons by (cases j) (simp_all add: vbind_def)
    then show ?thesis by blast
  qed
qed

text \<open>A step that needs fuel needs only finitely much of it.\<close>

definition settles :: "(fuel \<Rightarrow> ('r, 'p) vres) \<Rightarrow> bool" where
  "settles f \<longleftrightarrow> (\<exists>n k res. res \<noteq> Inl V_fuel \<and> (\<forall>fu. n \<le> fu_poll fu \<and> k \<le> fu_drain fu \<longrightarrow> f fu = res))"

lemma settles_const: "r \<noteq> Inl V_fuel \<Longrightarrow> settles (\<lambda>_. r)"
  by (auto simp: settles_def)

lemma settles_bind:
  assumes "settles f" "\<And>sv. settles (g sv)"
  shows "settles (\<lambda>fu. vbind (f fu) (\<lambda>sv. g sv fu))"
proof -
  obtain n k res where f: "res \<noteq> Inl V_fuel" "\<And>fu. n \<le> fu_poll fu \<Longrightarrow> k \<le> fu_drain fu \<Longrightarrow> f fu = res"
    using assms(1) by (auto simp: settles_def)
  show ?thesis
  proof (cases res)
    case (Inl e)
    then show ?thesis using f unfolding settles_def by (intro exI [of _ n] exI [of _ k] exI [of _ res]) (simp add: vbind_def)
  next
    case (Inr sv)
    obtain n2 k2 res2 where g: "res2 \<noteq> Inl V_fuel" "\<And>fu. n2 \<le> fu_poll fu \<Longrightarrow> k2 \<le> fu_drain fu \<Longrightarrow> g sv fu = res2"
      using assms(2) [of sv] by (auto simp: settles_def)
    show ?thesis using f g Inr unfolding settles_def
      by (intro exI [of _ "max n n2"] exI [of _ "max k k2"] exI [of _ res2]) (simp add: vbind_def)
  qed
qed

lemma drain_settles: "quiesces ops inn outp \<Longrightarrow> settles (\<lambda>fu. drain_ready ops (fu_poll fu) (fu_drain fu) now sv)"
  using drain_ready_ends [of ops inn outp now sv] unfolding settles_def by blast

lemma time_settles: "quiesces ops inn outp \<Longrightarrow> settles (\<lambda>fu. handle_time ops fu now sv)"
  unfolding handle_time_def Let_def by (rule settles_bind [OF drain_settles]) (auto intro: settles_const)

lemma negotiate_no_fuel: "maybe_negotiate ops now sid sv \<noteq> Inl V_fuel"
  by (simp add: maybe_negotiate_def Let_def split: option.split prod.split)

lemma vbind_no_fuel: "r \<noteq> Inl V_fuel \<Longrightarrow> (\<And>sv. f sv \<noteq> Inl V_fuel) \<Longrightarrow> vbind r f \<noteq> Inl V_fuel"
  by (auto simp: vbind_def split: sum.split)

lemma announce_no_fuel: "announce ops now sid sfu ps sv \<noteq> Inl V_fuel"
  by (induction ops now sid sfu ps sv rule: announce.induct) (simp_all add: Let_def vbind_no_fuel negotiate_no_fuel)

lemma joins_no_fuel:
  "handle_join x ops now sid token sv \<noteq> Inl V_fuel" "handle_offer ops now sid sdp sv \<noteq> Inl V_fuel"
  "handle_answer ops now sid sdp sv \<noteq> Inl V_fuel" "handle_ice ops now sid cand sv \<noteq> Inl V_fuel"
  "handle_packet ops now buf from_addr sv \<noteq> Inl V_fuel"
proof -
  show "handle_ice ops now sid cand sv \<noteq> Inl V_fuel" by (simp add: handle_ice_def Let_def split: option.split)
  show "handle_packet ops now buf from_addr sv \<noteq> Inl V_fuel" by (simp add: handle_packet_def Let_def split: option.split prod.split)
  show "handle_join x ops now sid token sv \<noteq> Inl V_fuel" by (simp add: handle_join_def admit_def announce_no_fuel Let_def split: option.split prod.split)
  show "handle_offer ops now sid sdp sv \<noteq> Inl V_fuel" by (simp add: handle_offer_def negotiate_no_fuel Let_def split: option.split prod.split)
  show "handle_answer ops now sid sdp sv \<noteq> Inl V_fuel" by (simp add: handle_answer_def negotiate_no_fuel Let_def split: option.split prod.split)
qed

lemma frame_settles:
  assumes "quiesces ops inn outp"
  shows "settles (\<lambda>fu. handle_frame x ops fu now sid frame sv)"
proof -
  have "settles (\<lambda>fu. vbind r (drain_ready ops (fu_poll fu) (fu_drain fu) now))" if "r \<noteq> Inl V_fuel" for r
    using settles_bind [OF settles_const [OF that] drain_settles [OF assms]] .
  then show ?thesis unfolding handle_frame_def
    by (cases "sess sv sid"; cases frame) (simp_all add: settles_const joins_no_fuel)
qed

lemma command_settles: "quiesces ops inn outp \<Longrightarrow> settles (\<lambda>fu. handle_command x ops fu now cmd sv)"
  by (cases cmd) (simp_all add: handle_command_def settles_const frame_settles Let_def)

lemma event_settles:
  assumes "quiesces ops inn outp"
  shows "settles (\<lambda>fu. run_event x ops fu now ev sv)"
proof (cases ev)
  case (E_command cmd)
  then show ?thesis using settles_bind [OF command_settles time_settles] assms by (simp add: run_event_def)
next
  case (E_packet buf from_addr)
  then show ?thesis using settles_bind [OF settles_const [OF joins_no_fuel(5)] time_settles [OF assms]] by (simp add: run_event_def)
qed (simp_all add: run_event_def time_settles [OF assms] settles_const)

lemma events_settle: "quiesces ops inn outp \<Longrightarrow> settles (\<lambda>fu. run_events x ops fu evs sv)"
proof (induction evs arbitrary: sv)
  case (Cons e evs)
  show ?case using settles_bind [OF event_settles [OF Cons.prems] Cons.IH [OF Cons.prems]] by (cases e) simp
qed (simp add: settles_const)

text \<open>
  C10: The voice loop never hangs on media. With an engine that quiesces, every sequence of events from
  every state - packets that make sessions forward to one another included - is handled with
  finitely many polls and drained sessions: from some amount of fuel on, the outcome is the same and
  is not a lack of fuel.
\<close>
theorem voice_loop_terminates:
  assumes "quiesces ops inn outp"
  shows "\<exists>n k res. res \<noteq> Inl V_fuel \<and>
    (\<forall>fu. n \<le> fu_poll fu \<and> k \<le> fu_drain fu \<longrightarrow> run_events x ops fu evs sv = res)"
  using events_settle [OF assms] unfolding settles_def .

section \<open>Example\<close>

text \<open>An engine whose state is the packets it still has to hand out; what is written to it is transmitted.\<close>

definition relay_ops :: "(rtp_packet list \<times> nat, unit) rtc_ops" where
  "relay_ops = \<lparr>
     rt_build = (\<lambda>_. ([], 0)), rt_add_local = (\<lambda>_ r. r), rt_datagram = (\<lambda>_. True), rt_accepts = (\<lambda>_ _. True),
     rt_handle_input = (\<lambda>inp r. case inp of In_timeout _ \<Rightarrow> (True, r)
       | In_receive _ b \<Rightarrow> (True, (fst r @ [\<lparr>rp_seq = 0, rp_timestamp = 0, rp_payload = b, rp_marker = False, rp_ext = []\<rparr>], snd r))),
     rt_poll_output = (\<lambda>r. case r of ([], 0) \<Rightarrow> (Out_timeout 1000000, r) | ([], Suc n) \<Rightarrow> (Out_transmit [], ([], n)) | (p # ps, n) \<Rightarrow> (Out_rtp p, (ps, n))),
     rt_is_alive = (\<lambda>_. True),
     rt_parse_offer = (\<lambda>_. True), rt_accept_offer = (\<lambda>_ r. (Some ''answer'', r)), rt_opus_pt = (\<lambda>_. Some 111),
     rt_parse_answer = (\<lambda>_. True), rt_accept_answer = (\<lambda>_ _ r. (True, r)), rt_add_media = (\<lambda>r. (''1'', r)),
     rt_apply = (\<lambda>r. (Some (''offer'', ()), r)), rt_parse_candidate = (\<lambda>_. True), rt_add_remote = (\<lambda>_ r. r),
     rt_stream_by_mid = (\<lambda>_ _. None), rt_declare_tx = (\<lambda>_ _ r. r), rt_has_stream = (\<lambda>_ _. True),
     rt_write_rtp = (\<lambda>ssrc w r. (fst r, Suc (snd r)))\<rparr>"

lemma relay_quiesces: "quiesces relay_ops (\<lambda>r. length (fst r)) snd"
  by (auto simp: quiesces_def poll_shrinks_def relay_ops_def split: list.split nat.split prod.split)

theorem voice_loop_terminates_witness:
  "\<exists>n k res. res \<noteq> Inl V_fuel \<and>
    (\<forall>fu. n \<le> fu_poll fu \<and> k \<le> fu_drain fu \<longrightarrow>
      run_events plain_ext relay_ops fu [(0, E_command (C_OpenSession (ex_token 1) True)), (1, E_timer)] (server_new ex_cfg [] 0) = res)"
  by (rule voice_loop_terminates [OF relay_quiesces])

end
