(* ===== verification/Frames.thy ===== *)
theory Frames
  imports Prelude
begin

text \<open>
  Length-delimited frames on a libp2p stream (\<open>starling_bridge/src/p2p/inner.rs\<close>): the
  functions that read and write one frame, and the reader and writer tasks of a stream.

  A stream is seen by the reader as the list of results of its \<open>read\<close> calls, each a chunk of
  any size; an empty chunk and the end of the list are the end of the stream.
\<close>

section \<open>Definitions\<close>

datatype io_kind = UnexpectedEof | InvalidInput | OtherKind

record io_error =
  ie_kind :: io_kind
  ie_msg :: str

datatype io_read = Got bytes | Failed io_error

definition be_bytes32 :: "nat \<Rightarrow> bytes" where
  "be_bytes32 n = map (\<lambda>i. of_nat (n div 2 ^ (8 * (3 - i)))) [0..<4]"

definition be_nat :: "bytes \<Rightarrow> nat" where
  "be_nat bs = foldl (\<lambda>acc b. acc * 256 + unat b) 0 bs"

text \<open>The two \<open>while accum.len() < n\<close> loops; \<open>msg\<close> is the message at the end of the stream.\<close>

fun fill :: "nat \<Rightarrow> str \<Rightarrow> io_read list \<Rightarrow> bytes \<Rightarrow> (io_error + bytes) \<times> io_read list" where
  "fill n msg [] accum =
     (if n \<le> length accum then (Inr accum, []) else (Inl \<lparr>ie_kind = UnexpectedEof, ie_msg = msg\<rparr>, []))"
| "fill n msg (r # rs) accum =
     (if n \<le> length accum then (Inr accum, r # rs)
      else case r of
             Failed e \<Rightarrow> (Inl e, rs)
           | Got b \<Rightarrow>
               if b = [] then (Inl \<lparr>ie_kind = UnexpectedEof, ie_msg = msg\<rparr>, rs)
               else fill n msg rs (accum @ b))"

definition read_one_frame :: "io_read list \<Rightarrow> bytes \<Rightarrow> (io_error + bytes \<times> bytes) \<times> io_read list" where
  "read_one_frame rs accum =
     (case fill 4 ''eof'' rs accum of
        (Inl e, rs1) \<Rightarrow> (Inl e, rs1)
      | (Inr accum1, rs1) \<Rightarrow>
          let len = be_nat (take 4 accum1)
          in case fill (4 + len) ''eof mid-frame'' rs1 accum1 of
               (Inl e, rs2) \<Rightarrow> (Inl e, rs2)
             | (Inr accum2, rs2) \<Rightarrow> (Inr (take len (drop 4 accum2), drop (4 + len) accum2), rs2))"

datatype read_event = RE_Frame bytes | RE_Closed | RE_Error str

text \<open>The reader task: \<open>alive k\<close> tells whether the \<open>k\<close>-th send finds the receiver.\<close>

definition chunk_bytes :: "io_read list \<Rightarrow> nat" where
  "chunk_bytes rs = sum_list (map (\<lambda>r. case r of Got b \<Rightarrow> length b | Failed _ \<Rightarrow> 0) rs)"

lemma fill_size:
  "fill n msg rs accum = (Inr accum', rs') \<Longrightarrow>
   n \<le> length accum' \<and> length accum' + chunk_bytes rs' = length accum + chunk_bytes rs"
  by (induction n msg rs accum rule: fill.induct)
    (auto simp: chunk_bytes_def split: if_splits io_read.splits)

lemma read_one_frame_size:
  assumes "read_one_frame rs accum = (Inr (frame, accum'), rs')"
  shows "length accum' + chunk_bytes rs' + 4 + length frame = length accum + chunk_bytes rs"
proof -
  obtain a1 r1 where f1: "fill 4 ''eof'' rs accum = (Inr a1, r1)"
    using assms by (auto simp: read_one_frame_def split: prod.splits sum.splits)
  obtain a2 where f2: "fill (4 + be_nat (take 4 a1)) ''eof mid-frame'' r1 a1 = (Inr a2, rs')"
    and fr: "frame = take (be_nat (take 4 a1)) (drop 4 a2)" "accum' = drop (4 + be_nat (take 4 a1)) a2"
    using assms f1 by (auto simp: read_one_frame_def Let_def split: prod.splits sum.splits)
  show ?thesis using fill_size [OF f1] fill_size [OF f2] fr by (auto simp: min_def)
qed

function reader_task :: "(nat \<Rightarrow> bool) \<Rightarrow> nat \<Rightarrow> io_read list \<Rightarrow> bytes \<Rightarrow> read_event list" where
  "reader_task alive k rs accum =
     (case read_one_frame rs accum of
        (Inr (frame, accum'), rs') \<Rightarrow>
          if alive k then RE_Frame frame # reader_task alive (Suc k) rs' accum' else []
      | (Inl e, rs') \<Rightarrow>
          if alive k then [if ie_kind e = UnexpectedEof then RE_Closed else RE_Error (ie_msg e)] else [])"
  by pat_completeness auto

termination
  by (relation "measure (\<lambda>(alive, k, rs, accum). length accum + chunk_bytes rs)")
    (auto dest: read_one_frame_size [OF sym])

text \<open>
  Writing: \<open>ops k\<close> is how the \<open>k\<close>-th operation on the stream fails, if it does, and after how many
  bytes.
\<close>

type_synonym write_ops = "nat \<Rightarrow> (nat \<times> io_error) option"

definition write_one_frame :: "write_ops \<Rightarrow> bytes \<Rightarrow> bytes \<Rightarrow> (io_error + unit) \<times> bytes" where
  "write_one_frame ops data out =
     (if 2 ^ 32 \<le> length data then (Inl \<lparr>ie_kind = InvalidInput, ie_msg = ''frame too large''\<rparr>, out)
      else case ops 0 of
             Some (n, e) \<Rightarrow> (Inl e, out @ take n (be_bytes32 (length data)))
           | None \<Rightarrow>
               (let out1 = out @ be_bytes32 (length data)
                in case ops 1 of
                     Some (n, e) \<Rightarrow> (Inl e, out1 @ take n data)
                   | None \<Rightarrow>
                       (case ops 2 of
                          Some (_, e) \<Rightarrow> (Inl e, out1 @ data)
                        | None \<Rightarrow> (Inr (), out1 @ data))))"

datatype write_cmd = WC_Frame bytes bool | WC_Close

record writer =
  wt_out :: bytes
  wt_running :: bool
  wt_closed :: bool

text \<open>The writer task on one command, with the reply that is sent.\<close>

definition writer_step :: "write_ops \<Rightarrow> write_cmd \<Rightarrow> writer \<Rightarrow> (str + unit) \<times> writer" where
  "writer_step ops cmd w =
     (case cmd of
        WC_Frame data finish \<Rightarrow>
          (case write_one_frame ops data (wt_out w) of
             (Inl e, out) \<Rightarrow> (Inl (ie_msg e), w\<lparr>wt_out := out, wt_running := False\<rparr>)
           | (Inr _, out) \<Rightarrow> (Inr (), w\<lparr>wt_out := out, wt_closed := (wt_closed w \<or> finish)\<rparr>))
      | WC_Close \<Rightarrow> (Inr (), w\<lparr>wt_closed := True, wt_running := False\<rparr>))"

section \<open>What the reader yields\<close>

text \<open>Reference: the complete frames at the start of a byte string.\<close>

function frames_of :: "bytes \<Rightarrow> bytes list" where
  "frames_of bs =
     (if length bs < 4 + be_nat (take 4 bs) then []
      else take (be_nat (take 4 bs)) (drop 4 bs) # frames_of (drop (4 + be_nat (take 4 bs)) bs))"
  by pat_completeness auto

termination
  by (relation "measure length") auto

declare reader_task.simps [simp del] frames_of.simps [simp del]

text \<open>The bytes that arrive before the stream ends or fails, and how it ends.\<close>

fun arriving :: "io_read list \<Rightarrow> bytes" where
  "arriving [] = []"
| "arriving (Got b # rs) = (if b = [] then [] else b @ arriving rs)"
| "arriving (Failed e # rs) = []"

fun ending :: "io_read list \<Rightarrow> read_event" where
  "ending [] = RE_Closed"
| "ending (Got b # rs) = (if b = [] then RE_Closed else ending rs)"
| "ending (Failed e # rs) = (if ie_kind e = UnexpectedEof then RE_Closed else RE_Error (ie_msg e))"

definition stops :: "io_error \<Rightarrow> read_event" where
  "stops e = (if ie_kind e = UnexpectedEof then RE_Closed else RE_Error (ie_msg e))"

lemma fill_spec:
  "if n \<le> length (accum @ arriving rs)
   then \<exists>accum' rs'. fill n msg rs accum = (Inr accum', rs') \<and> n \<le> length accum' \<and>
          accum' @ arriving rs' = accum @ arriving rs \<and> ending rs' = ending rs
   else \<exists>e rs'. fill n msg rs accum = (Inl e, rs') \<and> stops e = ending rs"
proof (induction n msg rs accum rule: fill.induct)
  case (2 n msg r rs accum)
  show ?case
  proof (cases "n \<le> length accum")
    case False
    show ?thesis
    proof (cases r)
      case (Got b)
      then show ?thesis using 2 False by (cases "b = []") (simp add: stops_def, auto)
    next
      case (Failed e)
      then show ?thesis using False by (simp add: stops_def)
    qed
  qed simp
qed (simp add: stops_def)

lemma fill_some:
  assumes "n \<le> length (accum @ arriving rs)"
  obtains accum' rs' where "fill n msg rs accum = (Inr accum', rs')" "n \<le> length accum'"
    "accum' @ arriving rs' = accum @ arriving rs" "ending rs' = ending rs"
  using fill_spec [of n accum rs msg] assms by auto

lemma fill_none:
  assumes "length (accum @ arriving rs) < n"
  obtains e rs' where "fill n msg rs accum = (Inl e, rs')" "stops e = ending rs"
  using fill_spec [of n accum rs msg] assms by auto

lemma read_one_frame_spec:
  fixes rs accum
  defines "bs \<equiv> accum @ arriving rs"
  defines "n \<equiv> be_nat (take 4 bs)"
  shows "if 4 + n \<le> length bs
    then \<exists>accum' rs'. read_one_frame rs accum = (Inr (take n (drop 4 bs), accum'), rs') \<and>
           accum' @ arriving rs' = drop (4 + n) bs \<and> ending rs' = ending rs
    else \<exists>e rs'. read_one_frame rs accum = (Inl e, rs') \<and> stops e = ending rs"
proof (cases "4 \<le> length bs")
  case False
  then obtain e rs' where "fill 4 ''eof'' rs accum = (Inl e, rs')" "stops e = ending rs"
    using fill_none [of accum rs 4] by (auto simp: bs_def not_le)
  then show ?thesis using False by (simp add: read_one_frame_def)
next
  case True
  then obtain a1 r1 where f1: "fill 4 ''eof'' rs accum = (Inr a1, r1)" "4 \<le> length a1" "a1 @ arriving r1 = bs" "ending r1 = ending rs"
    using fill_some [of 4 accum rs] by (auto simp: bs_def)
  have t: "be_nat (take 4 a1) = n" unfolding n_def using f1(2,3) by auto
  show ?thesis
  proof (cases "4 + n \<le> length bs")
    case True
    then obtain a2 r2 where f2: "fill (4 + n) ''eof mid-frame'' r1 a1 = (Inr a2, r2)" "4 + n \<le> length a2" "a2 @ arriving r2 = bs"
      "ending r2 = ending rs"
      using fill_some [of "4 + n" a1 r1] f1(3,4) by auto
    have "take n (drop 4 a2) = take n (drop 4 bs)" "drop (4 + n) a2 @ arriving r2 = drop (4 + n) bs"
      using f2(2) by (simp_all flip: f2(3))
    then show ?thesis using True f1(1) f2(1,4) t by (simp add: read_one_frame_def)
  next
    case False
    then obtain e r2 where "fill (4 + n) ''eof mid-frame'' r1 a1 = (Inl e, r2)" "stops e = ending rs"
      using fill_none [of a1 r1 "4 + n"] f1(3,4) by auto
    then show ?thesis using False f1(1) t by (simp add: read_one_frame_def)
  qed
qed

lemma reader_all: "reader_task (\<lambda>_. True) k rs accum = map RE_Frame (frames_of (accum @ arriving rs)) @ [ending rs]"
proof (induction "length accum + chunk_bytes rs" arbitrary: k rs accum rule: less_induct)
  case less
  let ?bs = "accum @ arriving rs"
  let ?n = "be_nat (take 4 ?bs)"
  show ?case
  proof (cases "4 + ?n \<le> length ?bs")
    case True
    then obtain accum' rs' where r: "read_one_frame rs accum = (Inr (take ?n (drop 4 ?bs), accum'), rs')"
      "accum' @ arriving rs' = drop (4 + ?n) ?bs" "ending rs' = ending rs"
      using read_one_frame_spec [of accum rs] by auto
    have "length accum' + chunk_bytes rs' < length accum + chunk_bytes rs" using read_one_frame_size [OF r(1)] by simp
    from less [OF this, of "Suc k"] show ?thesis
      using True r by (simp add: reader_task.simps [of _ k] frames_of.simps [of ?bs])
  next
    case False
    then obtain e rs' where "read_one_frame rs accum = (Inl e, rs')" "stops e = ending rs"
      using read_one_frame_spec [of accum rs] by auto
    then show ?thesis using False by (simp add: reader_task.simps [of _ k] frames_of.simps [of ?bs] stops_def)
  qed
qed

lemma reader_prefix: "reader_task (\<lambda>i. i < n) k rs accum = take (n - k) (reader_task (\<lambda>_. True) k rs accum)"
proof (induction "length accum + chunk_bytes rs" arbitrary: k rs accum rule: less_induct)
  case less
  obtain r rs' where r: "read_one_frame rs accum = (r, rs')" by fastforce
  show ?case
  proof (cases r)
    case (Inl e)
    then show ?thesis using r by (simp add: reader_task.simps [of _ k] take_Cons split: nat.split)
  next
    case (Inr p)
    obtain frame accum' where p: "p = (frame, accum')" by fastforce
    have "length accum' + chunk_bytes rs' < length accum + chunk_bytes rs" using read_one_frame_size [of rs accum frame accum' rs'] r Inr p by simp
    from less [OF this, of "Suc k"] show ?thesis
      using r Inr p by (auto simp: reader_task.simps [of _ k] take_Cons')
  qed
qed

lemma frames_of_length: "4 * length (frames_of bs) \<le> length bs"
proof (induction bs rule: frames_of.induct)
  case (1 bs)
  then show ?case by (cases "length bs < 4 + be_nat (take 4 bs)") (auto simp: frames_of.simps [of bs])
qed

text \<open>
  C25: How the bytes are cut into chunks does not matter: for every sequence of read results,
  the reader task sends exactly the complete frames of the bytes that arrive, in order, and
  then one event for the end; with a receiver that goes away after \<open>n\<close> events, the first \<open>n\<close>.
\<close>
theorem reader_chunking:
  "reader_task (\<lambda>i. i < n) 0 rs [] = take n (map RE_Frame (frames_of (arriving rs)) @ [ending rs])"
  by (simp add: reader_prefix reader_all)

text \<open>
  The reader loop ends on every finite stream, after at most one event per four bytes and
  one more: the last event is the only one that is not a frame.
\<close>
theorem reader_ends:
  "length (reader_task (\<lambda>_. True) 0 rs []) \<le> length (arriving rs) div 4 + 1 \<and>
   last (reader_task (\<lambda>_. True) 0 rs []) \<in> insert RE_Closed (range RE_Error) \<and>
   (\<exists>fs. butlast (reader_task (\<lambda>_. True) 0 rs []) = map RE_Frame fs)"
proof -
  have "ending rs \<in> insert RE_Closed (range RE_Error)" by (induction rs rule: ending.induct) auto
  moreover have "length (frames_of (arriving rs)) \<le> length (arriving rs) div 4" using frames_of_length [of "arriving rs"] by simp
  ultimately show ?thesis by (auto simp: reader_all)
qed

section \<open>Writing and reading back\<close>

definition frame_bytes :: "bytes \<Rightarrow> bytes" where
  "frame_bytes d = be_bytes32 (length d) @ d"

lemma be_bytes32_length [simp]: "length (be_bytes32 n) = 4"
  by (simp add: be_bytes32_def)

lemma be_nat_bytes32: "n < 2 ^ 32 \<Longrightarrow> be_nat (be_bytes32 n) = n"
proof -
  assume n: "n < 2 ^ 32"
  have b: "be_bytes32 n = [of_nat (n div 2 ^ 24), of_nat (n div 2 ^ 16), of_nat (n div 2 ^ 8), of_nat n]"
    by (simp add: be_bytes32_def upt_rec)
  define p where "p = n div 256"
  define q where "q = p div 256"
  define r where "r = q div 256"
  have d: "n div 2 ^ 24 = r" "n div 2 ^ 16 = q" "n div 2 ^ 8 = p" by (simp_all add: p_def q_def r_def flip: div_mult2_eq)
  have "r < 256" using n d(1) by (simp add: less_mult_imp_div_less flip: d(1))
  then have m: "be_nat (be_bytes32 n) = ((r * 256 + q mod 256) * 256 + p mod 256) * 256 + n mod 256"
    unfolding be_nat_def b d by (simp add: unat_of_nat)
  have "r * 256 + q mod 256 = q" "q * 256 + p mod 256 = p" "p * 256 + n mod 256 = n"
    by (simp_all add: p_def q_def r_def)
  then show ?thesis using m by simp
qed

lemma frames_of_frame: "length d < 2 ^ 32 \<Longrightarrow> frames_of (frame_bytes d @ rest) = d # frames_of rest"
  by (subst frames_of.simps) (simp add: frame_bytes_def be_nat_bytes32)

lemma frames_of_cut: "length d < 2 ^ 32 \<Longrightarrow> m < length (frame_bytes d) \<Longrightarrow> frames_of (take m (frame_bytes d)) = []"
proof -
  assume d: "length d < 2 ^ 32" and m: "m < length (frame_bytes d)"
  have "length (take m (frame_bytes d)) < 4 + be_nat (take 4 (take m (frame_bytes d)))"
  proof (cases "4 \<le> m")
    case True
    then show ?thesis using m d by (simp add: frame_bytes_def be_nat_bytes32)
  qed simp
  then show ?thesis by (simp add: frames_of.simps [of "take m (frame_bytes d)"])
qed

lemma frames_of_prefix:
  "(\<And>d. d \<in> set ds \<Longrightarrow> length d < 2 ^ 32) \<Longrightarrow>
   \<exists>j. frames_of (take m (concat (map frame_bytes ds))) = take j ds \<and> (length (concat (map frame_bytes ds)) \<le> m \<longrightarrow> j = length ds)"
proof (induction ds arbitrary: m)
  case Nil
  show ?case by (simp add: frames_of.simps)
next
  case (Cons d ds)
  show ?case
  proof (cases "length (frame_bytes d) \<le> m")
    case True
    obtain j where j: "frames_of (take (m - length (frame_bytes d)) (concat (map frame_bytes ds))) = take j ds"
      "length (concat (map frame_bytes ds)) \<le> m - length (frame_bytes d) \<longrightarrow> j = length ds"
      using Cons.IH [of "m - length (frame_bytes d)"] Cons.prems by auto
    have "take m (concat (map frame_bytes (d # ds))) = frame_bytes d @ take (m - length (frame_bytes d)) (concat (map frame_bytes ds))"
      using True by simp
    then have "frames_of (take m (concat (map frame_bytes (d # ds)))) = take (Suc j) (d # ds)"
      using frames_of_frame [of d] Cons.prems j(1) by simp
    then show ?thesis using j(2) by (intro exI [of _ "Suc j"]) simp
  next
    case False
    then have "frames_of (take m (concat (map frame_bytes (d # ds)))) = take 0 (d # ds)"
      using frames_of_cut [of d m] Cons.prems by simp
    then show ?thesis using False by (intro exI [of _ 0]) simp
  qed
qed

fun run_writer :: "(write_ops \<times> write_cmd) list \<Rightarrow> writer \<Rightarrow> (str + unit) list \<times> writer" where
  "run_writer [] w = ([], w)"
| "run_writer ((ops, cmd) # cmds) w =
     (let (r, w1) = writer_step ops cmd w; (rs, w2) = run_writer cmds w1 in (r # rs, w2))"

lemma run_writer_frames:
  "(\<And>d. d \<in> set ds \<Longrightarrow> length d < 2 ^ 32) \<Longrightarrow>
   run_writer (map (\<lambda>d. (\<lambda>_. None, WC_Frame d False)) ds) w =
     (replicate (length ds) (Inr ()), w\<lparr>wt_out := wt_out w @ concat (map frame_bytes ds)\<rparr>)"
  by (induction ds arbitrary: w) (auto simp: writer_step_def write_one_frame_def frame_bytes_def Let_def not_le)

text \<open>
  C24: Frames written by the writer task and cut anywhere on the way, in any chunks, reach the
  other side's receiver as a prefix of the frames written: none is altered, reordered, merged
  or truncated, and all of them arrive when all bytes do. Every write is acknowledged.
\<close>
theorem frames_delivered:
  assumes "\<And>d. d \<in> set ds \<Longrightarrow> length d < 2 ^ 32"
    and "run_writer (map (\<lambda>d. (\<lambda>_. None, WC_Frame d False)) ds) \<lparr>wt_out = [], wt_running = True, wt_closed = False\<rparr> = (replies, w)"
    and "arriving rs = take m (wt_out w)"
  shows "replies = replicate (length ds) (Inr ()) \<and>
    (\<exists>j. reader_task (\<lambda>_. True) 0 rs [] = map RE_Frame (take j ds) @ [ending rs] \<and> (length (wt_out w) \<le> m \<longrightarrow> j = length ds))"
proof -
  have w: "replies = replicate (length ds) (Inr ())" "wt_out w = concat (map frame_bytes ds)"
    using assms(2) run_writer_frames [OF assms(1), where w = "\<lparr>wt_out = [], wt_running = True, wt_closed = False\<rparr>"] by auto
  obtain j where "frames_of (take m (concat (map frame_bytes ds))) = take j ds" "length (concat (map frame_bytes ds)) \<le> m \<longrightarrow> j = length ds"
    using frames_of_prefix [OF assms(1)] by blast
  then show ?thesis using w assms(3) by (auto simp: reader_all)
qed

theorem frames_delivered_witness:
  "reader_task (\<lambda>_. True) 0 [Got [0, 0], Got [0, 2, 7], Got [8, 0, 0, 0, 1, 9]] [] = [RE_Frame [7, 8], RE_Frame [9], RE_Closed]"
proof -
  define w where "w = snd (run_writer (map (\<lambda>d. (\<lambda>_. None, WC_Frame d False)) [[7, 8], [9]]) \<lparr>wt_out = [], wt_running = True, wt_closed = False\<rparr>)"
  have w: "run_writer (map (\<lambda>d. (\<lambda>_. None, WC_Frame d False)) [[7, 8], [9]]) \<lparr>wt_out = [], wt_running = True, wt_closed = False\<rparr> =
      ([Inr (), Inr ()], w)" "wt_out w = [0, 0, 0, 2, 7, 8, 0, 0, 0, 1, 9]"
    by (simp_all add: w_def writer_step_def write_one_frame_def be_bytes32_def upt_rec)
  have "arriving [Got [0, 0], Got [0, 2, 7], Got [8, 0, 0, 0, 1, 9]] = take 11 (wt_out w)" using w(2) by simp
  moreover have "length d < 2 ^ 32" if "d \<in> set [[7, 8], [9]]" for d :: bytes using that by auto
  ultimately show ?thesis using frames_delivered [OF _ w(1)] w(2) by fastforce
qed

end
