(* ===== verification/P2p.thy ===== *)
theory P2p
  imports Voice Frames
begin

text \<open>
  The libp2p bridge of the mobile app (\<open>starling_bridge/src/p2p\<close>): the state behind a handle,
  the event loop with its commands and pending dials, the FFI calls on connections and
  streams, and the enumeration of interface addresses.

  The swarm is a parameter: its events are arguments of \<open>handle_swarm_event\<close>, the results of
  dialling and of registering a protocol arguments of \<open>handle_cmd\<close>. A peer id is its base58
  text, a multiaddress the list of its protocols; reply channels are numbered. A call that
  waits for the loop is in two parts, what it sends and what it makes of the answer.
\<close>

section \<open>State\<close>

type_synonym peer = str

datatype proto = P_Ip4 byte byte byte byte | P_Ip6 "u16 list" | P_Udp u16 | P_QuicV1 | P_other str

type_synonym multiaddr = "proto list"

record p2p_ext =
  px_encode :: "multiaddr \<Rightarrow> bytes"
  px_decode :: "bytes \<Rightarrow> str + multiaddr"
  px_peer :: "str \<Rightarrow> str + peer"
  px_protocol :: "str \<Rightarrow> str option"

definition LP_OK :: int where "LP_OK = 0"
definition LP_ERR_NULL :: int where "LP_ERR_NULL = -1"
definition LP_ERR_UTF8 :: int where "LP_ERR_UTF8 = -2"
definition LP_ERR_LISTEN :: int where "LP_ERR_LISTEN = -5"
definition LP_ERR_DIAL_TIMEOUT :: int where "LP_ERR_DIAL_TIMEOUT = -6"
definition LP_ERR_PROTOCOL :: int where "LP_ERR_PROTOCOL = -7"
definition LP_ERR_STREAM_CLOSED :: int where "LP_ERR_STREAM_CLOSED = -8"
definition LP_ERR_BUFFER_TOO_SMALL :: int where "LP_ERR_BUFFER_TOO_SMALL = -9"

lemmas lp_codes = LP_OK_def LP_ERR_NULL_def LP_ERR_UTF8_def LP_ERR_LISTEN_def LP_ERR_DIAL_TIMEOUT_def LP_ERR_PROTOCOL_def
  LP_ERR_STREAM_CLOSED_def LP_ERR_BUFFER_TOO_SMALL_def

text \<open>\<open>sh_queue\<close>: the events the reader task has sent; \<open>sh_reader\<close>: it still runs.\<close>

record stream_handle =
  sh_peer :: peer
  sh_protocol :: str
  sh_queue :: "read_event list"
  sh_reader :: bool
  sh_pending :: "bytes option"
  sh_writer :: writer

datatype cmd =
    DialDirect peer "multiaddr list" nat nat
  | DialTimeout peer
  | AddObservedAddr multiaddr nat
  | RegisterInbound str nat
  | Shutdown

datatype reply = R_dial "str + int" | R_unit "str + unit"

text \<open>
  \<open>in_cmds\<close>: the command channel; \<open>in_rx\<close>: its receiver waits to be taken; \<open>in_running\<close>: the loop
  runs. \<open>in_pending\<close> and \<open>in_listeners\<close> are the loop's locals; \<open>in_watchdogs\<close> the peers of the
  sleeping watchdogs. \<open>in_replies\<close>: what was sent on reply channels; \<open>in_dropped\<close>: channels
  dropped without a reply; \<open>in_next\<close> numbers them. \<open>in_external\<close>: the addresses given to the swarm.
\<close>

record inner =
  in_event_port :: int
  in_cmds :: "cmd list"
  in_rx :: bool
  in_listening :: bool
  in_running :: bool
  in_control :: bool
  in_conns :: "(int \<times> peer) list"
  in_conn_counter :: int
  in_streams :: "(int \<times> stream_handle) list"
  in_stream_counter :: int
  in_handlers :: "str set"
  in_observed :: "multiaddr set"
  in_v6_port :: u16
  in_pending :: "(peer \<times> nat) list"
  in_listeners :: "nat set"
  in_watchdogs :: "peer list"
  in_replies :: "(nat \<times> reply) list"
  in_dropped :: "nat list"
  in_next :: nat
  in_external :: "multiaddr list"
  in_posted :: "(int \<times> bytes) list"

definition inner_new :: inner where
  "inner_new =
     \<lparr>in_event_port = 0, in_cmds = [], in_rx = True, in_listening = False, in_running = False, in_control = False,
      in_conns = [], in_conn_counter = 0, in_streams = [], in_stream_counter = 0, in_handlers = {}, in_observed = {},
      in_v6_port = 0, in_pending = [], in_listeners = {}, in_watchdogs = [], in_replies = [], in_dropped = [], in_next = 0,
      in_external = [], in_posted = []\<rparr>"

text \<open>\<open>start_listen\<close>: \<open>Inl\<close> is the error. The task of \<open>run\<close> is spawned and takes the receiver.\<close>

definition start_listen :: "inner \<Rightarrow> (str + unit) \<times> inner" where
  "start_listen s =
     (if in_listening s then (Inr (), s)
      else if \<not> in_rx s then (Inl ''cmd receiver already taken'', s)
      else (Inr (), s\<lparr>in_rx := False, in_listening := True, in_running := True\<rparr>))"

fun cmd_reply :: "cmd \<Rightarrow> nat list" where
  "cmd_reply (DialDirect _ _ _ r) = [r]"
| "cmd_reply (DialTimeout _) = []"
| "cmd_reply (AddObservedAddr _ r) = [r]"
| "cmd_reply (RegisterInbound _ r) = [r]"
| "cmd_reply Shutdown = []"

definition send_cmd :: "cmd \<Rightarrow> inner \<Rightarrow> (str + unit) \<times> inner" where
  "send_cmd c s =
     (if in_rx s \<or> in_running s then (Inr (), s\<lparr>in_cmds := in_cmds s @ [c]\<rparr>)
      else (Inl ''event loop closed'', s\<lparr>in_dropped := in_dropped s @ cmd_reply c\<rparr>))"

definition allocate_conn_id :: "peer \<Rightarrow> inner \<Rightarrow> int \<times> inner" where
  "allocate_conn_id p s =
     (let i = i64_wrap (in_conn_counter s + 1)
      in (i, s\<lparr>in_conn_counter := i, in_conns := AList.update i p (in_conns s)\<rparr>))"

definition allocate_stream_id :: "stream_handle \<Rightarrow> inner \<Rightarrow> int \<times> inner" where
  "allocate_stream_id h s =
     (let i = i64_wrap (in_stream_counter s + 1)
      in (i, s\<lparr>in_stream_counter := i, in_streams := AList.update i h (in_streams s)\<rparr>))"

definition drop_stream :: "int \<Rightarrow> inner \<Rightarrow> inner" where
  "drop_stream i s = s\<lparr>in_streams := AList.delete i (in_streams s)\<rparr>"

section \<open>Events to Dart\<close>

definition post_event :: "bytes \<Rightarrow> inner \<Rightarrow> inner" where
  "post_event payload s =
     (if in_event_port s = 0 then s else s\<lparr>in_posted := in_posted s @ [(in_event_port s, payload)]\<rparr>)"

definition cbor_map :: "ext \<Rightarrow> (str \<times> cbor) list \<Rightarrow> bytes" where
  "cbor_map x entries = x_into_writer x (CMap (map (\<lambda>(k, v). (CText k, v)) entries))"

definition cbor_peer_connected :: "ext \<Rightarrow> peer \<Rightarrow> bytes" where
  "cbor_peer_connected x p = cbor_map x [(''type'', CText ''peer_connected''), (''peer_id'', CText p)]"

definition cbor_peer_disconnected :: "ext \<Rightarrow> peer \<Rightarrow> bytes" where
  "cbor_peer_disconnected x p = cbor_map x [(''type'', CText ''peer_disconnected''), (''peer_id'', CText p)]"

definition cbor_identify_received :: "ext \<Rightarrow> p2p_ext \<Rightarrow> peer \<Rightarrow> multiaddr \<Rightarrow> multiaddr list \<Rightarrow> bytes" where
  "cbor_identify_received x px p observed listen =
     cbor_map x [(''type'', CText ''identify_received''), (''peer_id'', CText p),
       (''observed_addr'', CBytes (px_encode px observed)), (''listen_addrs'', CArray (map (\<lambda>m. CBytes (px_encode px m)) listen))]"

definition cbor_observed_addr_changed :: "ext \<Rightarrow> p2p_ext \<Rightarrow> multiaddr \<Rightarrow> bytes" where
  "cbor_observed_addr_changed x px a =
     cbor_map x [(''type'', CText ''observed_addr_changed''), (''multiaddr'', CBytes (px_encode px a))]"

definition cbor_inbound_stream :: "ext \<Rightarrow> peer \<Rightarrow> str \<Rightarrow> int \<Rightarrow> bytes" where
  "cbor_inbound_stream x p protocol i =
     cbor_map x [(''type'', CText ''inbound_stream''), (''peer_id'', CText p), (''protocol'', CText protocol), (''stream_id'', CInt i)]"

section \<open>Addresses\<close>

definition is_routable_v4 :: "byte \<Rightarrow> byte \<Rightarrow> byte \<Rightarrow> byte \<Rightarrow> bool" where
  "is_routable_v4 a b c d \<longleftrightarrow> \<not> (is_unspecified (V4 a b c d) \<or> is_loopback (V4 a b c d) \<or> (a = 169 \<and> b = 254))"

definition is_routable_v6 :: "u16 list \<Rightarrow> bool" where
  "is_routable_v6 ss \<longleftrightarrow> \<not> (is_unspecified (V6 ss) \<or> is_loopback (V6 ss) \<or> and (hd ss) 0xffc0 = 0xfe80)"

definition routable :: "multiaddr \<Rightarrow> bool" where
  "routable addr \<longleftrightarrow>
     (case addr of
        P_Ip4 a b c d # _ \<Rightarrow> is_routable_v4 a b c d
      | P_Ip6 ss # _ \<Rightarrow> is_routable_v6 ss
      | _ \<Rightarrow> False)"

definition insert_if_routable :: "multiaddr \<Rightarrow> inner \<Rightarrow> bool \<times> inner" where
  "insert_if_routable addr s =
     (let keep = routable addr in (keep, if keep then s\<lparr>in_observed := insert addr (in_observed s)\<rparr> else s))"

fun bound_udp_port :: "multiaddr \<Rightarrow> u16 option" where
  "bound_udp_port [] = None"
| "bound_udp_port (P_Udp port # _) = Some port"
| "bound_udp_port (_ # ps) = bound_udp_port ps"

definition has_ip6 :: "multiaddr \<Rightarrow> bool" where
  "has_ip6 addr \<longleftrightarrow> (case addr of P_Ip6 _ # _ \<Rightarrow> True | _ \<Rightarrow> False)"

fun decode_addrs :: "p2p_ext \<Rightarrow> cbor list \<Rightarrow> str + multiaddr list" where
  "decode_addrs px [] = Inr []"
| "decode_addrs px (v # vs) =
     (case v of
        CBytes b \<Rightarrow>
          (case px_decode px b of
             Inl e \<Rightarrow> Inl (''bad multiaddr: '' @ e)
           | Inr a \<Rightarrow> (case decode_addrs px vs of Inl e \<Rightarrow> Inl e | Inr rest \<Rightarrow> Inr (a # rest)))
      | _ \<Rightarrow> Inl ''expected cbor bytes element'')"

definition decode_addrs_cbor :: "ext \<Rightarrow> p2p_ext \<Rightarrow> bytes \<Rightarrow> str + multiaddr list" where
  "decode_addrs_cbor x px bs =
     (case x_from_reader x bs of
        None \<Rightarrow> Inl ''cbor parse''
      | Some (CArray vs) \<Rightarrow> decode_addrs px vs
      | Some _ \<Rightarrow> Inl ''expected cbor array of multiaddr bytes'')"

text \<open>The iteration order of a hash set is not specified: \<open>order\<close> is the list it gives.\<close>

definition encode_observed_addrs_cbor :: "ext \<Rightarrow> p2p_ext \<Rightarrow> multiaddr list \<Rightarrow> bytes" where
  "encode_observed_addrs_cbor x px order = x_into_writer x (CArray (map (\<lambda>m. CBytes (px_encode px m)) order))"

section \<open>The event loop\<close>

datatype swarm_event =
    NewListenAddr nat multiaddr
  | ConnectionEstablished peer
  | ConnectionClosed peer
  | OutgoingConnectionError "peer option" str
  | IdentifyReceived peer multiaddr "multiaddr list"
  | ExternalAddrConfirmed multiaddr
  | OtherEvent

definition send_reply :: "nat \<Rightarrow> reply \<Rightarrow> inner \<Rightarrow> inner" where
  "send_reply r v s = s\<lparr>in_replies := in_replies s @ [(r, v)]\<rparr>"

text \<open>\<open>pending_dials.remove(&peer)\<close> with the reply, and \<open>pending_dials.insert\<close>, which drops an older one.\<close>

definition pop_dial :: "peer \<Rightarrow> inner \<Rightarrow> nat option \<times> inner" where
  "pop_dial p s = (map_of (in_pending s) p, s\<lparr>in_pending := AList.delete p (in_pending s)\<rparr>)"

definition push_dial :: "peer \<Rightarrow> nat \<Rightarrow> inner \<Rightarrow> inner" where
  "push_dial p r s =
     s\<lparr>in_pending := AList.update p r (in_pending s),
       in_dropped := (case map_of (in_pending s) p of None \<Rightarrow> in_dropped s | Some old \<Rightarrow> in_dropped s @ [old])\<rparr>"

definition handle_swarm_event :: "ext \<Rightarrow> p2p_ext \<Rightarrow> swarm_event \<Rightarrow> inner \<Rightarrow> inner" where
  "handle_swarm_event x px ev s =
     (case ev of
        NewListenAddr l address \<Rightarrow>
          (let s1 = s\<lparr>in_listeners := insert l (in_listeners s)\<rparr>;
               s2 = (case bound_udp_port address of
                       Some port \<Rightarrow> if has_ip6 address then s1\<lparr>in_v6_port := port\<rparr> else s1
                     | None \<Rightarrow> s1);
               (kept, s3) = insert_if_routable address s2
           in if kept then post_event (cbor_observed_addr_changed x px address) s3 else s3)
      | ConnectionEstablished p \<Rightarrow>
          (let s1 = post_event (cbor_peer_connected x p) s
           in case pop_dial p s1 of
                (None, s2) \<Rightarrow> s2
              | (Some r, s2) \<Rightarrow> (let (i, s3) = allocate_conn_id p s2 in send_reply r (R_dial (Inr i)) s3))
      | ConnectionClosed p \<Rightarrow>
          post_event (cbor_peer_disconnected x p) (s\<lparr>in_conns := filter (\<lambda>(_, q). q \<noteq> p) (in_conns s)\<rparr>)
      | OutgoingConnectionError p_opt err \<Rightarrow>
          (case p_opt of
             None \<Rightarrow> s
           | Some p \<Rightarrow> (case pop_dial p s of (None, s1) \<Rightarrow> s1 | (Some r, s1) \<Rightarrow> send_reply r (R_dial (Inl err)) s1))
      | IdentifyReceived p observed listen \<Rightarrow>
          snd (insert_if_routable observed (post_event (cbor_identify_received x px p observed listen) s))
      | ExternalAddrConfirmed address \<Rightarrow>
          (let (kept, s1) = insert_if_routable address s
           in if kept then post_event (cbor_observed_addr_changed x px address) s1 else s1)
      | OtherEvent \<Rightarrow> s)"

text \<open>\<open>dial\<close> and \<open>accept\<close>: the error of \<open>swarm.dial\<close> and of \<open>control.accept\<close>, if any.\<close>

definition handle_cmd :: "ext \<Rightarrow> p2p_ext \<Rightarrow> str option \<Rightarrow> str option \<Rightarrow> cmd \<Rightarrow> inner \<Rightarrow> inner" where
  "handle_cmd x px dial accept c s =
     (case c of
        DialDirect p addrs timeout r \<Rightarrow>
          (case dial of
             None \<Rightarrow> (let s1 = push_dial p r s in s1\<lparr>in_watchdogs := in_watchdogs s1 @ [p]\<rparr>)
           | Some e \<Rightarrow> send_reply r (R_dial (Inl (''dial: '' @ e))) s)
      | DialTimeout p \<Rightarrow>
          (case pop_dial p s of (None, s1) \<Rightarrow> s1 | (Some r, s1) \<Rightarrow> send_reply r (R_dial (Inl ''dial timed out'')) s1)
      | AddObservedAddr addr r \<Rightarrow>
          (let (kept, s1) = insert_if_routable addr s;
               s2 = (if kept then post_event (cbor_observed_addr_changed x px addr) (s1\<lparr>in_external := in_external s1 @ [addr]\<rparr>) else s1)
           in send_reply r (R_unit (Inr ())) s2)
      | RegisterInbound protocol r \<Rightarrow>
          (case accept of
             None \<Rightarrow> send_reply r (R_unit (Inr ())) (s\<lparr>in_handlers := insert protocol (in_handlers s)\<rparr>)
           | Some e \<Rightarrow> send_reply r (R_unit (Inl (''accept: '' @ e))) s)
      | Shutdown \<Rightarrow> s)"

text \<open>
  The end of \<open>run\<close>, after \<open>Shutdown\<close>, an error or the swarm's end: its locals and the receiver with
  the commands left are dropped.
\<close>

definition loop_stop :: "inner \<Rightarrow> inner" where
  "loop_stop s =
     s\<lparr>in_running := False, in_pending := [], in_cmds := [],
       in_dropped := in_dropped s @ map snd (in_pending s) @ concat (map cmd_reply (in_cmds s))\<rparr>"

text \<open>
  What \<open>run\<close> does before its loop; \<open>built\<close> and \<open>bound\<close> are the errors of building the swarm and of
  its two listeners, if any.
\<close>

definition run_begin :: "str option \<Rightarrow> str option \<Rightarrow> inner \<Rightarrow> inner" where
  "run_begin built bound s =
     (if built \<noteq> None then loop_stop s
      else
        let s1 = s\<lparr>in_control := True\<rparr>
        in if bound \<noteq> None then loop_stop s1 else s1)"

text \<open>The loop takes the next command of the channel.\<close>

definition loop_cmd :: "ext \<Rightarrow> p2p_ext \<Rightarrow> str option \<Rightarrow> str option \<Rightarrow> inner \<Rightarrow> inner" where
  "loop_cmd x px dial accept s =
     (case in_cmds s of
        [] \<Rightarrow> s
      | c # cs \<Rightarrow> if c = Shutdown then loop_stop s else handle_cmd x px dial accept c (s\<lparr>in_cmds := cs\<rparr>))"

text \<open>A watchdog wakes up.\<close>

definition watchdog :: "peer \<Rightarrow> inner \<Rightarrow> inner" where
  "watchdog p s = snd (send_cmd (DialTimeout p) (s\<lparr>in_watchdogs := remove1 p (in_watchdogs s)\<rparr>))"

section \<open>Connections and streams\<close>

definition spawn_stream_io :: "peer \<Rightarrow> str \<Rightarrow> stream_handle" where
  "spawn_stream_io p protocol =
     \<lparr>sh_peer = p, sh_protocol = protocol, sh_queue = [], sh_reader = True, sh_pending = None,
      sh_writer = \<lparr>wt_out = [], wt_running = True, wt_closed = False\<rparr>\<rparr>"

definition accept_stream :: "ext \<Rightarrow> str \<Rightarrow> peer \<Rightarrow> inner \<Rightarrow> inner" where
  "accept_stream x protocol p s =
     (let (i, s1) = allocate_stream_id (spawn_stream_io p protocol) s in post_event (cbor_inbound_stream x p protocol i) s1)"

text \<open>\<open>opened\<close>: the error of \<open>control.open_stream\<close>, if any.\<close>

definition open_outbound_stream :: "p2p_ext \<Rightarrow> str option \<Rightarrow> int \<Rightarrow> str \<Rightarrow> inner \<Rightarrow> (str + int) \<times> inner" where
  "open_outbound_stream px opened conn_id protocol s =
     (case map_of (in_conns s) conn_id of
        None \<Rightarrow> (Inl (''unknown conn_id '' @ show_int conn_id), s)
      | Some p \<Rightarrow>
          (case px_protocol px protocol of
             Some e \<Rightarrow> (Inl (''bad protocol: '' @ e), s)
           | None \<Rightarrow>
               if \<not> in_control s
               then (Inl (''stream control not ready '' @ [CHR 0xE2, CHR 0x80, CHR 0x94] @ '' call lp_listen first''), s)
               else case opened of
                      Some e \<Rightarrow> (Inl (''open_stream: '' @ e), s)
                    | None \<Rightarrow> (let (i, s1) = allocate_stream_id (spawn_stream_io p protocol) s in (Inr i, s1))))"

text \<open>
  \<open>dial_direct\<close>: either it is settled at once, or a command with a reply channel is sent; then
  the reply, its loss or the timeout decides.
\<close>

definition dial_begin :: "peer \<Rightarrow> multiaddr list \<Rightarrow> nat \<Rightarrow> inner \<Rightarrow> ((str + int) + nat) \<times> inner" where
  "dial_begin p addrs timeout s =
     (case List.find (\<lambda>(_, q). q = p) (in_conns s) of
        Some (i, _) \<Rightarrow> (Inl (Inr i), s)
      | None \<Rightarrow>
          (let r = in_next s; s1 = s\<lparr>in_next := Suc r\<rparr>
           in case send_cmd (DialDirect p addrs timeout r) s1 of
                (Inl e, s2) \<Rightarrow> (Inl (Inl e), s2)
              | (Inr _, s2) \<Rightarrow> (Inr r, s2)))"

datatype wait = Replied | Dropped | Timed_out

definition dial_end :: "wait \<Rightarrow> nat \<Rightarrow> inner \<Rightarrow> str + int" where
  "dial_end w r s =
     (case w of
        Replied \<Rightarrow> (case map_of (in_replies s) r of Some (R_dial v) \<Rightarrow> v | _ \<Rightarrow> Inl ''dial reply dropped'')
      | Dropped \<Rightarrow> Inl ''dial reply dropped''
      | Timed_out \<Rightarrow> Inl ''dial timed out'')"

text \<open>The reader task of a stream sends an event; a terminator is its last one.\<close>

definition put_stream :: "int \<Rightarrow> stream_handle \<Rightarrow> inner \<Rightarrow> inner" where
  "put_stream i h s = s\<lparr>in_streams := AList.update i h (in_streams s)\<rparr>"

definition deliver :: "int \<Rightarrow> read_event \<Rightarrow> inner \<Rightarrow> inner" where
  "deliver i ev s =
     (case map_of (in_streams s) i of
        None \<Rightarrow> s
      | Some h \<Rightarrow>
          put_stream i (h\<lparr>sh_queue := sh_queue h @ [ev], sh_reader := (sh_reader h \<and> (\<exists>f. ev = RE_Frame f))\<rparr>) s)"

section \<open>FFI calls\<close>

text \<open>
  A call on a handle that is not null, with the code it returns, the bytes it copies to the
  caller's buffer and the message it leaves for \<open>lp_last_error\<close>, if any.
\<close>

definition lp_listen :: "inner \<Rightarrow> int \<times> str option \<times> inner" where
  "lp_listen s =
     (case start_listen s of
        (Inr _, s1) \<Rightarrow> (LP_OK, None, s1)
      | (Inl e, s1) \<Rightarrow> (LP_ERR_LISTEN, Some (''listen: '' @ e), s1))"

definition lp_observed_addrs :: "ext \<Rightarrow> p2p_ext \<Rightarrow> multiaddr list \<Rightarrow> nat \<Rightarrow> int \<times> bytes" where
  "lp_observed_addrs x px order buf_len =
     (let bs = encode_observed_addrs_cbor x px order
      in if buf_len < length bs then (LP_ERR_BUFFER_TOO_SMALL, []) else (int (length bs), bs))"

definition lp_dial_direct ::
  "ext \<Rightarrow> p2p_ext \<Rightarrow> str option option \<Rightarrow> bytes option \<Rightarrow> nat \<Rightarrow> inner \<Rightarrow> (int \<times> str option + nat) \<times> inner" where
  "lp_dial_direct x px peer_id addrs timeout s =
     (case (peer_id, addrs) of
        (Some text, Some bs) \<Rightarrow>
          (case text of
             None \<Rightarrow> (Inl (LP_ERR_UTF8, Some ''peer_id not UTF-8''), s)
           | Some t \<Rightarrow>
               (case px_peer px t of
                  Inl e \<Rightarrow> (Inl (LP_ERR_PROTOCOL, Some (''bad peer id: '' @ e)), s)
                | Inr p \<Rightarrow>
                    (case decode_addrs_cbor x px bs of
                       Inl e \<Rightarrow> (Inl (LP_ERR_PROTOCOL, Some e), s)
                     | Inr as \<Rightarrow>
                         (case dial_begin p as timeout s of
                            (Inl (Inr i), s1) \<Rightarrow> (Inl (i, None), s1)
                          | (Inl (Inl e), s1) \<Rightarrow> (Inl (LP_ERR_DIAL_TIMEOUT, Some e), s1)
                          | (Inr r, s1) \<Rightarrow> (Inr r, s1)))))
      | _ \<Rightarrow> (Inl (LP_ERR_NULL, None), s))"

definition lp_dial_return :: "wait \<Rightarrow> nat \<Rightarrow> inner \<Rightarrow> int \<times> str option" where
  "lp_dial_return w r s =
     (case dial_end w r s of Inr i \<Rightarrow> (i, None) | Inl e \<Rightarrow> (LP_ERR_DIAL_TIMEOUT, Some e))"

definition lp_open_stream ::
  "p2p_ext \<Rightarrow> str option \<Rightarrow> int \<Rightarrow> str option option \<Rightarrow> inner \<Rightarrow> int \<times> str option \<times> inner" where
  "lp_open_stream px opened conn_id protocol s =
     (case protocol of
        None \<Rightarrow> (LP_ERR_NULL, None, s)
      | Some None \<Rightarrow> (LP_ERR_UTF8, Some ''protocol not UTF-8'', s)
      | Some (Some t) \<Rightarrow>
          (case open_outbound_stream px opened conn_id t s of
             (Inr i, s1) \<Rightarrow> (i, None, s1)
           | (Inl e, s1) \<Rightarrow> (LP_ERR_PROTOCOL, Some e, s1)))"

text \<open>\<open>block_on_cmd\<close> for a command that is answered with a unit result.\<close>

definition cmd_begin :: "(nat \<Rightarrow> cmd) \<Rightarrow> inner \<Rightarrow> (str + nat) \<times> inner" where
  "cmd_begin mk s =
     (let r = in_next s
      in case send_cmd (mk r) (s\<lparr>in_next := Suc r\<rparr>) of (Inl e, s1) \<Rightarrow> (Inl e, s1) | (Inr _, s1) \<Rightarrow> (Inr r, s1))"

definition cmd_end :: "wait \<Rightarrow> nat \<Rightarrow> inner \<Rightarrow> int \<times> str option" where
  "cmd_end w r s =
     (case w of
        Replied \<Rightarrow>
          (case map_of (in_replies s) r of
             Some (R_unit (Inr _)) \<Rightarrow> (LP_OK, None)
           | Some (R_unit (Inl e)) \<Rightarrow> (LP_ERR_PROTOCOL, Some e)
           | _ \<Rightarrow> (LP_ERR_PROTOCOL, Some ''event loop dropped reply channel''))
      | Dropped \<Rightarrow> (LP_ERR_PROTOCOL, Some ''event loop dropped reply channel'')
      | Timed_out \<Rightarrow> (LP_ERR_PROTOCOL, Some ''timeout waiting on event loop''))"

definition lp_add_observed_addr :: "p2p_ext \<Rightarrow> bytes option \<Rightarrow> inner \<Rightarrow> (int \<times> str option + nat) \<times> inner" where
  "lp_add_observed_addr px addr s =
     (case addr of
        None \<Rightarrow> (Inl (LP_ERR_NULL, None), s)
      | Some bs \<Rightarrow>
          (case px_decode px bs of
             Inl e \<Rightarrow> (Inl (LP_ERR_PROTOCOL, Some (''bad multiaddr: '' @ e)), s)
           | Inr a \<Rightarrow>
               (case cmd_begin (AddObservedAddr a) s of
                  (Inl e, s1) \<Rightarrow> (Inl (LP_ERR_PROTOCOL, Some e), s1)
                | (Inr r, s1) \<Rightarrow> (Inr r, s1))))"

definition lp_register_inbound_handler ::
  "p2p_ext \<Rightarrow> str option option \<Rightarrow> inner \<Rightarrow> (int \<times> str option + nat) \<times> inner" where
  "lp_register_inbound_handler px protocol s =
     (case protocol of
        None \<Rightarrow> (Inl (LP_ERR_NULL, None), s)
      | Some None \<Rightarrow> (Inl (LP_ERR_UTF8, None), s)
      | Some (Some t) \<Rightarrow>
          (case px_protocol px t of
             Some e \<Rightarrow> (Inl (LP_ERR_PROTOCOL, Some (''bad protocol: '' @ e)), s)
           | None \<Rightarrow>
               (case cmd_begin (RegisterInbound t) s of
                  (Inl e, s1) \<Rightarrow> (Inl (LP_ERR_PROTOCOL, Some e), s1)
                | (Inr r, s1) \<Rightarrow> (Inr r, s1))))"

definition lp_set_event_port :: "int \<Rightarrow> inner \<Rightarrow> int \<times> inner" where
  "lp_set_event_port port s = (LP_OK, s\<lparr>in_event_port := port\<rparr>)"

definition lp_stream_write ::
  "write_ops \<Rightarrow> wait \<Rightarrow> int \<Rightarrow> bytes option \<Rightarrow> nat \<Rightarrow> bool \<Rightarrow> inner \<Rightarrow> int \<times> str option \<times> inner" where
  "lp_stream_write ops w stream_id data len finish s =
     (if data = None \<and> len \<noteq> 0 then (LP_ERR_NULL, None, s)
      else case map_of (in_streams s) stream_id of
             None \<Rightarrow> (LP_ERR_STREAM_CLOSED, Some ''unknown stream id'', s)
           | Some h \<Rightarrow>
               if \<not> wt_running (sh_writer h) then (LP_ERR_STREAM_CLOSED, Some ''stream writer task gone'', s)
               else
                 let (r, wr) = writer_step ops (WC_Frame (case data of None \<Rightarrow> [] | Some d \<Rightarrow> take len d) finish) (sh_writer h);
                     s1 = put_stream stream_id (h\<lparr>sh_writer := wr\<rparr>) s
                 in case w of
                      Replied \<Rightarrow>
                        (case r of Inr _ \<Rightarrow> (LP_OK, None, s1) | Inl e \<Rightarrow> (LP_ERR_STREAM_CLOSED, Some e, s1))
                    | Dropped \<Rightarrow> (LP_ERR_STREAM_CLOSED, Some ''write reply dropped'', s1)
                    | Timed_out \<Rightarrow> (LP_ERR_DIAL_TIMEOUT, Some ''write timeout'', s1))"

definition too_large :: "nat \<Rightarrow> nat \<Rightarrow> str" where
  "too_large n buf_len = ''frame too large for buffer ('' @ show_nat n @ '' > '' @ show_nat buf_len @ '')''"

definition read_stream :: "nat \<Rightarrow> stream_handle \<Rightarrow> int \<times> bytes \<times> str option \<times> stream_handle" where
  "read_stream buf_len h =
     (case sh_pending h of
        Some b \<Rightarrow>
          if buf_len < length b then (LP_ERR_BUFFER_TOO_SMALL, [], Some (too_large (length b) buf_len), h)
          else (int (length b), b, None, h\<lparr>sh_pending := None\<rparr>)
      | None \<Rightarrow>
          (case sh_queue h of
             [] \<Rightarrow>
               if sh_reader h then (LP_ERR_DIAL_TIMEOUT, [], Some ''read timeout'', h)
               else (LP_ERR_STREAM_CLOSED, [], Some ''stream closed'', h)
           | ev # q \<Rightarrow>
               (let h1 = h\<lparr>sh_queue := q\<rparr>
                in case ev of
                     RE_Frame b \<Rightarrow>
                       if buf_len < length b
                       then (LP_ERR_BUFFER_TOO_SMALL, [], Some (too_large (length b) buf_len), h1\<lparr>sh_pending := Some b\<rparr>)
                       else (int (length b), b, None, h1)
                   | RE_Closed \<Rightarrow> (LP_ERR_STREAM_CLOSED, [], Some ''stream closed'', h1)
                   | RE_Error e \<Rightarrow> (LP_ERR_STREAM_CLOSED, [], Some e, h1))))"

definition lp_stream_read :: "int \<Rightarrow> nat \<Rightarrow> inner \<Rightarrow> int \<times> bytes \<times> str option \<times> inner" where
  "lp_stream_read stream_id buf_len s =
     (case map_of (in_streams s) stream_id of
        None \<Rightarrow> (LP_ERR_STREAM_CLOSED, [], Some ''unknown stream id'', s)
      | Some h \<Rightarrow>
          (case read_stream buf_len h of (code, bs, err, h1) \<Rightarrow> (code, bs, err, put_stream stream_id h1 s)))"

definition lp_stream_close :: "int \<Rightarrow> inner \<Rightarrow> int \<times> inner" where
  "lp_stream_close stream_id s =
     (case map_of (in_streams s) stream_id of
        None \<Rightarrow> (LP_OK, s)
      | Some h \<Rightarrow>
          (let s1 = (if wt_running (sh_writer h)
                     then put_stream stream_id (h\<lparr>sh_writer := snd (writer_step (\<lambda>_. None) WC_Close (sh_writer h))\<rparr>) s
                     else s)
           in (LP_OK, drop_stream stream_id s1)))"

text \<open>\<open>Inner::shutdown\<close>: the task is aborted if it was started.\<close>

definition inner_shutdown :: "inner \<Rightarrow> inner" where
  "inner_shutdown s = (let s1 = snd (send_cmd Shutdown s) in if in_running s1 then loop_stop s1 else s1)"

section \<open>Handles\<close>

text \<open>
  The handles of the process, by address, and \<open>HANDLE_SLOT\<close>. \<open>built\<close> is the result of
  \<open>Inner::new\<close>; \<open>addr\<close> the address of the new box. Freeing an address that holds no handle is
  \<open>None\<close>: the behaviour is undefined.
\<close>

record bridge =
  bg_handles :: "(nat \<times> inner) list"
  bg_slot :: "nat option"

definition lp_init ::
  "(str + inner) \<Rightarrow> nat \<Rightarrow> str option option \<Rightarrow> bytes option \<Rightarrow> nat \<Rightarrow> bridge \<Rightarrow> (str + nat) \<times> bridge" where
  "lp_init built addr data_dir seed seed_len b =
     (if data_dir = None \<or> seed = None then (Inl ''data_dir or seed pointer was null'', b)
      else if seed_len \<noteq> 32 then (Inl (''expected 32-byte Ed25519 seed, got '' @ show_nat seed_len), b)
      else if data_dir = Some None then (Inl ''data_dir not UTF-8'', b)
      else case built of
             Inl e \<Rightarrow> (Inl (''inner: '' @ e), b)
           | Inr s \<Rightarrow> (Inr addr, b\<lparr>bg_handles := AList.update addr s (bg_handles b), bg_slot := Some addr\<rparr>))"

definition lp_shutdown :: "nat option \<Rightarrow> bridge \<Rightarrow> (int \<times> bridge) option" where
  "lp_shutdown handle b =
     (case handle of
        None \<Rightarrow> Some (LP_ERR_NULL, b)
      | Some a \<Rightarrow>
          if map_of (bg_handles b) a = None then None
          else Some (LP_OK, b\<lparr>bg_handles := AList.delete a (bg_handles b), bg_slot := None\<rparr>))"

section \<open>Interface addresses\<close>

datatype if_event = If_Up ip_addr | If_Down ip_addr | If_Error | If_End

datatype wake = Event if_event | Tick

definition v6_addr :: "u16 list \<Rightarrow> u16 \<Rightarrow> multiaddr" where
  "v6_addr ip port = [P_Ip6 ip, P_Udp port, P_QuicV1]"

definition announce_if_routable :: "ip_addr \<Rightarrow> u16 \<Rightarrow> inner \<Rightarrow> inner" where
  "announce_if_routable net port s =
     (case net of V4 _ _ _ _ \<Rightarrow> s | V6 ip \<Rightarrow> snd (insert_if_routable (v6_addr ip port) s))"

definition forget_addr :: "ip_addr \<Rightarrow> u16 \<Rightarrow> inner \<Rightarrow> inner" where
  "forget_addr net port s =
     (case net of V4 _ _ _ _ \<Rightarrow> s | V6 ip \<Rightarrow> s\<lparr>in_observed := in_observed s - {v6_addr ip port}\<rparr>)"

text \<open>\<open>en_port\<close> is what the turn of the loop has loaded; the next turn loads it anew.\<close>

record enumerator =
  en_port :: u16
  en_buffered :: "ip_addr list"
  en_running :: bool

definition enum_new :: "inner \<Rightarrow> enumerator" where
  "enum_new s = \<lparr>en_port = in_v6_port s, en_buffered = [], en_running = True\<rparr>"

definition enum_turn :: "wake \<Rightarrow> enumerator \<Rightarrow> inner \<Rightarrow> enumerator \<times> inner" where
  "enum_turn w en s =
     (case w of
        Event (If_Up net) \<Rightarrow>
          if en_port en = 0 then (en\<lparr>en_buffered := en_buffered en @ [net]\<rparr>, s)
          else (en, announce_if_routable net (en_port en) s)
      | Event (If_Down net) \<Rightarrow> if en_port en = 0 then (en, s) else (en, forget_addr net (en_port en) s)
      | Event If_Error \<Rightarrow> (en, s)
      | Event If_End \<Rightarrow> (en\<lparr>en_running := False\<rparr>, s)
      | Tick \<Rightarrow>
          if en_port en = 0 \<and> in_v6_port s \<noteq> 0
          then (en\<lparr>en_buffered := []\<rparr>, fold (\<lambda>net. announce_if_routable net (in_v6_port s)) (en_buffered en) s)
          else (en, s))"

definition enum_step :: "wake \<Rightarrow> enumerator \<Rightarrow> inner \<Rightarrow> enumerator \<times> inner" where
  "enum_step w en s =
     (if \<not> en_running en then (en, s)
      else case enum_turn w en s of (en1, s1) \<Rightarrow> (en1\<lparr>en_port := in_v6_port s1\<rparr>, s1))"

end
