(* ===== verification/P2pProps.thy ===== *)
theory P2pProps
  imports P2p "HOL-Library.Multiset"
begin

text \<open>
  Proofs about the libp2p bridge: reads lose and repeat no frame, the invariant of the state
  behind a handle (ids, routable addresses, reply channels), a stale watchdog, addresses that
  are never announced.
\<close>

section \<open>Reads lose nothing\<close>

definition frames_in :: "read_event list \<Rightarrow> bytes list" where
  "frames_in q = concat (map (\<lambda>ev. case ev of RE_Frame b \<Rightarrow> [b] | _ \<Rightarrow> []) q)"

text \<open>What the caller has still to get: the stashed frame, then the frames of the queue.\<close>

definition content :: "stream_handle \<Rightarrow> bytes list" where
  "content h = (case sh_pending h of None \<Rightarrow> [] | Some b \<Rightarrow> [b]) @ frames_in (sh_queue h)"

lemma frames_in_simps [simp]:
  "frames_in [] = []" "frames_in (RE_Frame b # q) = b # frames_in q" "frames_in (RE_Closed # q) = frames_in q"
  "frames_in (RE_Error e # q) = frames_in q" "frames_in (p @ q) = frames_in p @ frames_in q"
  by (simp_all add: frames_in_def)

lemma frames_in_map [simp]: "frames_in (map RE_Frame fs) = fs"
  by (induction fs) simp_all

lemma read_stream_content:
  assumes "read_stream n h = (code, bs, err, h')"
  shows "(0 \<le> code \<and> code = int (length bs) \<and> content h = bs # content h') \<or> (code < 0 \<and> bs = [] \<and> content h' = content h)"
    and "sh_reader h' = sh_reader h"
  using assms
  by (auto simp: read_stream_def content_def lp_codes Let_def split: option.splits list.splits read_event.splits if_splits)

text \<open>A buffer as large as the next frame gets it.\<close>

lemma read_stream_gets:
  assumes "content h = b # bs" "length b \<le> n" "sh_pending h \<noteq> None \<or> (\<exists>q. sh_queue h = RE_Frame b # q)"
  shows "\<exists>h'. read_stream n h = (int (length b), b, None, h') \<and> content h' = bs"
  using assms by (auto simp: read_stream_def content_def Let_def split: option.splits)

datatype stream_op = Arrives read_event | Reads nat

fun stream_run :: "int \<Rightarrow> stream_op list \<Rightarrow> inner \<Rightarrow> bytes list \<times> inner" where
  "stream_run i [] s = ([], s)"
| "stream_run i (Arrives ev # ops) s = stream_run i ops (deliver i ev s)"
| "stream_run i (Reads n # ops) s =
     (let (code, bs, err, s1) = lp_stream_read i n s; (ds, s2) = stream_run i ops s1
      in (if 0 \<le> code then bs # ds else ds, s2))"

fun arrivals :: "stream_op list \<Rightarrow> read_event list" where
  "arrivals [] = []"
| "arrivals (Arrives ev # ops) = ev # arrivals ops"
| "arrivals (Reads n # ops) = arrivals ops"

lemma put_stream_get: "map_of (in_streams (put_stream i h s)) = (map_of (in_streams s))(i \<mapsto> h)"
  by (simp add: put_stream_def update_conv')

lemma stream_run_content:
  assumes "map_of (in_streams s) i = Some h" "stream_run i ops s = (ds, s')"
  shows "\<exists>h'. map_of (in_streams s') i = Some h' \<and> ds @ content h' = content h @ frames_in (arrivals ops)"
  using assms
proof (induction i ops s arbitrary: h ds s' rule: stream_run.induct)
  case (2 i ev ops s)
  let ?h = "h\<lparr>sh_queue := sh_queue h @ [ev], sh_reader := (sh_reader h \<and> (\<exists>f. ev = RE_Frame f))\<rparr>"
  have "map_of (in_streams (deliver i ev s)) i = Some ?h" using 2(2) by (simp add: deliver_def put_stream_get)
  moreover have "content ?h = content h @ frames_in [ev]" by (simp add: content_def)
  ultimately show ?case using 2(1) [of ?h ds s'] 2(3) by (cases ev) auto
next
  case (3 i n ops s)
  obtain code bs err h1 where r: "read_stream n h = (code, bs, err, h1)" by (metis prod_cases4)
  have l: "lp_stream_read i n s = (code, bs, err, put_stream i h1 s)" using 3(2) r by (simp add: lp_stream_read_def)
  obtain ds1 where d: "stream_run i ops (put_stream i h1 s) = (ds1, s')" "ds = (if 0 \<le> code then bs # ds1 else ds1)"
    using 3(3) l by (auto split: prod.splits)
  have "\<exists>h'. map_of (in_streams s') i = Some h' \<and> ds1 @ content h' = content h1 @ frames_in (arrivals ops)"
    by (rule 3(1) [OF l [symmetric] refl refl refl _ d(1)]) (simp add: put_stream_get)
  then show ?case using read_stream_content(1) [OF r] d(2) by auto
qed simp

text \<open>Reading on with large buffers empties the stream.\<close>

definition only_frames :: "stream_handle \<Rightarrow> bool" where
  "only_frames h \<longleftrightarrow> (\<exists>fs t. sh_queue h = map RE_Frame fs @ t \<and> frames_in t = [])"

lemma only_frames_drop:
  assumes "sh_queue h = drop j (take k (map RE_Frame fs @ [e]))" "frames_in [e] = []"
  shows "only_frames h"
proof -
  have "sh_queue h = map RE_Frame (drop j (take k fs)) @ drop (j - length (take k fs)) (take (k - length fs) [e])"
    using assms(1) by (simp add: take_map drop_map)
  moreover have "frames_in (drop a (take b [e])) = []" for a b using assms(2) by (cases a; cases b) simp_all
  ultimately show ?thesis unfolding only_frames_def by blast
qed

lemma read_stream_queue: "read_stream n h = (code, bs, err, h') \<Longrightarrow> \<exists>pre. sh_queue h = pre @ sh_queue h'"
  by (auto simp: read_stream_def Let_def split: option.splits list.splits read_event.splits if_splits)

lemma stream_run_queue:
  assumes "map_of (in_streams s) i = Some h" "stream_run i ops s = (ds, s')" "map_of (in_streams s') i = Some h'"
  shows "\<exists>pre. sh_queue h @ arrivals ops = pre @ sh_queue h'"
  using assms
proof (induction i ops s arbitrary: h ds rule: stream_run.induct)
  case (2 i ev ops s)
  let ?h = "h\<lparr>sh_queue := sh_queue h @ [ev], sh_reader := (sh_reader h \<and> (\<exists>f. ev = RE_Frame f))\<rparr>"
  have "map_of (in_streams (deliver i ev s)) i = Some ?h" using 2(2) by (simp add: deliver_def put_stream_get)
  then show ?case using 2(1) [of ?h ds] 2(3,4) by simp
next
  case (3 i n ops s)
  obtain code bs err h1 where r: "read_stream n h = (code, bs, err, h1)" by (metis prod_cases4)
  have l: "lp_stream_read i n s = (code, bs, err, put_stream i h1 s)" using 3(2) r by (simp add: lp_stream_read_def)
  obtain ds1 where d: "stream_run i ops (put_stream i h1 s) = (ds1, s')"
    using 3(3) l by (auto split: prod.splits)
  have "\<exists>pre. sh_queue h1 @ arrivals ops = pre @ sh_queue h'"
    by (rule 3(1) [OF l [symmetric] refl refl refl _ d 3(4)]) (simp add: put_stream_get)
  then show ?case using read_stream_queue [OF r] by (metis append_assoc arrivals.simps(3))
qed simp

lemma drain_reads:
  assumes "map_of (in_streams s) i = Some h" "only_frames h" "length (content h) \<le> m" "\<forall>b \<in> set (content h). length b \<le> n"
    "stream_run i (replicate m (Reads n)) s = (ds, s')"
  shows "ds = content h"
  using assms
proof (induction m arbitrary: s h ds)
  case 0
  then show ?case by simp
next
  case (Suc m)
  show ?case
  proof (cases "content h")
    case Nil
    obtain h' where "ds @ content h' = content h @ frames_in (arrivals (replicate (Suc m) (Reads n)))"
      using stream_run_content [OF Suc.prems(1,5)] by blast
    moreover have "arrivals (replicate k (Reads n)) = []" for k by (induction k) simp_all
    ultimately show ?thesis using Nil by simp
  next
    case (Cons b bs)
    from Suc.prems(2) obtain fs t where q: "sh_queue h = map RE_Frame fs @ t" "frames_in t = []" by (auto simp: only_frames_def)
    have "sh_pending h \<noteq> None \<or> (\<exists>q. sh_queue h = RE_Frame b # q)" using Cons q by (cases fs) (auto simp: content_def split: option.splits)
    then obtain h1 where r: "read_stream n h = (int (length b), b, None, h1)" "content h1 = bs"
      using read_stream_gets [OF Cons, of n] Suc.prems(4) Cons by auto
    have o: "only_frames h1"
    proof (cases "sh_pending h")
      case None
      then have "fs \<noteq> []" using Cons q by (auto simp: content_def)
      then obtain f fs' where f: "fs = f # fs'" by (cases fs) auto
      then have "sh_queue h1 = map RE_Frame fs' @ t" using r(1) None q by (auto simp: read_stream_def Let_def split: if_splits)
      then show ?thesis using q(2) by (auto simp: only_frames_def)
    next
      case (Some p)
      then have "sh_queue h1 = sh_queue h" using r(1) by (auto simp: read_stream_def split: if_splits)
      then show ?thesis using Suc.prems(2) by (simp add: only_frames_def)
    qed
    obtain ds1 where d: "stream_run i (replicate m (Reads n)) (put_stream i h1 s) = (ds1, s')" "ds = b # ds1"
      using Suc.prems(1,5) r(1) by (auto simp: lp_stream_read_def split: prod.splits)
    have "ds1 = content h1"
      by (rule Suc.IH [OF _ o _ _ d(1)]) (use Suc.prems(3,4) Cons r(2) in \<open>simp_all add: put_stream_get\<close>)
    then show ?thesis using d(2) r(2) Cons by simp
  qed
qed

lemma stream_run_append:
  "stream_run i (ops1 @ ops2) s = (case stream_run i ops1 s of (d1, s1) \<Rightarrow> case stream_run i ops2 s1 of (d2, s2) \<Rightarrow> (d1 @ d2, s2))"
  by (induction i ops1 s rule: stream_run.induct) (auto split: prod.splits)

lemma arrivals_append: "arrivals (a @ b) = arrivals a @ arrivals b"
  by (induction a rule: arrivals.induct) simp_all


section \<open>The invariant\<close>

text \<open>Where the reply channels are: in a command, with a pending dial, answered, or dropped.\<close>

definition channels :: "inner \<Rightarrow> nat list" where
  "channels s = concat (map cmd_reply (in_cmds s)) @ map snd (in_pending s) @ map fst (in_replies s) @ in_dropped s"

definition ids_ok :: "nat \<Rightarrow> int \<Rightarrow> (int \<times> 'a) list \<Rightarrow> bool" where
  "ids_ok n counter xs \<longleftrightarrow>
     0 \<le> counter \<and> counter \<le> int n \<and> distinct (map fst xs) \<and> (\<forall>i \<in> fst ` set xs. 1 \<le> i \<and> i \<le> counter)"

definition p2p_inv :: "nat \<Rightarrow> inner \<Rightarrow> bool" where
  "p2p_inv n s \<longleftrightarrow>
     ids_ok n (in_conn_counter s) (in_conns s) \<and> ids_ok n (in_stream_counter s) (in_streams s) \<and>
     (\<forall>a \<in> in_observed s. routable a) \<and> (\<forall>a \<in> set (in_external s). routable a) \<and>
     distinct (map fst (in_pending s)) \<and> mset (channels s) = mset [0..<in_next s]"

lemma ids_ok_mono: "ids_ok n c xs \<Longrightarrow> n \<le> m \<Longrightarrow> ids_ok m c xs"
  by (auto simp: ids_ok_def)

lemma ids_ok_filter: "ids_ok n c xs \<Longrightarrow> ids_ok n c (filter P xs)"
  by (auto simp: ids_ok_def distinct_map_filter)

lemma ids_ok_delete: "ids_ok n c xs \<Longrightarrow> ids_ok n c (AList.delete i xs)"
  by (auto simp: ids_ok_def AList.delete_eq distinct_map_filter)

lemma update_keys: "fst ` set (AList.update i v xs) = insert i (fst ` set xs)"
  by (simp add: dom_update flip: dom_map_of_conv_image_fst) (simp add: update_conv' dom_map_of_conv_image_fst)

lemma ids_ok_update: "ids_ok n c xs \<Longrightarrow> i \<in> fst ` set xs \<Longrightarrow> ids_ok n c (AList.update i v xs)"
  by (auto simp: ids_ok_def update_keys distinct_update)

lemma ids_ok_alloc:
  assumes "ids_ok n c xs" "int n < 2 ^ 63 - 1"
  shows "ids_ok (Suc n) (i64_wrap (c + 1)) (AList.update (i64_wrap (c + 1)) v xs)" "i64_wrap (c + 1) = c + 1"
proof -
  show w: "i64_wrap (c + 1) = c + 1" using assms by (simp add: ids_ok_def i64_wrap_def)
  show "ids_ok (Suc n) (i64_wrap (c + 1)) (AList.update (i64_wrap (c + 1)) v xs)"
    unfolding w using assms(1) by (fastforce simp: ids_ok_def update_keys distinct_update)
qed

lemma mset_pop:
  assumes "distinct (map fst xs)"
  shows "mset (map snd xs) = mset (map snd (AList.delete p xs)) + (case map_of xs p of None \<Rightarrow> {#} | Some r \<Rightarrow> {#r#})"
  using assms
proof (induction xs)
  case (Cons y ys)
  obtain q r where y: "y = (q, r)" by (cases y)
  show ?case
  proof (cases "q = p")
    case True
    then have "map_of ys p = None" "AList.delete p ys = ys"
      using Cons.prems y by (force simp: map_of_eq_None_iff, force simp: AList.delete_eq filter_id_conv)
    then show ?thesis using y True by (simp add: AList.delete_eq)
  next
    case False
    then show ?thesis using Cons y by (simp add: AList.delete_eq split: option.splits)
  qed
qed simp

lemma mset_push:
  assumes "distinct (map fst xs)"
  shows "mset (map snd (AList.update p r xs)) + (case map_of xs p of None \<Rightarrow> {#} | Some old \<Rightarrow> {#old#}) = add_mset r (mset (map snd xs))"
proof -
  have d: "distinct (map fst (AList.update p r xs))" using assms by (simp add: distinct_update)
  have "AList.delete p (AList.update p r xs) = AList.delete p xs" by (rule AList.delete_update_same)
  then show ?thesis using mset_pop [OF d, of p] mset_pop [OF assms, of p] by (simp add: update_conv' split: option.splits)
qed

named_theorems p2p_sel "fields a helper leaves alone"

lemma post_event_sel [p2p_sel]:
  "in_conn_counter (post_event b s) = in_conn_counter s" "in_conns (post_event b s) = in_conns s"
  "in_stream_counter (post_event b s) = in_stream_counter s" "in_streams (post_event b s) = in_streams s"
  "in_observed (post_event b s) = in_observed s" "in_external (post_event b s) = in_external s"
  "in_pending (post_event b s) = in_pending s" "in_cmds (post_event b s) = in_cmds s" "in_replies (post_event b s) = in_replies s"
  "in_dropped (post_event b s) = in_dropped s" "in_next (post_event b s) = in_next s"
  by (simp_all add: post_event_def)

lemma inv_post [simp]: "p2p_inv n (post_event b s) = p2p_inv n s"
  by (simp add: p2p_inv_def channels_def p2p_sel)

lemma inv_other [simp]:
  "p2p_inv n (s\<lparr>in_event_port := u\<rparr>) = p2p_inv n s" "p2p_inv n (s\<lparr>in_rx := a\<rparr>) = p2p_inv n s"
  "p2p_inv n (s\<lparr>in_listening := a\<rparr>) = p2p_inv n s" "p2p_inv n (s\<lparr>in_running := a\<rparr>) = p2p_inv n s"
  "p2p_inv n (s\<lparr>in_control := a\<rparr>) = p2p_inv n s" "p2p_inv n (s\<lparr>in_handlers := hs\<rparr>) = p2p_inv n s"
  "p2p_inv n (s\<lparr>in_v6_port := q\<rparr>) = p2p_inv n s" "p2p_inv n (s\<lparr>in_listeners := ls\<rparr>) = p2p_inv n s"
  "p2p_inv n (s\<lparr>in_watchdogs := ws\<rparr>) = p2p_inv n s"
  by (simp_all add: p2p_inv_def channels_def)

lemma inv_insert: "p2p_inv n s \<Longrightarrow> p2p_inv n (snd (insert_if_routable a s))"
  by (auto simp: insert_if_routable_def Let_def p2p_inv_def channels_def)

lemma inv_pop:
  assumes "p2p_inv n s" "pop_dial p s = (None, s')"
  shows "p2p_inv n s'"
  using assms mset_pop [of "in_pending s" p]
  by (auto simp: pop_dial_def p2p_inv_def channels_def AList.delete_eq distinct_map_filter)

text \<open>A popped reply channel is sent on at once.\<close>

lemma inv_pop_reply:
  assumes "p2p_inv n s" "pop_dial p s = (Some r, s')"
  shows "p2p_inv n (send_reply r v s')"
proof -
  have m: "map_of (in_pending s) p = Some r" "s' = s\<lparr>in_pending := AList.delete p (in_pending s)\<rparr>"
    using assms(2) by (simp_all add: pop_dial_def)
  have "mset (map snd (in_pending s)) = add_mset r (mset (map snd (AList.delete p (in_pending s))))"
    using mset_pop [of "in_pending s" p] assms(1) m(1) by (simp add: p2p_inv_def)
  then have "mset (channels (send_reply r v s')) = mset (channels s)" using m(2) by (simp add: channels_def send_reply_def)
  then show ?thesis using assms(1) m(2)
    by (simp add: p2p_inv_def send_reply_def distinct_delete) 
qed

lemma inv_alloc_conn: "p2p_inv n s \<Longrightarrow> int n < 2 ^ 63 - 1 \<Longrightarrow> p2p_inv (Suc n) (snd (allocate_conn_id p s))"
  using ids_ok_alloc(1) ids_ok_mono [of n "in_stream_counter s" "in_streams s" "Suc n"]
  by (auto simp: allocate_conn_id_def Let_def p2p_inv_def channels_def)

lemma inv_alloc_stream: "p2p_inv n s \<Longrightarrow> int n < 2 ^ 63 - 1 \<Longrightarrow> p2p_inv (Suc n) (snd (allocate_stream_id h s))"
  using ids_ok_alloc(1) ids_ok_mono [of n "in_conn_counter s" "in_conns s" "Suc n"]
  by (auto simp: allocate_stream_id_def Let_def p2p_inv_def channels_def)

lemma inv_mono: "p2p_inv n s \<Longrightarrow> n \<le> m \<Longrightarrow> p2p_inv m s"
  by (auto simp: p2p_inv_def intro: ids_ok_mono)

lemma inv_Suc: "p2p_inv n s \<Longrightarrow> p2p_inv (Suc n) s"
  by (erule inv_mono) simp

lemma inv_swarm_event:
  assumes "p2p_inv n s" "int n < 2 ^ 63 - 1"
  shows "p2p_inv (Suc n) (handle_swarm_event x px ev s)"
proof (cases ev)
  case (NewListenAddr l a)
  define s1 where "s1 = s\<lparr>in_listeners := insert l (in_listeners s)\<rparr>"
  define s2 where "s2 = (case bound_udp_port a of Some port \<Rightarrow> if has_ip6 a then s1\<lparr>in_v6_port := port\<rparr> else s1 | None \<Rightarrow> s1)"
  have "p2p_inv n s2" using assms(1) by (simp add: s2_def s1_def split: option.split)
  then have "p2p_inv n (snd (insert_if_routable a s2))" by (rule inv_insert)
  moreover have "handle_swarm_event x px ev s =
      (if fst (insert_if_routable a s2) then post_event (cbor_observed_addr_changed x px a) (snd (insert_if_routable a s2))
       else snd (insert_if_routable a s2))"
    unfolding handle_swarm_event_def NewListenAddr s2_def s1_def Let_def by (simp add: split_beta)
  ultimately show ?thesis using inv_Suc by simp
next
  case (ConnectionEstablished p)
  define s1 where "s1 = post_event (cbor_peer_connected x p) s"
  have s1: "p2p_inv n s1" using assms(1) by (simp add: s1_def)
  obtain r s2 where pd: "pop_dial p s1 = (r, s2)" by fastforce
  show ?thesis
  proof (cases r)
    case None
    then have "p2p_inv n s2" using inv_pop [OF s1, of p s2] pd by simp
    then show ?thesis using pd None inv_Suc by (simp add: handle_swarm_event_def ConnectionEstablished flip: s1_def)
  next
    case (Some q)
    have a: "send_reply q v (snd (allocate_conn_id p s2)) = snd (allocate_conn_id p (send_reply q v s2))" for v
      by (simp add: send_reply_def allocate_conn_id_def Let_def)
    have "p2p_inv (Suc n) (snd (allocate_conn_id p (send_reply q v s2)))" for v
      using inv_alloc_conn [OF inv_pop_reply [OF s1 pd [unfolded Some]] assms(2)] .
    then show ?thesis using pd Some a by (simp add: handle_swarm_event_def ConnectionEstablished Let_def split_beta flip: s1_def)
  qed
next
  case (ConnectionClosed p)
  have "p2p_inv n (s\<lparr>in_conns := filter (\<lambda>(_, q). q \<noteq> p) (in_conns s)\<rparr>)"
    using assms(1) ids_ok_filter [of n "in_conn_counter s" "in_conns s" "\<lambda>(_, q). q \<noteq> p"] by (simp add: p2p_inv_def channels_def)
  then show ?thesis using inv_Suc by (simp add: handle_swarm_event_def ConnectionClosed)
next
  case (OutgoingConnectionError po err)
  show ?thesis
  proof (cases po)
    case (Some p)
    obtain r s2 where pd: "pop_dial p s = (r, s2)" by fastforce
    have "p2p_inv n s2" if "r = None" using inv_pop [OF assms(1), of p s2] pd that by simp
    moreover have "p2p_inv n (send_reply q v s2)" if "r = Some q" for q v using inv_pop_reply [OF assms(1), of p q s2 v] pd that by simp
    ultimately show ?thesis using pd inv_Suc
      by (cases r) (simp_all add: handle_swarm_event_def OutgoingConnectionError Some)
  qed (use assms(1) inv_Suc in \<open>simp add: handle_swarm_event_def OutgoingConnectionError\<close>)
next
  case (IdentifyReceived p a as)
  have "p2p_inv n (snd (insert_if_routable a (post_event (cbor_identify_received x px p a as) s)))"
    by (rule inv_insert) (simp add: assms(1))
  then show ?thesis using inv_Suc by (simp add: handle_swarm_event_def IdentifyReceived)
next
  case (ExternalAddrConfirmed a)
  then show ?thesis using inv_insert [OF assms(1), of a] inv_Suc by (simp add: handle_swarm_event_def Let_def split_beta)
qed (use assms(1) inv_Suc in \<open>simp add: handle_swarm_event_def\<close>)

lemma inv_cmd:
  assumes "p2p_inv n s" "in_cmds s = c # cs"
  shows "p2p_inv n (handle_cmd x px dial accept c (s\<lparr>in_cmds := cs\<rparr>))"
proof -
  let ?s = "s\<lparr>in_cmds := cs\<rparr>"
  have ch: "mset (channels s) = mset (cmd_reply c) + mset (channels ?s)" by (simp add: channels_def assms(2))
  text \<open>The command's channel is answered.\<close>
  have reply: "p2p_inv n (send_reply r v s')" if "cmd_reply c = [r]" "p2p_inv n (s'\<lparr>in_cmds := c # in_cmds s'\<rparr>)" for r v s'
    using that by (simp add: p2p_inv_def channels_def send_reply_def)
  show ?thesis
  proof (cases c)
    case (DialDirect p addrs timeout r)
    show ?thesis
    proof (cases dial)
      case None
      have d: "distinct (map fst (in_pending s))" using assms(1) by (simp add: p2p_inv_def)
      have "mset (channels (push_dial p r ?s)) = mset (channels s)"
        using mset_push [OF d, of p r] assms(2) DialDirect
        by (auto simp: channels_def push_dial_def split: option.splits)
      then have "p2p_inv n (push_dial p r ?s)"
        using assms(1) by (simp add: p2p_inv_def push_dial_def distinct_update)
      then show ?thesis by (simp add: handle_cmd_def DialDirect None Let_def)
    next
      case (Some e)
      have "p2p_inv n (send_reply r v ?s)" for v 
        by (rule reply) (use DialDirect assms in \<open>simp_all add: p2p_inv_def channels_def\<close>)
      then show ?thesis by (simp add: handle_cmd_def DialDirect Some)
    qed
  next
    case (DialTimeout p)
    have i: "p2p_inv n ?s" using assms ch DialTimeout by (simp add: p2p_inv_def)
    obtain r s2 where pd: "pop_dial p ?s = (r, s2)" by fastforce
    show ?thesis using pd inv_pop [OF i] inv_pop_reply [OF i]
      by (cases r) (simp_all add: handle_cmd_def DialTimeout)
  next
    case (AddObservedAddr a r)
    define s1 where "s1 = (if fst (insert_if_routable a ?s)
       then post_event (cbor_observed_addr_changed x px a)
         ((snd (insert_if_routable a ?s))\<lparr>in_external := in_external (snd (insert_if_routable a ?s)) @ [a]\<rparr>)
       else snd (insert_if_routable a ?s))"
    have "p2p_inv n (s1\<lparr>in_cmds := c # in_cmds s1\<rparr>)"
      using assms AddObservedAddr by (auto simp: s1_def insert_if_routable_def Let_def p2p_inv_def channels_def post_event_def)
    then have "p2p_inv n (send_reply r v s1)" for v using AddObservedAddr by (intro reply) simp_all
    moreover have "handle_cmd x px dial accept c ?s = send_reply r (R_unit (Inr ())) s1"
      unfolding handle_cmd_def AddObservedAddr s1_def Let_def by (simp add: split_beta)
    ultimately show ?thesis by simp
  next
    case (RegisterInbound protocol r)
    have "p2p_inv n (send_reply r v ?s)" "p2p_inv n (send_reply r v (?s\<lparr>in_handlers := hs\<rparr>))" for v hs
      by (rule reply; use RegisterInbound assms in \<open>simp add: p2p_inv_def channels_def\<close>)+
    then show ?thesis by (cases accept) (simp_all add: handle_cmd_def RegisterInbound)
  next
    case Shutdown
    then show ?thesis using assms ch by (simp add: handle_cmd_def p2p_inv_def)
  qed
qed

lemma inv_stop: "p2p_inv n s \<Longrightarrow> p2p_inv n (loop_stop s)"
  by (auto simp: p2p_inv_def loop_stop_def channels_def ac_simps)

lemma inv_send:
  assumes "p2p_inv n s" "cmd_reply c = []"
  shows "p2p_inv n (snd (send_cmd c s))"
  using assms by (auto simp: send_cmd_def p2p_inv_def channels_def)

lemma inv_send_new:
  assumes "p2p_inv n s" "cmd_reply c = [in_next s]"
  shows "p2p_inv n (snd (send_cmd c (s\<lparr>in_next := Suc (in_next s)\<rparr>)))"
  using assms by (auto simp: send_cmd_def p2p_inv_def channels_def atLeastLessThanSuc)

lemma inv_put_stream:
  assumes "p2p_inv n s" "map_of (in_streams s) i = Some h"
  shows "p2p_inv n (put_stream i h' s)"
proof -
  have "i \<in> fst ` set (in_streams s)" using assms(2) by (metis map_of_eq_None_iff option.distinct(1))
  then show ?thesis using assms(1) ids_ok_update [of n "in_stream_counter s" "in_streams s" i h'] by (simp add: put_stream_def p2p_inv_def channels_def)
qed

lemma inv_drop_stream: "p2p_inv n s \<Longrightarrow> p2p_inv n (drop_stream i s)"
  using ids_ok_delete by (auto simp: drop_stream_def p2p_inv_def channels_def)

lemma inv_enum: "p2p_inv n s \<Longrightarrow> p2p_inv n (snd (enum_step w en s))"
proof -
  assume i: "p2p_inv n s"
  have a: "p2p_inv n (announce_if_routable net port s)" if "p2p_inv n s" for net port s
    using that inv_insert by (cases net) (simp_all add: announce_if_routable_def)
  have f: "p2p_inv n (fold (\<lambda>net. announce_if_routable net port) nets s)" if "p2p_inv n s" for nets port s
    using that a by (induction nets arbitrary: s) simp_all
  have g: "p2p_inv n (forget_addr net port s)" for net port
    using i by (cases net) (auto simp: forget_addr_def p2p_inv_def channels_def)
  show ?thesis using i a f g
    by (auto simp: enum_step_def enum_turn_def split: wake.splits if_event.splits)
qed

section \<open>Runs\<close>

text \<open>
  Everything that changes the state behind a handle: the task of \<open>run\<close> as it starts, on a swarm
  event or a command, and as it ends, a watchdog, the FFI calls, the tasks of the streams, the address enumerator.
\<close>

inductive p2p_step :: "ext \<Rightarrow> p2p_ext \<Rightarrow> inner \<Rightarrow> inner \<Rightarrow> bool" for x px where
  st_begin: "in_running s \<Longrightarrow> \<not> in_control s \<Longrightarrow> p2p_step x px s (run_begin built bound s)"
| st_event: "in_running s \<Longrightarrow> in_control s \<Longrightarrow> p2p_step x px s (handle_swarm_event x px ev s)"
| st_cmd: "in_running s \<Longrightarrow> in_control s \<Longrightarrow> p2p_step x px s (loop_cmd x px dial accept s)"
| st_fail: "in_running s \<Longrightarrow> p2p_step x px s (loop_stop s)"
| st_watchdog: "p \<in> set (in_watchdogs s) \<Longrightarrow> p2p_step x px s (watchdog p s)"
| st_listen: "p2p_step x px s (snd (snd (lp_listen s)))"
| st_port: "p2p_step x px s (snd (lp_set_event_port port s))"
| st_dial: "p2p_step x px s (snd (lp_dial_direct x px peer_id addrs timeout s))"
| st_addr: "p2p_step x px s (snd (lp_add_observed_addr px addr s))"
| st_register: "p2p_step x px s (snd (lp_register_inbound_handler px protocol s))"
| st_open: "p2p_step x px s (snd (snd (lp_open_stream px opened conn_id protocol s)))"
| st_accept: "protocol \<in> in_handlers s \<Longrightarrow> p2p_step x px s (accept_stream x protocol p s)"
| st_deliver: "p2p_step x px s (deliver i ev s)"
| st_read: "p2p_step x px s (snd (snd (snd (lp_stream_read i n s))))"
| st_write: "p2p_step x px s (snd (snd (lp_stream_write ops w i data len finish s)))"
| st_close: "p2p_step x px s (snd (lp_stream_close i s))"
| st_enum: "p2p_step x px s (snd (enum_step wake en s))"
| st_shutdown: "p2p_step x px s (inner_shutdown s)"

lemma inv_begin:
  assumes "p2p_inv n s" "cmd_reply c = [in_next s]"
  shows "send_cmd c (s\<lparr>in_next := Suc (in_next s)\<rparr>) = (r, s') \<Longrightarrow> p2p_inv n s'"
  using inv_send_new [OF assms] by simp

lemma inv_dial_begin: "p2p_inv n s \<Longrightarrow> p2p_inv n (snd (dial_begin p addrs timeout s))"
  using inv_begin [of n s "DialDirect p addrs timeout (in_next s)"]
  by (auto simp: dial_begin_def Let_def split: option.splits prod.splits sum.splits)

lemma inv_cmd_begin:
  assumes "p2p_inv n s" "\<And>r. cmd_reply (mk r) = [r]"
  shows "p2p_inv n (snd (cmd_begin mk s))"
  using inv_begin [OF assms(1) assms(2)]
  by (auto simp: cmd_begin_def Let_def split: prod.splits sum.splits)

lemma inv_read:
  assumes "p2p_inv n s"
  shows "p2p_inv n (snd (snd (snd (lp_stream_read i m s))))"
proof (cases "map_of (in_streams s) i")
  case (Some h)
  obtain code bs err h1 where "read_stream m h = (code, bs, err, h1)" by (metis prod_cases4)
  then show ?thesis using inv_put_stream [OF assms Some] by (simp add: lp_stream_read_def Some)
qed (simp add: lp_stream_read_def assms)

lemma inv_write:
  assumes "p2p_inv n s"
  shows "p2p_inv n (snd (snd (lp_stream_write ops w i data len finish s)))"
proof (cases "map_of (in_streams s) i")
  case (Some h)
  then show ?thesis using assms inv_put_stream [OF assms Some]
    by (auto simp: lp_stream_write_def Let_def split: prod.splits wait.splits sum.splits)
qed (simp add: lp_stream_write_def assms)

lemma inv_close:
  assumes "p2p_inv n s"
  shows "p2p_inv n (snd (lp_stream_close i s))"
proof (cases "map_of (in_streams s) i")
  case (Some h)
  then show ?thesis using assms inv_put_stream [OF assms Some] inv_drop_stream by (simp add: lp_stream_close_def Let_def)
qed (simp add: lp_stream_close_def assms)

lemma inv_open:
  assumes "p2p_inv n s" "int n < 2 ^ 63 - 1"
  shows "p2p_inv (Suc n) (snd (snd (lp_open_stream px opened conn_id protocol s)))"
proof -
  have "p2p_inv (Suc n) (snd (open_outbound_stream px opened conn_id t s))" for t
    using inv_alloc_stream [OF assms] inv_Suc [OF assms(1)]
    by (simp add: open_outbound_stream_def Let_def split_beta split: option.split)
  moreover have "snd (snd (lp_open_stream px opened conn_id protocol s)) \<in> insert s (range (\<lambda>t. snd (open_outbound_stream px opened conn_id t s)))"
    by (auto simp: lp_open_stream_def image_iff split: option.splits prod.splits sum.splits) (metis snd_conv)+
  ultimately show ?thesis using inv_Suc [OF assms(1)] by auto
qed

lemma inv_step:
  assumes "p2p_step x px s s'" "p2p_inv n s" "int n < 2 ^ 63 - 1"
  shows "p2p_inv (Suc n) s'"
  using assms(1)
proof cases
  case (st_event ev)
  then show ?thesis using inv_swarm_event assms(2,3) by blast
next
  case (st_cmd dial accept)
  show ?thesis
  proof (cases "in_cmds s")
    case (Cons c cs)
    then show ?thesis using st_cmd(1) inv_cmd [OF assms(2) Cons, of x px dial accept] inv_stop [OF assms(2)] inv_Suc
      by (auto simp: loop_cmd_def)
  qed (use st_cmd assms(2) inv_Suc in \<open>simp add: loop_cmd_def\<close>)
next
  case (st_watchdog p)
  then show ?thesis using inv_send [of n "s\<lparr>in_watchdogs := remove1 p (in_watchdogs s)\<rparr>" "DialTimeout p"] assms(2) inv_Suc
    by (simp add: watchdog_def)
next
  case (st_dial peer_id addrs timeout)
  have "snd (lp_dial_direct x px peer_id addrs timeout s) \<in> insert s {snd (dial_begin p as timeout s) | p as. True}"
    by (auto simp: lp_dial_direct_def split: option.splits sum.splits prod.splits) (metis snd_conv)+
  then show ?thesis using st_dial inv_dial_begin [OF assms(2)] inv_Suc assms(2) by auto
next
  case (st_addr addr)
  have "snd (lp_add_observed_addr px addr s) \<in> insert s (range (\<lambda>a. snd (cmd_begin (AddObservedAddr a) s)))"
    by (auto simp: lp_add_observed_addr_def image_iff split: option.splits sum.splits prod.splits) (metis snd_conv)+
  then show ?thesis using st_addr inv_cmd_begin [OF assms(2), of "AddObservedAddr a" for a] assms(2) inv_Suc by auto
next
  case (st_register protocol)
  have "snd (lp_register_inbound_handler px protocol s) \<in> insert s (range (\<lambda>a. snd (cmd_begin (RegisterInbound a) s)))"
    by (auto simp: lp_register_inbound_handler_def image_iff split: option.splits sum.splits prod.splits) (metis snd_conv)+
  then show ?thesis using st_register inv_cmd_begin [OF assms(2), of "RegisterInbound a" for a] assms(2) inv_Suc by auto
next
  case (st_open opened conn_id protocol)
  then show ?thesis using inv_open [OF assms(2,3)] by simp
next
  case (st_accept protocol p)
  then show ?thesis using inv_alloc_stream [OF assms(2,3)] by (simp add: accept_stream_def Let_def split_beta)
next
  case (st_deliver i ev)
  then show ?thesis using inv_put_stream [OF assms(2)] assms(2) inv_Suc by (auto simp: deliver_def split: option.split)
next
  case (st_shutdown)
  then show ?thesis using inv_send [OF assms(2), of Shutdown] inv_stop inv_Suc by (simp add: inner_shutdown_def Let_def)
next
  case (st_listen)
  then show ?thesis using assms(2) inv_Suc by (auto simp: lp_listen_def start_listen_def)
next
  case (st_port port)
  then show ?thesis using assms(2) inv_Suc by (simp add: lp_set_event_port_def)
next
  case (st_begin built bound)
  then show ?thesis using inv_stop assms(2) inv_Suc by (simp add: run_begin_def Let_def)
next
  case st_fail
  then show ?thesis using inv_stop [OF assms(2)] inv_Suc by simp
next
  case (st_read i m)
  then show ?thesis using inv_read [OF assms(2)] inv_Suc by simp
next
  case (st_write ops w i data len finish)
  then show ?thesis using inv_write [OF assms(2)] inv_Suc by simp
next
  case (st_close i)
  then show ?thesis using inv_close [OF assms(2)] inv_Suc by simp
next
  case (st_enum w en)
  then show ?thesis using inv_enum [OF assms(2)] inv_Suc by simp
qed

lemma inv_reach:
  assumes "(p2p_step x px ^^ n) inner_new s" "int n < 2 ^ 63"
  shows "p2p_inv n s"
  using assms
proof (induction n arbitrary: s)
  case 0
  then have "s = inner_new" by simp
  then show ?case by (simp add: inner_new_def p2p_inv_def ids_ok_def channels_def)
next
  case (Suc n)
  from Suc.prems(1) obtain s1 where "(p2p_step x px ^^ n) inner_new s1" "p2p_step x px s1 s" by (rule relpowp_Suc_E)
  then show ?case using Suc.IH [of s1] Suc.prems(2) inv_step [of x px s1 s n] by simp
qed

text \<open>
  C13: In every state the bridge reaches within \<open>2^63\<close> steps: the ids of connections and of streams
  are positive (so none is taken for an error code), all different and at most the counter (so the
  next one is new); every address it
  advertises, to Dart or to the swarm, is routable; and every reply channel is in exactly one
  place - waiting in a command, waiting with its dial, answered, or dropped - so that no call
  is answered twice and none is forgotten.
\<close>
theorem p2p_invariant:
  assumes "(p2p_step x px ^^ n) inner_new s" "int n < 2 ^ 63"
  shows "distinct (map fst (in_conns s)) \<and> distinct (map fst (in_streams s)) \<and>
    (\<forall>i \<in> fst ` set (in_conns s). 0 < i \<and> i \<le> in_conn_counter s) \<and>
    (\<forall>i \<in> fst ` set (in_streams s). 0 < i \<and> i \<le> in_stream_counter s) \<and>
    (\<forall>a \<in> in_observed s \<union> set (in_external s). routable a) \<and>
    distinct (concat (map cmd_reply (in_cmds s)) @ map snd (in_pending s) @ map fst (in_replies s) @ in_dropped s) \<and>
    set (concat (map cmd_reply (in_cmds s)) @ map snd (in_pending s) @ map fst (in_replies s) @ in_dropped s) = {0..<in_next s}"
proof -
  note i = inv_reach [OF assms]
  have m: "mset (channels s) = mset [0..<in_next s]" using i by (simp add: p2p_inv_def)
  have "distinct (channels s)" "set (channels s) = {0..<in_next s}"
    using mset_eq_imp_distinct_iff [OF m] mset_eq_setD [OF m] by simp_all
  then show ?thesis using i by (fastforce simp: p2p_inv_def ids_ok_def channels_def)
qed

text \<open>
  A watchdog outlives its dial. When a dial has failed and the peer is dialled again, the
  first dial's watchdog makes the second one fail with a timeout although its own time has not
  run out, and the connection that is then established gets no id.
\<close>
theorem stale_dial_timeout:
  assumes "in_running s" "in_cmds s = []" "map_of (in_pending s) p = None" "in_watchdogs s = []"
    and s1: "s1 = handle_cmd x px None a1 (DialDirect p addrs1 t1 r1) s"
    and s2: "s2 = handle_swarm_event x px (OutgoingConnectionError (Some p) err) s1"
    and s3: "s3 = handle_cmd x px None a2 (DialDirect p addrs2 t2 r2) s2"
    and s4: "s4 = loop_cmd x px dial accept (watchdog p s3)"
    and s5: "s5 = handle_swarm_event x px (ConnectionEstablished p) s4"
  shows "in_replies s4 = in_replies s @ [(r1, R_dial (Inl err)), (r2, R_dial (Inl ''dial timed out''))] \<and>
    in_watchdogs s4 = [p] \<and> in_conns s5 = in_conns s \<and> in_replies s5 = in_replies s4"
proof -
  have e1: "s1 = s\<lparr>in_pending := AList.update p r1 (in_pending s), in_watchdogs := [p]\<rparr>"
    using s1 assms(3,4) by (simp add: handle_cmd_def push_dial_def Let_def)
  have m1: "map_of (in_pending s1) p = Some r1" "AList.delete p (in_pending s1) = AList.delete p (in_pending s)"
    by (simp_all add: e1 update_conv' AList.delete_update_same)
  have e2: "s2 = s\<lparr>in_pending := AList.delete p (in_pending s), in_watchdogs := [p], in_replies := in_replies s @ [(r1, R_dial (Inl err))]\<rparr>"
    using s2 m1 by (simp add: handle_swarm_event_def pop_dial_def send_reply_def) (simp add: e1)
  have m2: "map_of (in_pending s2) p = None" by (simp add: e2 delete_conv')
  have e3: "s3 = s2\<lparr>in_pending := AList.update p r2 (in_pending s2), in_watchdogs := [p, p]\<rparr>"
    using s3 m2 by (simp add: handle_cmd_def push_dial_def Let_def) (simp add: e2)
  have w: "watchdog p s3 = s3\<lparr>in_watchdogs := [p], in_cmds := [DialTimeout p]\<rparr>"
    using assms(1,2) by (simp add: watchdog_def send_cmd_def e3 e2)
  have m3: "map_of (in_pending s3) p = Some r2" by (simp add: e3 update_conv')
  have e4: "s4 = s3\<lparr>in_watchdogs := [p], in_cmds := [], in_pending := AList.delete p (in_pending s3),
      in_replies := in_replies s3 @ [(r2, R_dial (Inl ''dial timed out''))]\<rparr>"
    using s4 m3 by (simp add: w loop_cmd_def handle_cmd_def pop_dial_def send_reply_def)
  have m4: "map_of (in_pending (post_event b s4)) p = None" for b by (simp add: p2p_sel e4 delete_conv')
  have "in_conns s5 = in_conns s4" "in_replies s5 = in_replies s4"
    using s5 m4 by (simp_all add: handle_swarm_event_def pop_dial_def Let_def p2p_sel)
  then show ?thesis by (simp add: e4 e3 e2)
qed

text \<open>
  Addresses that were buffered before the listener had its port are announced only by the
  timer, and the timer is off as soon as a turn of the loop has seen the port: if the port is
  bound between two interface events, the buffered addresses are never announced, however
  the loop goes on.
\<close>
theorem enumerator_strands:
  assumes "en_port en \<noteq> 0" "\<And>w s. (w, s) \<in> set turns \<Longrightarrow> in_v6_port s \<noteq> 0"
  shows "en_buffered (fold (\<lambda>(w, s) en. fst (enum_step w en s)) turns en) = en_buffered en \<and>
    (\<forall>s. snd (enum_step Tick (fold (\<lambda>(w, s) en. fst (enum_step w en s)) turns en) s) = s)"
proof -
  have v: "in_v6_port (announce_if_routable net port s) = in_v6_port s" "in_v6_port (forget_addr net port s) = in_v6_port s" for net port s
    by (cases net; simp add: announce_if_routable_def forget_addr_def insert_if_routable_def Let_def)+
  have one: "en_buffered (fst (enum_step w en s)) = en_buffered en \<and> en_port (fst (enum_step w en s)) \<noteq> 0"
    if "en_port en \<noteq> 0" "in_v6_port s \<noteq> 0" for w en s
    using that by (auto simp: enum_step_def enum_turn_def v split: wake.splits if_event.splits)
  have "en_buffered (fold (\<lambda>(w, s) en. fst (enum_step w en s)) turns en) = en_buffered en \<and>
      en_port (fold (\<lambda>(w, s) en. fst (enum_step w en s)) turns en) \<noteq> 0"
    using assms
  proof (induction turns arbitrary: en)
    case (Cons t turns)
    obtain w s where t: "t = (w, s)" by (cases t)
    have n: "in_v6_port s' \<noteq> 0" if "(w', s') \<in> set turns" for w' s' using Cons.prems(2) [of w' s'] that by simp
    have "en_buffered (fst (enum_step w en s)) = en_buffered en" "en_port (fst (enum_step w en s)) \<noteq> 0"
      using one [of en s w] Cons.prems(1) Cons.prems(2) [of w s] t by simp_all
    then show ?case using Cons.IH [of "fst (enum_step w en s)", OF _ n] t by simp
  qed simp
  then show ?thesis by (simp add: enum_step_def enum_turn_def)
qed

text \<open>
  The handle slot: a second \<open>lp_init\<close> leaves the first handle as it is, and a handle that was shut
  down must not be shut down again.
\<close>

lemma lp_init_leaks:
  assumes "lp_init (Inr s1) a1 dir seed 32 b = (Inr a1, b1)" "lp_init (Inr s2) a2 dir' seed' 32 b1 = (Inr a2, b2)" "a1 \<noteq> a2"
  shows "map_of (bg_handles b2) a1 = Some s1" "bg_slot b2 = Some a2"
  using assms by (auto simp: lp_init_def update_conv' split: if_splits)

section \<open>Examples\<close>

definition ex_px :: p2p_ext where
  "ex_px = \<lparr>px_encode = (\<lambda>_. []), px_decode = (\<lambda>_. Inr [P_Ip4 10 0 0 1]), px_peer = Inr, px_protocol = (\<lambda>_. None)\<rparr>"

definition ex_listening :: inner where
  "ex_listening = run_begin None None (snd (snd (lp_listen inner_new)))"

theorem p2p_invariant_witness:
  "distinct (map fst (in_streams (accept_stream plain_ext ''/q'' ''p'' (ex_listening\<lparr>in_handlers := {''/q''}, in_next := 1, in_replies := [(0, R_unit (Inr ()))]\<rparr>))))"
proof -
  define s1 where "s1 = snd (lp_register_inbound_handler ex_px (Some (Some ''/q'')) ex_listening)"
  define s2 where "s2 = loop_cmd plain_ext ex_px None None s1"
  have l: "ex_listening = inner_new\<lparr>in_rx := False, in_listening := True, in_running := True, in_control := True\<rparr>"
    by (simp add: ex_listening_def run_begin_def lp_listen_def start_listen_def inner_new_def)
  have s1: "s1 = ex_listening\<lparr>in_next := 1, in_cmds := [RegisterInbound ''/q'' 0]\<rparr>"
    by (simp add: s1_def lp_register_inbound_handler_def ex_px_def cmd_begin_def send_cmd_def Let_def l inner_new_def)
  have s2: "s2 = ex_listening\<lparr>in_handlers := {''/q''}, in_next := 1, in_replies := [(0, R_unit (Inr ()))]\<rparr>"
    by (simp add: s2_def s1 loop_cmd_def handle_cmd_def send_reply_def l inner_new_def)
  have a0: "p2p_step plain_ext ex_px inner_new (snd (snd (lp_listen inner_new)))" by (rule st_listen)
  have a: "p2p_step plain_ext ex_px (snd (snd (lp_listen inner_new))) ex_listening"
    unfolding ex_listening_def by (rule st_begin) (simp_all add: lp_listen_def start_listen_def inner_new_def)
  have b: "p2p_step plain_ext ex_px ex_listening s1" using st_register by (simp add: s1_def)
  have c: "p2p_step plain_ext ex_px s1 s2" using st_cmd [of s1 plain_ext ex_px None None] by (simp add: s2_def s1 l)
  have d: "p2p_step plain_ext ex_px s2 (accept_stream plain_ext ''/q'' ''p'' s2)" by (rule st_accept) (simp add: s2)
  have "(p2p_step plain_ext ex_px ^^ 5) inner_new (accept_stream plain_ext ''/q'' ''p'' s2)"
    using a0 a b c d by (auto simp: numeral_eq_Suc relcompp.simps)
  then show ?thesis using p2p_invariant [of 5 plain_ext ex_px] s2 by simp
qed

theorem stale_dial_timeout_witness:
  "in_replies (loop_cmd plain_ext ex_px None None (watchdog ''p'' (handle_cmd plain_ext ex_px None None (DialDirect ''p'' [] 5 1)
     (handle_swarm_event plain_ext ex_px (OutgoingConnectionError (Some ''p'') ''e'')
       (handle_cmd plain_ext ex_px None None (DialDirect ''p'' [] 5 0) ex_listening))))) =
   [(0, R_dial (Inl ''e'')), (1, R_dial (Inl ''dial timed out''))]"
proof -
  have "in_running ex_listening" "in_cmds ex_listening = []" "map_of (in_pending ex_listening) ''p'' = None"
    "in_watchdogs ex_listening = []" "in_replies ex_listening = []"
    by (simp_all add: ex_listening_def run_begin_def lp_listen_def start_listen_def inner_new_def)
  then show ?thesis
    using stale_dial_timeout [where s = ex_listening and p = "''p''" and x = plain_ext and px = ex_px and ?r1.0 = 0 and ?r2.0 = 1 and err = "''e''"
        and ?a1.0 = None and ?a2.0 = None and ?addrs1.0 = "[]" and ?addrs2.0 = "[]" and ?t1.0 = 5 and ?t2.0 = 5 and dial = None and accept = None,
        OF _ _ _ _ refl refl refl refl refl]
    by auto
qed

theorem enumerator_strands_witness:
  "en_buffered (fst (enum_step Tick \<lparr>en_port = 7, en_buffered = [V6 [0x2001, 0, 0, 0, 0, 0, 0, 1]], en_running = True\<rparr>
     (ex_listening\<lparr>in_v6_port := 7\<rparr>))) = [V6 [0x2001, 0, 0, 0, 0, 0, 0, 1]]"
  using enumerator_strands [of "\<lparr>en_port = 7, en_buffered = [V6 [0x2001, 0, 0, 0, 0, 0, 0, 1]], en_running = True\<rparr>"
      "[(Tick, ex_listening\<lparr>in_v6_port := 7\<rparr>)]"] by simp

definition ex_stream :: inner where
  "ex_stream = inner_new\<lparr>in_streams := [(1, spawn_stream_io ''p'' ''/q'')]\<rparr>"


end
