(* ===== verification/Tor.thy ===== *)
theory Tor
  imports Supervisor
begin

text \<open>
  The Tor core shared by relay and app (\<open>starling-arti\<close>) and the app's FFI around it
  (\<open>starling_bridge/src/arti/mod.rs\<close>): onion services with their reverse proxy, the status
  snapshot, private directories, and the life of the process-wide handle.

  The Tor client itself is a parameter: whether it starts, bootstraps, launches a service and
  under which address.
\<close>

section \<open>Onion services\<close>

text \<open>The rules of the reverse proxy: virtual port and local target port.\<close>

type_synonym proxy_config = "(nat \<times> u16) list"

definition mk_proxy_config :: "u16 \<Rightarrow> proxy_config" where
  "mk_proxy_config local_port = [(80, local_port)]"

record onion_handle =
  oh_nickname :: str
  oh_address :: str
  oh_local_port :: u16
  oh_proxy :: proxy_config

text \<open>\<open>reconfigured\<close>: the error of \<open>reconfigure\<close>, if any.\<close>

definition retarget :: "str option \<Rightarrow> u16 \<Rightarrow> onion_handle \<Rightarrow> (str + unit) \<times> onion_handle" where
  "retarget reconfigured local_port h =
     (if local_port = oh_local_port h then (Inr (), h)
      else case reconfigured of
             Some e \<Rightarrow> (Inl (''reconfigure onion proxy: '' @ e), h)
           | None \<Rightarrow> (Inr (), h\<lparr>oh_proxy := mk_proxy_config local_port, oh_local_port := local_port\<rparr>))"

text \<open>
  \<open>nick_err\<close>: the error of parsing the nickname; \<open>launched\<close>: the error of \<open>launch_onion_service\<close> or
  the address it has, if it has one yet.
\<close>

definition launch_service :: "str option \<Rightarrow> (str + str option) \<Rightarrow> str \<Rightarrow> u16 \<Rightarrow> str + onion_handle" where
  "launch_service nick_err launched nickname local_port =
     (case nick_err of
        Some e \<Rightarrow> Inl (''parse onion nickname: '' @ e)
      | None \<Rightarrow>
          (case launched of
             Inl e \<Rightarrow> Inl (''launch onion service: '' @ e)
           | Inr None \<Rightarrow> Inl ''onion service has no published address yet''
           | Inr (Some address) \<Rightarrow>
               Inr \<lparr>oh_nickname = nickname, oh_address = address, oh_local_port = local_port, oh_proxy = mk_proxy_config local_port\<rparr>))"

section \<open>The node\<close>

datatype init_mode = Full_bootstrap | OnDemand

record arti_node =
  an_socks_port :: u16
  an_socks_task :: bool

text \<open>
  \<open>dirs\<close> and \<open>configured\<close>: errors of preparing the directories, the configuration and the
  runtime; \<open>bootstrapped\<close> and \<open>constructed\<close> those of the two ways to make a client; \<open>socks\<close> the
  listener's port or its error.
\<close>

record node_env =
  ne_dirs :: "str option"
  ne_configured :: "str option"
  ne_bootstrapped :: "str option"
  ne_constructed :: "str option"
  ne_socks :: "str + u16"

definition node_start :: "node_env \<Rightarrow> init_mode \<Rightarrow> str + arti_node" where
  "node_start e mode =
     (case ne_dirs e of
        Some m \<Rightarrow> Inl m
      | None \<Rightarrow>
          (case ne_configured e of
             Some m \<Rightarrow> Inl m
           | None \<Rightarrow>
               (case (case mode of Full_bootstrap \<Rightarrow> ne_bootstrapped e | OnDemand \<Rightarrow> ne_constructed e) of
                  Some m \<Rightarrow> Inl m
                | None \<Rightarrow>
                    (case ne_socks e of
                       Inl m \<Rightarrow> Inl m
                     | Inr port \<Rightarrow> Inr \<lparr>an_socks_port = port, an_socks_task = True\<rparr>))))"

definition node_shutdown :: "arti_node \<Rightarrow> arti_node" where
  "node_shutdown n = n\<lparr>an_socks_task := False\<rparr>"

record status_snapshot =
  ss_bootstrap_percent :: int
  ss_is_ready :: bool
  ss_socks_port :: u16

text \<open>\<open>f64::round\<close> rounds half away from zero.\<close>

definition round_half_away :: "rat \<Rightarrow> int" where
  "round_half_away q = (if 0 \<le> q then \<lfloor>q + 1 / 2\<rfloor> else \<lceil>q - 1 / 2\<rceil>)"

definition node_status :: "rat \<Rightarrow> bool \<Rightarrow> arti_node \<Rightarrow> status_snapshot" where
  "node_status fr ready n =
     \<lparr>ss_bootstrap_percent = min 100 (max 0 (round_half_away (fr * 100))), ss_is_ready = ready, ss_socks_port = an_socks_port n\<rparr>"

section \<open>Private directories\<close>

text \<open>Directories by their components, with their modes. \<open>chmod\<close>: \<open>set_permissions\<close> works.\<close>

type_synonym dir_modes = "str list \<Rightarrow> nat option"

fun create_dirs :: "str list \<Rightarrow> str list \<Rightarrow> dir_modes \<Rightarrow> dir_modes" where
  "create_dirs pre [] fs = fs"
| "create_dirs pre (c # cs) fs =
     (let p = pre @ [c] in create_dirs p cs (if fs p = None then fs(p \<mapsto> 448) else fs))"

definition ensure_private_dir :: "bool \<Rightarrow> bool \<Rightarrow> str list \<Rightarrow> dir_modes \<Rightarrow> bool \<times> dir_modes" where
  "ensure_private_dir created chmod path fs =
     (if \<not> created then (False, fs)
      else
        let fs1 = create_dirs [] path fs
        in if \<not> chmod then (False, fs1) else (True, fs1(path \<mapsto> 448)))"

section \<open>The FFI\<close>

definition ARTI_OK :: int where "ARTI_OK = 0"
definition ARTI_ERR_NULL :: int where "ARTI_ERR_NULL = -1"
definition ARTI_ERR_UTF8 :: int where "ARTI_ERR_UTF8 = -2"
definition ARTI_ERR_INIT :: int where "ARTI_ERR_INIT = -4"
definition ARTI_ERR_ONION :: int where "ARTI_ERR_ONION = -5"
definition ARTI_ERR_BOOTSTRAP :: int where "ARTI_ERR_BOOTSTRAP = -7"

definition PHONE_HS_NICKNAME :: str where "PHONE_HS_NICKNAME = ''starling''"

record arti_handle =
  ah_node :: arti_node
  ah_onion :: "onion_handle option"

text \<open>
  The handles of the process by address, the handle slot, the last error. Using an address that
  holds no handle is \<open>None\<close>: the behaviour is undefined.
\<close>

record arti_proc =
  ap_handles :: "(nat \<times> arti_handle) list"
  ap_slot :: "nat option"
  ap_error :: "str option"

definition arti_proc_new :: arti_proc where
  "arti_proc_new = \<lparr>ap_handles = [], ap_slot = None, ap_error = None\<rparr>"

definition ARTI_BOOTSTRAP_FULL :: byte where "ARTI_BOOTSTRAP_FULL = 0"
definition ARTI_BOOTSTRAP_ON_DEMAND :: byte where "ARTI_BOOTSTRAP_ON_DEMAND = 1"

text \<open>Tearing down the prior handle: its onion service and its node go with the box.\<close>

definition take_prior :: "arti_proc \<Rightarrow> arti_proc option" where
  "take_prior p =
     (case ap_slot p of
        None \<Rightarrow> Some p
      | Some a \<Rightarrow>
          if map_of (ap_handles p) a = None then None
          else Some (p\<lparr>ap_slot := None, ap_handles := AList.delete a (ap_handles p)\<rparr>))"

text \<open>\<open>rt\<close>: the error of building the runtime; \<open>addr\<close>: the address of the new box.\<close>

definition arti_init ::
  "node_env \<Rightarrow> str option \<Rightarrow> nat \<Rightarrow> str option option \<Rightarrow> byte \<Rightarrow> arti_proc \<Rightarrow> (nat option \<times> arti_proc) option" where
  "arti_init e rt addr data_dir bootstrap_mode p =
     (case take_prior (p\<lparr>ap_error := None\<rparr>) of
        None \<Rightarrow> None
      | Some p1 \<Rightarrow>
          (let fail = (\<lambda>m. Some (None, p1\<lparr>ap_error := Some m\<rparr>))
           in case data_dir of
                None \<Rightarrow> fail ''data_dir is NULL''
              | Some None \<Rightarrow> fail ''data_dir is not valid UTF-8''
              | Some (Some dir) \<Rightarrow>
                  (case rt of
                     Some m \<Rightarrow> fail (''build tokio runtime: '' @ m)
                   | None \<Rightarrow>
                       if bootstrap_mode \<noteq> ARTI_BOOTSTRAP_FULL \<and> bootstrap_mode \<noteq> ARTI_BOOTSTRAP_ON_DEMAND
                       then fail (''unknown bootstrap_mode '' @ show_nat (unat bootstrap_mode))
                       else case node_start e (if bootstrap_mode = ARTI_BOOTSTRAP_FULL then Full_bootstrap else OnDemand) of
                              Inl m \<Rightarrow> fail (''arti_init failed: '' @ m)
                            | Inr n \<Rightarrow>
                                Some (Some addr,
                                  p1\<lparr>ap_handles := AList.update addr \<lparr>ah_node = n, ah_onion = None\<rparr> (ap_handles p1),
                                     ap_slot := Some addr\<rparr>))))"

definition arti_create_onion_service ::
  "str option \<Rightarrow> str option \<Rightarrow> (str + str option) \<Rightarrow> nat option \<Rightarrow> u16 \<Rightarrow> arti_proc \<Rightarrow> (str option \<times> arti_proc) option" where
  "arti_create_onion_service reconfigured nick_err launched handle local_port p0 =
     (let p = p0\<lparr>ap_error := None\<rparr>
      in case handle of
           None \<Rightarrow> Some (None, p\<lparr>ap_error := Some ''handle is NULL''\<rparr>)
         | Some a \<Rightarrow>
             (case map_of (ap_handles p) a of
                None \<Rightarrow> None
              | Some h \<Rightarrow>
                  (case ah_onion h of
                     Some existing \<Rightarrow>
                       if oh_local_port existing \<noteq> local_port
                       then (case retarget reconfigured local_port existing of
                               (Inl m, _) \<Rightarrow> Some (None, p\<lparr>ap_error := Some (''arti_create_onion_service retarget failed: '' @ m)\<rparr>)
                             | (Inr _, o1) \<Rightarrow>
                                 Some (Some (oh_address o1),
                                   p\<lparr>ap_handles := AList.update a (h\<lparr>ah_onion := Some o1\<rparr>) (ap_handles p)\<rparr>))
                       else Some (Some (oh_address existing), p)
                   | None \<Rightarrow>
                       (case launch_service nick_err launched PHONE_HS_NICKNAME local_port of
                          Inl m \<Rightarrow> Some (None, p\<lparr>ap_error := Some (''arti_create_onion_service failed: '' @ m)\<rparr>)
                        | Inr o1 \<Rightarrow>
                            Some (Some (oh_address o1),
                              p\<lparr>ap_handles := AList.update a (h\<lparr>ah_onion := Some o1\<rparr>) (ap_handles p)\<rparr>)))))"

definition arti_bootstrap :: "str option \<Rightarrow> nat option \<Rightarrow> arti_proc \<Rightarrow> (int \<times> arti_proc) option" where
  "arti_bootstrap err handle p0 =
     (let p = p0\<lparr>ap_error := None\<rparr>
      in case handle of
           None \<Rightarrow> Some (ARTI_ERR_NULL, p\<lparr>ap_error := Some ''handle is NULL''\<rparr>)
         | Some a \<Rightarrow>
             if map_of (ap_handles p) a = None then None
             else case err of
                    None \<Rightarrow> Some (ARTI_OK, p)
                  | Some m \<Rightarrow> Some (ARTI_ERR_BOOTSTRAP, p\<lparr>ap_error := Some (''arti_bootstrap failed: '' @ m)\<rparr>))"

definition arti_socks_port :: "nat option \<Rightarrow> arti_proc \<Rightarrow> u16 option" where
  "arti_socks_port handle p =
     (case handle of None \<Rightarrow> Some 0 | Some a \<Rightarrow> map_option (\<lambda>h. an_socks_port (ah_node h)) (map_of (ap_handles p) a))"

text \<open>The snapshot for Dart, with its circuit count.\<close>

definition arti_status :: "rat \<Rightarrow> bool \<Rightarrow> nat option \<Rightarrow> bool \<Rightarrow> arti_proc \<Rightarrow> (int \<times> (status_snapshot \<times> nat) option) option" where
  "arti_status fr ready handle out_null p =
     (case handle of
        None \<Rightarrow> Some (ARTI_ERR_NULL, None)
      | Some a \<Rightarrow>
          if out_null then Some (ARTI_ERR_NULL, None)
          else case map_of (ap_handles p) a of
                 None \<Rightarrow> None
               | Some h \<Rightarrow>
                   (let snap = node_status fr ready (ah_node h)
                    in Some (ARTI_OK, Some (snap, if ss_is_ready snap then 3 else 0))))"

definition arti_shutdown :: "nat option \<Rightarrow> arti_proc \<Rightarrow> (int \<times> arti_proc) option" where
  "arti_shutdown handle p =
     (case handle of
        None \<Rightarrow> Some (ARTI_ERR_NULL, p)
      | Some a \<Rightarrow>
          if ap_slot p \<noteq> Some a then Some (ARTI_OK, p)
          else if map_of (ap_handles p) a = None then None
          else Some (ARTI_OK, p\<lparr>ap_slot := None, ap_handles := AList.delete a (ap_handles p)\<rparr>))"

section \<open>Lemmas\<close>

text \<open>The calls of an application that passes on only addresses it was given, fresh or stale.\<close>

inductive arti_step :: "arti_proc \<Rightarrow> arti_proc \<Rightarrow> bool" where
  at_init: "map_of (ap_handles p) addr = None \<or> ap_slot p = Some addr \<Longrightarrow> arti_init e rt addr dir mode p = Some (r, p') \<Longrightarrow> arti_step p p'"
| at_onion: "arti_create_onion_service rc ne la h port p = Some (r, p') \<Longrightarrow> arti_step p p'"
| at_boot: "arti_bootstrap err h p = Some (c, p') \<Longrightarrow> arti_step p p'"
| at_shutdown: "arti_shutdown h p = Some (c, p') \<Longrightarrow> arti_step p p'"

text \<open>The live handles are the one of the slot, or none.\<close>

definition one_handle :: "arti_proc \<Rightarrow> bool" where
  "one_handle p \<longleftrightarrow> (case ap_slot p of None \<Rightarrow> ap_handles p = [] | Some a \<Rightarrow> \<exists>h. ap_handles p = [(a, h)])"

definition onion_ok :: "arti_handle \<Rightarrow> bool" where
  "onion_ok h \<longleftrightarrow>
     (case ah_onion h of None \<Rightarrow> True | Some ho \<Rightarrow> oh_proxy ho = [(80, oh_local_port ho)] \<and> oh_nickname ho = PHONE_HS_NICKNAME)"

definition arti_inv :: "arti_proc \<Rightarrow> bool" where
  "arti_inv p \<longleftrightarrow> one_handle p \<and> (\<forall>a h. map_of (ap_handles p) a = Some h \<longrightarrow> onion_ok h)"

lemma take_prior_ok:
  assumes "one_handle p"
  shows "take_prior p = Some (p\<lparr>ap_slot := None, ap_handles := []\<rparr>)"
  using assms by (auto simp: take_prior_def one_handle_def AList.delete_eq split: option.splits)

lemma arti_init_ok:
  assumes "one_handle p"
  shows "\<exists>r. arti_init e rt addr dir mode p = Some r"
    and "arti_init e rt addr dir mode p = Some (r, p') \<Longrightarrow>
      (r = None \<and> ap_slot p' = None \<and> ap_handles p' = []) \<or>
      (\<exists>n. r = Some addr \<and> ap_slot p' = Some addr \<and> ap_handles p' = [(addr, \<lparr>ah_node = n, ah_onion = None\<rparr>)])"
proof -
  have t: "take_prior (p\<lparr>ap_error := None\<rparr>) = Some (p\<lparr>ap_error := None, ap_slot := None, ap_handles := []\<rparr>)"
    using take_prior_ok [of "p\<lparr>ap_error := None\<rparr>"] assms by (cases "ap_slot p") (simp_all add: one_handle_def)
  show "\<exists>r. arti_init e rt addr dir mode p = Some r"
    unfolding arti_init_def t Let_def by (simp split: option.split sum.split)
  show "arti_init e rt addr dir mode p = Some (r, p') \<Longrightarrow>
      (r = None \<and> ap_slot p' = None \<and> ap_handles p' = []) \<or>
      (\<exists>n. r = Some addr \<and> ap_slot p' = Some addr \<and> ap_handles p' = [(addr, \<lparr>ah_node = n, ah_onion = None\<rparr>)])"
    unfolding arti_init_def t Let_def by (auto split: option.splits sum.splits if_splits)
qed

text \<open>The outcomes of creating the onion service.\<close>

lemma update_fst: "map_of xs a \<noteq> None \<Longrightarrow> map fst (AList.update a v xs) = map fst xs"
  by (induction xs) (auto split: if_splits)

lemma create_onion_cases:
  assumes "arti_create_onion_service rc ne la handle port p = Some (r, p')"
  obtains (none) "r = None" "ap_handles p' = ap_handles p" "ap_slot p' = ap_slot p"
  | (same) a h o1 where "handle = Some a" "map_of (ap_handles p) a = Some h" "ah_onion h = Some o1" "oh_local_port o1 = port"
      "r = Some (oh_address o1)" "ap_handles p' = ap_handles p" "ap_slot p' = ap_slot p"
  | (new) a h o1 where "handle = Some a" "map_of (ap_handles p) a = Some h" "r = Some (oh_address o1)" "ap_slot p' = ap_slot p"
      "ap_handles p' = AList.update a (h\<lparr>ah_onion := Some o1\<rparr>) (ap_handles p)" "oh_local_port o1 = port"
      "oh_proxy o1 = [(80, port)]" "\<And>o0. ah_onion h = Some o0 \<Longrightarrow> oh_address o1 = oh_address o0 \<and> oh_nickname o1 = oh_nickname o0"
      "ah_onion h = None \<Longrightarrow> oh_nickname o1 = PHONE_HS_NICKNAME"
proof (cases handle)
  case None
  then have "r = None" "p' = p\<lparr>ap_error := Some ''handle is NULL''\<rparr>" using assms by (simp_all add: arti_create_onion_service_def)
  then show thesis by (intro none) simp_all
next
  case a: (Some a)
  obtain h where h: "map_of (ap_handles p) a = Some h" using assms a by (cases "map_of (ap_handles p) a") (simp_all add: arti_create_onion_service_def)
  show thesis
  proof (cases "ah_onion h")
    case o0: (Some o0)
    consider "oh_local_port o0 = port" | e where "oh_local_port o0 \<noteq> port" "rc = Some e" | "oh_local_port o0 \<noteq> port" "rc = None"
      by (cases rc) auto
    then show thesis
    proof cases
      case 1
      then have "r = Some (oh_address o0)" "p' = p\<lparr>ap_error := None\<rparr>"
        using assms a h o0 by (simp_all add: arti_create_onion_service_def)
      then show thesis by (intro same [OF a h o0 1]) simp_all
    next
      case (2 e)
      have "(r, p') = (None, p\<lparr>ap_error := Some (''arti_create_onion_service retarget failed: '' @ ''reconfigure onion proxy: '' @ e)\<rparr>)"
        using assms a h o0 2 by (simp add: arti_create_onion_service_def retarget_def)
      then show thesis by (intro none) simp_all
    next
      case 3
      define o1 where "o1 = o0\<lparr>oh_proxy := mk_proxy_config port, oh_local_port := port\<rparr>"
      have e: "(r, p') = (Some (oh_address o1), p\<lparr>ap_error := None, ap_handles := AList.update a (h\<lparr>ah_onion := Some o1\<rparr>) (ap_handles p)\<rparr>)"
        using assms a h o0 3 by (simp add: arti_create_onion_service_def retarget_def o1_def)
      show thesis by (rule new [OF a h, of o1]) (use e o0 in \<open>simp_all add: o1_def mk_proxy_config_def\<close>)
    qed
  next
    case n: None
    show thesis
    proof (cases "launch_service ne la PHONE_HS_NICKNAME port")
      case (Inl e)
      then have "(r, p') = (None, p\<lparr>ap_error := Some (''arti_create_onion_service failed: '' @ e)\<rparr>)"
        using assms a h n by (simp add: arti_create_onion_service_def)
      then show thesis by (intro none) simp_all
    next
      case (Inr o1)
      have o1: "oh_local_port o1 = port" "oh_proxy o1 = [(80, port)]" "oh_nickname o1 = PHONE_HS_NICKNAME"
        using Inr by (auto simp: launch_service_def mk_proxy_config_def split: option.splits sum.splits)
      have e: "(r, p') = (Some (oh_address o1), p\<lparr>ap_error := None, ap_handles := AList.update a (h\<lparr>ah_onion := Some o1\<rparr>) (ap_handles p)\<rparr>)"
        using assms a h n Inr by (simp add: arti_create_onion_service_def)
      show thesis by (rule new [OF a h, of o1]) (use e n o1 in simp_all)
    qed
  qed
qed

lemma one_handle_keys: "one_handle p \<longleftrightarrow> map fst (ap_handles p) = (case ap_slot p of None \<Rightarrow> [] | Some a \<Rightarrow> [a])"
proof (cases "ap_slot p")
  case (Some a)
  then show ?thesis by (cases "ap_handles p" rule: list.exhaust) (auto simp: one_handle_def)
qed (simp add: one_handle_def)

lemma arti_step_inv:
  assumes "arti_step p p'" "arti_inv p"
  shows "arti_inv p'"
proof -
  have o: "one_handle p" and i: "\<And>a h. map_of (ap_handles p) a = Some h \<Longrightarrow> onion_ok h"
    using assms(2) by (auto simp: arti_inv_def)
  from assms(1) show ?thesis
  proof cases
    case (at_init addr e rt dir mode r)
    then show ?thesis using arti_init_ok(2) [OF o at_init(2)] by (auto simp: arti_inv_def one_handle_def onion_ok_def split: if_splits)
  next
    case (at_onion rc ne la h port r)
    from at_onion show ?thesis
    proof (cases rule: create_onion_cases)
      case (new a hd o1)
      have "onion_ok (hd\<lparr>ah_onion := Some o1\<rparr>)" using new i [OF new(2)] by (cases "ah_onion hd") (simp_all add: onion_ok_def)
      then show ?thesis using o i new
        by (auto simp: arti_inv_def one_handle_keys update_fst update_conv' split: if_splits)
    qed (use o i in \<open>auto simp: arti_inv_def one_handle_keys\<close>)
  next
    case (at_boot err h c)
    then have "ap_handles p' = ap_handles p \<and> ap_slot p' = ap_slot p"
      by (auto simp: arti_bootstrap_def Let_def split: option.splits if_splits)
    then show ?thesis using o i by (simp add: arti_inv_def one_handle_keys)
  next
    case (at_shutdown h c)
    then have "p' = p \<or> ap_slot p' = None \<and> (\<exists>a. ap_slot p = Some a \<and> ap_handles p' = AList.delete a (ap_handles p))"
      by (auto simp: arti_shutdown_def split: option.splits if_splits)
    then show ?thesis using assms(2) o by (auto simp: arti_inv_def one_handle_def AList.delete_eq)
  qed
qed

lemma arti_reach_inv: "arti_step\<^sup>*\<^sup>* arti_proc_new p \<Longrightarrow> arti_inv p"
proof (induction rule: rtranclp_induct)
  case base
  show ?case by (simp add: arti_proc_new_def arti_inv_def one_handle_def)
qed (blast intro: arti_step_inv)


text \<open>
  C37: Publishing the phone's server, once and again. A call that succeeds leaves the reverse
  proxy of the handle's onion service forwarding virtual port 80 to exactly the port it was
  given, and returns the address the service had before, if there was one: the address never
  changes while the handle lives, so stored cards stay valid.
\<close>
theorem onion_address_stable:
  assumes "arti_step\<^sup>*\<^sup>* arti_proc_new p" "map_of (ap_handles p) a = Some h"
    "arti_create_onion_service rc ne la (Some a) port p = Some (Some address, p')"
  shows "\<exists>h' ho. map_of (ap_handles p') a = Some h' \<and> ah_onion h' = Some ho \<and> oh_address ho = address \<and>
    oh_proxy ho = [(80, port)] \<and> (\<forall>o0. ah_onion h = Some o0 \<longrightarrow> oh_address o0 = address)"
  using assms(3)
proof (cases rule: create_onion_cases)
  case (same b hd o1)
  then have "onion_ok hd" using arti_reach_inv [OF assms(1)] by (auto simp: arti_inv_def)
  then show ?thesis using same assms(2) by (auto simp: onion_ok_def)
next
  case (new b hd o1)
  then show ?thesis using assms(2) by (cases "ah_onion hd") (auto simp: update_conv')
qed simp

lemma status_percent_bounds: "0 \<le> ss_bootstrap_percent (node_status fr ready n) \<and> ss_bootstrap_percent (node_status fr ready n) \<le> 100"
  by (simp add: node_status_def)

text \<open>Missing directories become private, existing ones other than the last keep their mode.\<close>

lemma create_dirs_mode:
  "create_dirs pre path fs p =
     (if fs p = None \<and> (\<exists>n. 0 < n \<and> n \<le> length path \<and> p = pre @ take n path) then Some 448 else fs p)"
proof (induction pre path fs rule: create_dirs.induct)
  case (2 pre c cs fs)
  have t: "(\<exists>n. 0 < n \<and> n \<le> length (c # cs) \<and> p = pre @ take n (c # cs)) \<longleftrightarrow>
      p = pre @ [c] \<or> (\<exists>n. 0 < n \<and> n \<le> length cs \<and> p = (pre @ [c]) @ take n cs)"
  proof
    assume "\<exists>n. 0 < n \<and> n \<le> length (c # cs) \<and> p = pre @ take n (c # cs)"
    then obtain n where n: "0 < n" "n \<le> length (c # cs)" "p = pre @ take n (c # cs)" by blast
    then obtain m where "n = Suc m" by (cases n) auto
    then show "p = pre @ [c] \<or> (\<exists>n. 0 < n \<and> n \<le> length cs \<and> p = (pre @ [c]) @ take n cs)"
      using n by (cases "m = 0") auto
  next
    assume "p = pre @ [c] \<or> (\<exists>n. 0 < n \<and> n \<le> length cs \<and> p = (pre @ [c]) @ take n cs)"
    then show "\<exists>n. 0 < n \<and> n \<le> length (c # cs) \<and> p = pre @ take n (c # cs)"
    proof
      assume "p = pre @ [c]"
      then show ?thesis by (intro exI [of _ 1]) simp
    next
      assume "\<exists>n. 0 < n \<and> n \<le> length cs \<and> p = (pre @ [c]) @ take n cs"
      then obtain n where "n \<le> length cs" "p = (pre @ [c]) @ take n cs" by blast
      then show ?thesis by (intro exI [of _ "Suc n"]) simp
    qed
  qed
  show ?case unfolding t using 2 by (auto simp: Let_def)
qed simp

section \<open>Examples\<close>

definition ex_node_env :: node_env where
  "ex_node_env = \<lparr>ne_dirs = None, ne_configured = None, ne_bootstrapped = None, ne_constructed = None, ne_socks = Inr 9150\<rparr>"

definition ex_proc :: arti_proc where
  "ex_proc = \<lparr>ap_handles = [(64, \<lparr>ah_node = \<lparr>an_socks_port = 9150, an_socks_task = True\<rparr>, ah_onion = None\<rparr>)], ap_slot = Some 64, ap_error = None\<rparr>"

lemma ex_proc_reach: "arti_step\<^sup>*\<^sup>* arti_proc_new ex_proc"
proof (rule r_into_rtranclp, rule at_init)
  show "arti_init ex_node_env None 64 (Some (Some ''/d'')) 0 arti_proc_new = Some (Some 64, ex_proc)"
    by (simp add: arti_init_def take_prior_def arti_proc_new_def node_start_def ex_node_env_def ARTI_BOOTSTRAP_FULL_def ex_proc_def)
  show "map_of (ap_handles arti_proc_new) 64 = None \<or> ap_slot arti_proc_new = Some 64" by (simp add: arti_proc_new_def)
qed


theorem onion_address_stable_witness:
  "\<exists>p' h' ho. arti_create_onion_service None None (Inr (Some ''abc.onion'')) (Some 64) 8080 ex_proc = Some (Some ''abc.onion'', p') \<and>
     map_of (ap_handles p') 64 = Some h' \<and> ah_onion h' = Some ho \<and> oh_proxy ho = [(80, 8080)]"
proof -
  obtain p' where c: "arti_create_onion_service None None (Inr (Some ''abc.onion'')) (Some 64) 8080 ex_proc = Some (Some ''abc.onion'', p')"
    by (simp add: arti_create_onion_service_def ex_proc_def launch_service_def)
  then show ?thesis using onion_address_stable [OF ex_proc_reach _ c] by (auto simp: ex_proc_def)
qed

end
