(* ===== verification/Spec2Isabelle.thy ===== *)
theory Spec2Isabelle
  imports Startup AdminProps Ws Drain P2pProps Tor
begin

text \<open>
  A verification development for Starling: the always-on relay (\<open>src/relay\<close>) that keeps and serves
  the encrypted events and media of the Owners paired with it over Tor and mixes their voice calls,
  and the native bridge of the mobile app (\<open>src/app/starling/native/starling_bridge\<close>) that gives the
  app Tor and direct connections.

  \<^bold>\<open>The program and its parts.\<close> The binary (\<open>main.rs\<close>) loads the configuration, opens the
  database, sweeps the media directory, starts Tor, publishes the admin onion, starts the voice
  server, and hands everything to the supervisor, which publishes one onion service per paired Owner
  and serves the Owner's HTTP router and signalling socket behind it. The admin pages, the pair
  endpoint and the control socket change the set of Owners through the supervisor. Handlers share the
  SQLite database and the media directory; the voice server owns its state and is reached by commands.

  \<^bold>\<open>Conventions.\<close> Data are records and datatypes with the source's fields and constructors; an
  operation is one function from the state to its result and the next state; an error is a value
  (\<open>fault\<close>, a status code, \<open>vfail\<close>, a negative code of the FFI). A table is the list of its rows and a
  statement is written out over it; a hash map is an association list, and at boot the order in which it
  is iterated is an argument.
  \<open>i64\<close> values are integers with the wrap-around written out (\<open>i64_wrap\<close>), smaller machine integers
  are words; the rate limiter's \<open>f64\<close> is replaced by exact rationals. What the program calls and does not
  contain (BLAKE2b, Ed25519, CBOR, base64, Argon2, TOML, the WebRTC engine, the Tor client, the libp2p
  swarm) is a parameter: the records \<open>ext\<close>, \<open>adm_ext\<close>, \<open>rtc_ops\<close>, \<open>p2p_ext\<close>, or an argument that gives
  the outcome of the call. Clocks, generators and the faults of the operating system are in
  environment records (\<open>env\<close>, \<open>gc_env\<close>, \<open>sup_env\<close>, \<open>admin_env\<close>, \<open>boot_env\<close>, \<open>node_env\<close>), over which the
  theorems quantify.

  \<^bold>\<open>Theories.\<close>

  \<^item> \<open>Prelude\<close>: types, results, integers at their width, tables, decimal text.
  \<^item> \<open>Base32\<close> (\<open>starling-wire/base32.rs\<close>): the codec with its 32-bit buffer; round trip, and which
    texts decode.
  \<^item> \<open>Wire\<close> (\<open>starling-wire\<close>): every message with its CBOR encoding and serde decoding, the
    signed buffers, the pairing claim; round trips, and that what an Owner signs determines the request.
  \<^item> \<open>Storage\<close> (\<open>starling-relay-storage\<close>): schema and migrations, every statement on every table,
    the capacity check; the invariant of keys and foreign keys over all statements.
  \<^item> \<open>Paging\<close>: the locale \<open>keyset_paging\<close> of reading a table page by page behind a cursor, interpreted for
    the payload pages and both manifests: complete, finite, and stable under concurrent writes.
  \<^item> \<open>RateLimit\<close> (\<open>rate_limit.rs\<close>): the token bucket and its bound.
  \<^item> \<open>Http\<close> and \<open>Serving\<close> (\<open>starling-relay-http\<close>): the owner check, the route table with its two
    limiters, every handler on every branch; who may change what, that the handlers do what they say, that no
    request and no failing step breaks the relay's state.
  \<^item> \<open>Gc\<close> (\<open>gc.rs\<close>): the start-up sweep over database and directory tree.
  \<^item> \<open>Voice\<close>, \<open>VoiceInv\<close>, \<open>VoiceProps\<close>, \<open>Drain\<close>, \<open>Ws\<close> (\<open>starling-relay-voice\<close>): the event loop with
    registry, calls, sessions and forwarding; its invariant and what each step does to it; that it panics
    only in one way; that its media loops end; the websocket driver in front of it.
  \<^item> \<open>Config\<close> (\<open>config.rs\<close>): defaults, file, environment, validation, the address parsers.
  \<^item> \<open>Supervisor\<close> (\<open>supervisor.rs\<close>): onion services and serving tasks, pairing, unpairing,
    restoration, the serving loop with its backoff; the invariant that ties tasks to rows and ports.
  \<^item> \<open>Admin\<close>, \<open>AdminProps\<close> (\<open>starling-relay-admin\<close>, \<open>admin_sock.rs\<close>): tokens, password gate with
    its cache, pages, \<open>POST /pair\<close>, the control socket. They see the relay through the locale
    \<open>relay_control\<close>, the contract of the trait \<open>RelayControl\<close>, interpreted on the supervisor.
  \<^item> \<open>Startup\<close> (\<open>main.rs\<close>): start-up in its order, the boot load of the voice registry, the commands.
  \<^item> \<open>Tor\<close> (\<open>starling-arti\<close>, \<open>starling_bridge/src/arti\<close>): onion services and their proxy, private
    directories, the process-wide handle; a use of freed memory is \<open>None\<close>.
  \<^item> \<open>Frames\<close>, \<open>P2p\<close>, \<open>P2pProps\<close> (\<open>starling_bridge/src/p2p\<close>): framed streams with their reader and
    writer tasks, the libp2p event loop with its commands, dials and watchdogs, the FFI calls, the interface
    enumerator; reachability over all of them.
  \<^item> This theory: the property that spans the relay's components, from configuration to the registry of
    the voice loop.

  \<^bold>\<open>What is shown.\<close> Safety: only the Owner's signature changes an Owner's data, only a live token
  pairs, only the password opens the admin pages. Invariants: of the database, of the relay's state
  under every request, of the supervisor, of the admin endpoints, of the voice loop, of the libp2p
  bridge, each over every interleaving of its steps. Function: pushes, uploads, deletions, slots,
  pairing, unpairing, restoration, forwarding, stream reads. Liveness and termination: paging
  reaches the end, restored Owners are served, media loops end. Round trips: base32, wire messages,
  frames over a stream cut anywhere. Some theorems show where the code does less than it means to:
  a replayed signature, a join that panics, an interrupted migration, a pairing that leaves a task
  without a row, a watchdog that ends a later dial, interface addresses that are never announced, an
  admin gate that opens when the database fails.

  \<^bold>\<open>Fuel.\<close> Two loops of the voice server depend on an engine that is a parameter, so
  \<open>poll_loop\<close> and \<open>drain_ready\<close> carry fuel and a lack of it is the result \<open>V_fuel\<close>, not a success.
  \<open>Drain\<close> shows that for an engine that hands out what it holds and receives nothing by itself some fuel is
  enough for every sequence of events, and that more of it changes nothing. All other
  functions are total. The libp2p bridge numbers connections and streams with an \<open>i64\<close>; its invariant is for runs
  of fewer than \<open>2^63\<close> steps.

  \<^bold>\<open>Not modelled.\<close> The Dart, Kotlin and Swift code of the app, the web page templates, QR
  drawing, logging, the command line and signals; \<open>socks.rs\<close>, a pump between two sockets around the
  handshake of a crate; opening the SQLite pool and its pragmas; the accept loops of the listeners and the
  client side of the control socket; strings and panics at the C boundary. These are input and output, or
  code of libraries. Transactions of one handler are atomic, as SQLite makes them; where a
  handler uses several, or files besides, their interleaving is modelled.
\<close>

section \<open>The relay from start-up on\<close>

text \<open>An environment in which everything works, for the example below.\<close>

definition ex_boot_vars :: vars where
  "ex_boot_vars = (\<lambda>k. if k = ''STARLING_RELAY_VOICE_ENABLED'' then Some ''true'' else None)"

definition ex_boot_env :: boot_env where
  "ex_boot_env =
     \<lparr>bo_data_dir = True, bo_media_dir = True, bo_arti_dir = True, bo_open = True, bo_gc = ex_gc_env, bo_arti = True, bo_pair_bound = True,
      bo_admin_onion = Some ''adm.onion'', bo_fmt = (\<lambda>_. []), bo_ifaces = [], bo_bound = Some (sock_new (V4 10 0 0 1) 47000), bo_seed = 0,
      bo_slots_ok = True, bo_order = rev, bo_sup = ex_sup_env, bo_admin_bound = True\<rparr>"

text \<open>
  C3: Start-up as a whole, with voice on: from a configuration that loads and a consistent
  database, whatever the sweep finds, when the operating system and Tor co-operate, \<open>serve\<close> comes
  up. Then no paired Owner, event or slot has been lost; every Owner whose onion launches and whose port
  is free is served under its stored port; and once the voice loop has taken the commands sent to it,
  in whatever order the hash map gave them, its registry knows exactly the stored slots.
\<close>
theorem boot_complete:
  fixes ops :: "('r, 'p) rtc_ops"
  assumes "config_load read_file toml env path = Inr c" "vf_enabled (cf_voice c)" "db_inv db"
    and "bo_data_dir e" "bo_media_dir e" "bo_arti_dir e" "bo_open e" "bo_arti e" "bo_pair_bound e" "bo_admin_onion e = Some onion"
    and "bo_bound e = Some local_addr" "candidate_addrs (bo_ifaces e) local_addr [] \<noteq> []" "bo_slots_ok e"
    and "\<And>l. mset (bo_order e l) = mset l" "sn_get (bo_sup e) 0" "bo_admin_bound e"
  shows "\<exists>ry sv cmds sv'. serve_boot x c e db t fs = Inr ry \<and>
    d_owners (su_db (ry_sup ry)) = d_owners db \<and> d_events (su_db (ry_sup ry)) = d_events db \<and> d_slots (su_db (ry_sup ry)) = d_slots db \<and>
    (\<forall>row a. row \<in> set (d_owners db) \<and> length (po_pubkey row) = 32 \<and>
       sn_launch (bo_sup e) (x_hex_encode x (po_pubkey row)) (po_local_port row) = Some a \<and> sn_port_free (bo_sup e) (po_local_port row) \<longrightarrow>
       (\<exists>tk. task (ry_sup ry) (po_pubkey row) = Some tk \<and> ot_port tk = po_local_port row \<and> ot_onion tk = a \<and> ot_state tk = Listening)) \<and>
    ry_voice ry = Some (sv, cmds) \<and>
    run_events x ops fu (map (\<lambda>cmd. (now, E_command cmd)) cmds) sv = Inr sv' \<and>
    (\<forall>ow h m. registry_lookup ow h (sv_registry sv') = Some m \<longleftrightarrow>
       (\<exists>r \<in> set (d_slots db). sl_pubkey r = ow \<and> length ow = 32 \<and> sl_token_hash r = h \<and> length h = 32 \<and> sl_max_participants r = m))"
proof -
  have v: "validate c = Inr ()" using assms(1) by (auto simp: config_load_def cbind_Inr)
  obtain Q r t1 where gc: "gc_sweep x (bo_gc e) db t = (r, db\<lparr>d_media := filter Q (d_media db)\<rparr>, t1)" by (rule gc_sweep_media)
  define db1 where "db1 = db\<lparr>d_media := filter Q (d_media db)\<rparr>"
  have i: "db_inv db1" using db_inv_media_filter [OF assms(3)] by (simp add: db1_def)
  define groups where "groups = bo_order e (group_slots (slots_list_all db1) [])"
  obtain sv :: "('r, 'p) server" where sv: "start_voice c e db1 = Inr (sv, map (\<lambda>(owner, slots). C_RegisterSlots owner slots) groups)"
    "sv_sessions sv = []" "sv_calls sv = []" "sv_dirty sv = []" "sv_registry sv = []"
    using start_voice_ok [OF v assms(11-13), of db1] by (auto simp: groups_def)
  obtain s where s: "restore_all x (bo_sup e) (supervisor_new db1 fs) = (Inr (), s)" "su_db s = db1"
    and served: "\<forall>row a. row \<in> set (d_owners db1) \<and> length (po_pubkey row) = 32 \<and>
       sn_launch (bo_sup e) (x_hex_encode x (po_pubkey row)) (po_local_port row) = Some a \<and> sn_port_free (bo_sup e) (po_local_port row) \<longrightarrow>
       (\<exists>tk. task s (po_pubkey row) = Some tk \<and> ot_port tk = po_local_port row \<and> ot_onion tk = a \<and> ot_state tk = Listening)"
    using restore_boot [OF i assms(15)] by blast
  define cmds where "cmds = map (\<lambda>(owner, slots). C_RegisterSlots owner slots) groups"
  define ry where "ry = \<lparr>ry_sup = s, ry_cfg = \<lparr>sg_caps = \<lparr>cp_per_owner_default = cf_per_owner_default_cap_bytes c, cp_disk_cap = cf_disk_cap_bytes c\<rparr>,
      sg_admin_onion = onion, sg_port_range = cf_local_port_range c, sg_voice = Some (vf_max_participants (cf_voice c))\<rparr>,
      ry_tree = t1, ry_voice = Some (sv, cmds)\<rparr>"
  have boot: "serve_boot x c e db t fs = Inr ry"
    using assms(2,4-10,16) gc sv(1) s(1) by (simp add: serve_boot_def ensure_dirs_def ry_def cmds_def db1_def [symmetric])
  have m: "map (\<lambda>cmd. (now, E_command cmd)) cmds = map (\<lambda>(owner, slots). (now, E_command (C_RegisterSlots owner slots))) groups"
    by (simp add: cmds_def split_beta)
  have run: "run_events x ops fu (map (\<lambda>cmd. (now, E_command cmd)) cmds) sv =
      Inr (sv\<lparr>sv_registry := fold (\<lambda>(owner, es). registry_replace_set owner es) groups []\<rparr>)"
    unfolding m using register_events [OF sv(2-4), of x ops fu now groups] sv(5) by simp
  have reg: "registry_lookup ow h (fold (\<lambda>(owner, es). registry_replace_set owner es) groups []) = Some k \<longleftrightarrow>
     (\<exists>r \<in> set (d_slots db). sl_pubkey r = ow \<and> length ow = 32 \<and> sl_token_hash r = h \<and> length h = 32 \<and> sl_max_participants r = k)" for ow h k
    using boot_registry [OF i assms(14), of ow h k] by (simp add: groups_def db1_def)
  show ?thesis
    by (rule exI [of _ ry], rule exI [of _ sv], rule exI [of _ cmds],
        rule exI [of _ "sv\<lparr>sv_registry := fold (\<lambda>(owner, es). registry_replace_set owner es) groups []\<rparr>"])
      (use boot run reg served s(2) in \<open>simp add: ry_def db1_def\<close>)
qed

theorem boot_complete_witness:
  "\<exists>c ry tk. config_load (\<lambda>_. None) (\<lambda>_. None) ex_boot_vars None = Inr c \<and>
     (serve_boot plain_ext c ex_boot_env (empty_db\<lparr>d_owners := [ex_owner_row]\<rparr>) (NDir []) [] :: fault + ((u32 \<times> rtp_write) list, unit) relay) = Inr ry \<and>
     task (ry_sup ry) ex_key = Some tk \<and> ot_port tk = 17000"
proof -
  obtain c where c: "config_load (\<lambda>_. None) (\<lambda>_. None) ex_boot_vars None = Inr c" "vf_enabled (cf_voice c)"
    by (simp add: config_load_def cbind_def apply_env_def env_parse_def env_text_def env_port_range_def env_addrs_def ex_boot_vars_def
        validate_def config_default_def voice_config_default_def caps_default_def parse_bool_def Let_def)
  have d: "db_inv (empty_db\<lparr>d_owners := [ex_owner_row]\<rparr>)" by (simp add: db_inv_def empty_db_def tbl_keys_def)
  have n: "candidate_addrs (bo_ifaces ex_boot_env) (sock_new (V4 10 0 0 1) 47000) [] \<noteq> []"
    by (simp add: candidate_addrs_def sock_new_def push_addr_def)
  have o: "bo_data_dir ex_boot_env" "bo_media_dir ex_boot_env" "bo_arti_dir ex_boot_env" "bo_open ex_boot_env" "bo_arti ex_boot_env"
    "bo_pair_bound ex_boot_env" "bo_admin_onion ex_boot_env = Some ''adm.onion''" "bo_bound ex_boot_env = Some (sock_new (V4 10 0 0 1) 47000)"
    "bo_slots_ok ex_boot_env" "bo_order ex_boot_env = rev" "sn_get (bo_sup ex_boot_env) 0" "bo_admin_bound ex_boot_env"
    "sn_launch (bo_sup ex_boot_env) = (\<lambda>_ _. Some ''abc.onion'')" "sn_port_free (bo_sup ex_boot_env) = (\<lambda>_. True)"
    by (simp_all add: ex_boot_env_def ex_sup_env_def)
  have m: "mset (bo_order ex_boot_env l) = mset l" for l using o(10) by simp
  obtain ry where ry: "(serve_boot plain_ext c ex_boot_env (empty_db\<lparr>d_owners := [ex_owner_row]\<rparr>) (NDir []) [] :: fault + ((u32 \<times> rtp_write) list, unit) relay) = Inr ry"
    and served: "\<And>row a. row \<in> set (d_owners (empty_db\<lparr>d_owners := [ex_owner_row]\<rparr>)) \<and> length (po_pubkey row) = 32 \<and>
       sn_launch (bo_sup ex_boot_env) (x_hex_encode plain_ext (po_pubkey row)) (po_local_port row) = Some a \<and>
       sn_port_free (bo_sup ex_boot_env) (po_local_port row) \<Longrightarrow>
       \<exists>tk. task (ry_sup ry) (po_pubkey row) = Some tk \<and> ot_port tk = po_local_port row \<and> ot_onion tk = a \<and> ot_state tk = Listening"
    using boot_complete [OF c d o(1-8) n o(9) m o(11,12), where x = plain_ext and t = "NDir []" and fs = "[]" and ops = log_ops and fu = ex_fuel and now = 0]
    by (elim exE conjE) (rule that, assumption, blast)
  have "\<exists>tk. task (ry_sup ry) (po_pubkey ex_owner_row) = Some tk \<and> ot_port tk = po_local_port ex_owner_row \<and> ot_onion tk = ''abc.onion'' \<and> ot_state tk = Listening"
    by (rule served) (simp add: o(13,14), simp add: ex_owner_row_def ex_key_def)
  then show ?thesis using c(1) ry by (auto simp: ex_owner_row_def)
qed

end
